(* ===== verification/Prelude.thy ===== *)
theory Prelude
  imports Main "HOL-Library.Word"
begin

text \<open>
  What every component of the development shares: Go values that may panic, the (value, error)
  convention, arrays of length two, shifts on fixed-width integers, folds that stop at the first
  failure, and the lemmas on them. Nothing here models a file of the repository; it is the part
  of the Go language the other theories are written in.
\<close>

unbundle bit_operations_syntax

named_theorems go_defs \<open>definitions of the small Go operations, to be unfolded by the simplifier\<close>

section \<open>Run-time panics and error results\<close>

text \<open>
  A Go expression either panics or has a value. \<open>'a go\<close> is the type of such an
  outcome; \<open>Inl\<close> carries the run-time panic.
\<close>

datatype go_panic =
    IndexOutOfRange
  | SliceBoundsOutOfRange
  | MakeChanSize
  | CloseOfClosedChannel
  | NilDereference

type_synonym 'a go = "go_panic + 'a"

text \<open>Sequencing of computations whose failure is \<open>Inl\<close>: a panic, or a returned error.\<close>

definition bindE :: "'e + 'a \<Rightarrow> ('a \<Rightarrow> 'e + 'b) \<Rightarrow> 'e + 'b" where
  "bindE m f = (case m of Inl e \<Rightarrow> Inl e | Inr a \<Rightarrow> f a)"

lemma bindE_simps [simp]:
  "bindE (Inl e) f = Inl e"
  "bindE (Inr a) f = f a"
  by (simp_all add: bindE_def)

lemma bindE_assoc: "bindE (bindE m f) g = bindE m (\<lambda>a. bindE (f a) g)"
  by (cases m) simp_all

lemma bindE_Inr_iff: "bindE m f = Inr b \<longleftrightarrow> (\<exists>a. m = Inr a \<and> f a = Inr b)"
  by (cases m) simp_all

lemma bindE_Inl_iff: "bindE m f = Inl e \<longleftrightarrow> m = Inl e \<or> (\<exists>a. m = Inr a \<and> f a = Inl e)"
  by (cases m) auto

definition mapE :: "('a \<Rightarrow> 'b) \<Rightarrow> 'e + 'a \<Rightarrow> 'e + 'b" where
  "mapE f m = bindE m (\<lambda>a. Inr (f a))"

lemma mapE_simps [simp]:
  "mapE f (Inl e) = Inl e"
  "mapE f (Inr a) = Inr (f a)"
  by (simp_all add: mapE_def)

lemma mapE_mapE: "mapE f (mapE g m) = mapE (\<lambda>x. f (g x)) m"
  by (cases m) simp_all

lemma mapE_Inr_iff: "mapE f m = Inr b \<longleftrightarrow> (\<exists>a. m = Inr a \<and> b = f a)"
  by (cases m) auto

text \<open>A loop over a slice whose body may fail: the first failure ends the loop.\<close>

fun foldE :: "('a \<Rightarrow> 's \<Rightarrow> 'e + 's) \<Rightarrow> 'a list \<Rightarrow> 's \<Rightarrow> 'e + 's" where
  "foldE f [] s = Inr s"
| "foldE f (x # xs) s = bindE (f x s) (foldE f xs)"

lemma foldE_append: "foldE f (xs @ ys) s = bindE (foldE f xs s) (foldE f ys)"
proof (induction xs arbitrary: s)
  case (Cons x xs)
  then show ?case by (cases "f x s") simp_all
qed simp

text \<open>The invariant rule of such a loop, and the case where no body fails.\<close>

lemma foldE_invariant:
  assumes "foldE f xs s = Inr t" and "I s"
    and "\<And>x u v. x \<in> set xs \<Longrightarrow> I u \<Longrightarrow> f x u = Inr v \<Longrightarrow> I v"
  shows "I t"
  using assms
proof (induction xs arbitrary: s)
  case (Cons x xs)
  then obtain u where "f x s = Inr u" and "foldE f xs u = Inr t"
    by (auto simp: bindE_Inr_iff)
  then show ?case using Cons by (metis list.set_intros)
qed simp

lemma foldE_pure:
  "(\<And>x u. x \<in> set xs \<Longrightarrow> f x u = Inr (g x u)) \<Longrightarrow> foldE f xs s = Inr (fold g xs s)"
  by (induction xs arbitrary: s) simp_all

text \<open>
  A loop whose body acts on the sets \<open>S\<close> of a state and keeps a part \<open>v\<close> of it: the loop
  is the fold of the actions.
\<close>

lemma foldE_sets:
  assumes "\<And>n s. n \<in> set ns \<Longrightarrow> \<exists>s'. f n s = Inr s' \<and> v s' = v s \<and>
      (\<forall>k \<in> K. S s' k = (if P k then g (v s) n (S s k) else S s k))"
  shows "\<exists>s'. foldE f ns s = Inr s' \<and> v s' = v s \<and>
      (\<forall>k \<in> K. S s' k = (if P k then fold (g (v s)) ns (S s k) else S s k))"
  using assms
proof (induction ns arbitrary: s)
  case (Cons n ns)
  obtain s1 where s1: "f n s = Inr s1" "v s1 = v s"
      "\<forall>k \<in> K. S s1 k = (if P k then g (v s) n (S s k) else S s k)"
    using Cons.prems [of n s] by auto
  obtain s2 where "foldE f ns s1 = Inr s2" "v s2 = v s1"
      "\<forall>k \<in> K. S s2 k = (if P k then fold (g (v s1)) ns (S s1 k) else S s1 k)"
    using Cons.IH [of s1] Cons.prems by auto
  with s1 show ?case by auto
qed simp

section \<open>Arrays of length two\<close>

text \<open>A Go \<open>[2]T\<close>; an index other than 0 and 1 panics.\<close>

datatype 'a arr2 = Arr2 (at0: 'a) (at1: 'a)

definition arr2_get :: "'a arr2 \<Rightarrow> nat \<Rightarrow> 'a go" where
  "arr2_get a i = (if i = 0 then Inr (at0 a) else if i = 1 then Inr (at1 a) else Inl IndexOutOfRange)"

definition arr2_upd :: "nat \<Rightarrow> ('a \<Rightarrow> 'a) \<Rightarrow> 'a arr2 \<Rightarrow> 'a arr2 go" where
  "arr2_upd i f a = (if i = 0 then Inr (Arr2 (f (at0 a)) (at1 a))
     else if i = 1 then Inr (Arr2 (at0 a) (f (at1 a))) else Inl IndexOutOfRange)"

lemma arr2_simps [simp]:
  "arr2_get (Arr2 x y) 0 = Inr x"
  "arr2_get (Arr2 x y) (Suc 0) = Inr y"
  "arr2_upd 0 f (Arr2 x y) = Inr (Arr2 (f x) y)"
  "arr2_upd (Suc 0) f (Arr2 x y) = Inr (Arr2 x (f y))"
  by (simp_all add: arr2_get_def arr2_upd_def)

lemma arr2_sel_map [simp]: "at0 (map_arr2 f a) = f (at0 a)" "at1 (map_arr2 f a) = f (at1 a)"
  by (cases a; simp)+

lemma arr2_get_map: "arr2_get (map_arr2 f a) i = mapE f (arr2_get a i)"
  by (simp add: arr2_get_def)

lemma arr2_get_in_range: "i < 2 \<Longrightarrow> arr2_get a i = Inr (if i = 0 then at0 a else at1 a)"
  by (auto simp: arr2_get_def less_2_cases_iff)

lemma arr2_get_panics: "2 \<le> i \<Longrightarrow> arr2_get a i = Inl IndexOutOfRange"
  by (simp add: arr2_get_def)

lemma arr2_upd_in_range:
  "i < 2 \<Longrightarrow> arr2_upd i f a = Inr (if i = 0 then Arr2 (f (at0 a)) (at1 a) else Arr2 (at0 a) (f (at1 a)))"
  by (auto simp: arr2_upd_def less_2_cases_iff)

lemma arr2_upd_panics: "2 \<le> i \<Longrightarrow> arr2_upd i f a = Inl IndexOutOfRange"
  by (simp add: arr2_upd_def)

section \<open>Fixed-width integers\<close>

text \<open>
  Go's \<open>uint(x)\<close> of an \<open>int\<close> \<open>x\<close> on a 64-bit platform, and
  \<open>1 << n\<close> at the width of the other operand: a shift count of at least the width
  gives 0.
\<close>

definition uint_of_int :: "int \<Rightarrow> nat" where
  "uint_of_int x = nat (x mod 2 ^ 64)"

lemma uint_of_int_id: "0 \<le> x \<Longrightarrow> x < 2 ^ 64 \<Longrightarrow> uint_of_int x = nat x"
  by (simp add: uint_of_int_def)

lemma uint_of_int_neg: "x < 0 \<Longrightarrow> - (2 ^ 63) \<le> x \<Longrightarrow> 2 ^ 63 \<le> uint_of_int x"
proof -
  assume "x < 0" and "- (2 ^ 63) \<le> x"
  then have "(x + 2 ^ 64) mod 2 ^ 64 = x + 2 ^ 64"
    by (intro mod_pos_pos_trivial) simp_all
  then have "x mod 2 ^ 64 = x + 2 ^ 64"
    by simp
  with \<open>- (2 ^ 63) \<le> x\<close> show ?thesis by (simp add: uint_of_int_def)
qed

definition shl1 :: "nat \<Rightarrow> 'a::len word" where
  "shl1 n = (if n < LENGTH('a) then push_bit n 1 else 0)"

lemma bit_shl1 [simp]: "bit (shl1 n :: 'a::len word) k \<longleftrightarrow> k = n \<and> n < LENGTH('a)"
  by (auto simp: shl1_def bit_simps)

lemma shl1_test: "(shl1 n AND w \<noteq> 0) = bit (w :: 'a::len word) n"
proof -
  have "shl1 n AND w = (if bit w n then shl1 n else 0)"
    by (rule bit_word_eqI) (auto simp: bit_simps)
  moreover have "bit w n \<Longrightarrow> (shl1 n :: 'a word) \<noteq> 0"
    by (metis bit_0_eq bit_imp_le_length bit_shl1 bot_apply bot_bool_def)
  ultimately show ?thesis by simp
qed

lemma bit_or_shl1: "bit (w OR shl1 n) k \<longleftrightarrow> bit w k \<or> (k = n \<and> n < LENGTH('a))"
  for w :: "'a::len word"
  by (auto simp: bit_simps)

lemma bit_andnot_shl1: "bit (w AND NOT (shl1 n)) k \<longleftrightarrow> bit w k \<and> k \<noteq> n"
  for w :: "'a::len word"
  by (auto simp: bit_simps dest: bit_imp_le_length)

lemma word_zero_iff_no_bit: "(w = 0) \<longleftrightarrow> (\<forall>k < LENGTH('a). \<not> bit w k)" for w :: "'a::len word"
  by (auto simp: bit_eq_iff)

lemma word_and_eq_right_iff:
  "(w AND m = m) \<longleftrightarrow> (\<forall>k < LENGTH('a). bit m k \<longrightarrow> bit w k)" for w m :: "'a::len word"
  by (auto simp: bit_eq_iff bit_simps)

end
