(* ===== verification/GoStrings.thy ===== *)
theory GoStrings
  imports Prelude
begin

text \<open>
  The functions of Go's \<open>strings\<close> and \<open>strconv\<close> packages that the repository
  calls, on strings as lists of bytes, with their round trips. White space and digits are the
  ASCII ones; separators are single bytes, as in every call of the repository.
\<close>

section \<open>Prefixes, suffixes and substrings\<close>

definition HasPrefix :: "string \<Rightarrow> string \<Rightarrow> bool" where
  "HasPrefix s p \<longleftrightarrow> take (length p) s = p"

definition TrimPrefix :: "string \<Rightarrow> string \<Rightarrow> string" where
  "TrimPrefix s p = (if HasPrefix s p then drop (length p) s else s)"

definition HasSuffix :: "string \<Rightarrow> string \<Rightarrow> bool" where
  "HasSuffix s p \<longleftrightarrow> length p \<le> length s \<and> drop (length s - length p) s = p"

definition TrimSuffix :: "string \<Rightarrow> string \<Rightarrow> string" where
  "TrimSuffix s p = (if HasSuffix s p then take (length s - length p) s else s)"

text \<open>\<open>strings.Index\<close>: the first position of the substring, \<open>None\<close> for -1.\<close>

fun str_index :: "string \<Rightarrow> string \<Rightarrow> nat option" where
  "str_index [] sub = (if sub = [] then Some 0 else None)"
| "str_index (c # s) sub =
     (if HasPrefix (c # s) sub then Some 0 else map_option Suc (str_index s sub))"

definition str_contains :: "string \<Rightarrow> string \<Rightarrow> bool" where
  "str_contains s sub \<longleftrightarrow> str_index s sub \<noteq> None"

definition ContainsAny :: "string \<Rightarrow> string \<Rightarrow> bool" where
  "ContainsAny s chars \<longleftrightarrow> list_ex (\<lambda>c. c \<in> set chars) s"

text \<open>\<open>strings.Trim\<close> with a cutset, and \<open>strings.TrimSpace\<close>.\<close>

definition str_trim :: "(char \<Rightarrow> bool) \<Rightarrow> string \<Rightarrow> string" where
  "str_trim P s = rev (dropWhile P (rev (dropWhile P s)))"

definition is_space :: "char \<Rightarrow> bool" where
  "is_space c \<longleftrightarrow> c \<in> {CHR '' '', CHR 0x09, CHR 0x0A, CHR 0x0B, CHR 0x0C, CHR 0x0D}"

definition TrimSpace :: "string \<Rightarrow> string" where
  "TrimSpace s = str_trim is_space s"

text \<open>\<open>strings.Replace(s, old, new, -1)\<close> for a nonempty \<open>old\<close>: leftmost matches, not overlapping.\<close>

function ReplaceAll :: "string \<Rightarrow> string \<Rightarrow> string \<Rightarrow> string" where
  "ReplaceAll [] old new = []"
| "ReplaceAll (c # s) old new =
     (if old \<noteq> [] \<and> HasPrefix (c # s) old
      then new @ ReplaceAll (drop (length old) (c # s)) old new
      else c # ReplaceAll s old new)"
  by pat_completeness auto
termination
  by (relation "measure (\<lambda>(s, old, new). length s)") (auto simp: neq_Nil_conv)

lemma HasPrefix_append [simp]: "HasPrefix (p @ s) p"
  by (simp add: HasPrefix_def)

lemma HasPrefix_iff: "HasPrefix s p \<longleftrightarrow> (\<exists>r. s = p @ r)"
  by (metis HasPrefix_append HasPrefix_def append_take_drop_id)

lemma TrimPrefix_append [simp]: "TrimPrefix (p @ s) p = s"
  by (simp add: TrimPrefix_def)

lemma str_index_Some: "str_index s sub = Some n \<Longrightarrow> HasPrefix (drop n s) sub \<and> n \<le> length s"
proof (induction s arbitrary: n)
  case (Cons c s)
  then show ?case by (auto split: if_splits)
qed (auto split: if_splits simp: HasPrefix_def)

lemma str_index_None: "str_index s sub = None \<Longrightarrow> \<not> HasPrefix (drop n s) sub"
proof (induction s arbitrary: n)
  case (Cons c s)
  then show ?case by (cases n) (auto split: if_splits)
qed (auto split: if_splits simp: HasPrefix_def)

lemma str_contains_iff: "str_contains s sub \<longleftrightarrow> (\<exists>a b. s = a @ sub @ b)"
proof
  assume "str_contains s sub"
  then obtain n where "str_index s sub = Some n" by (auto simp: str_contains_def)
  then obtain r where "drop n s = sub @ r"
    using str_index_Some HasPrefix_iff by blast
  then show "\<exists>a b. s = a @ sub @ b" by (metis append_take_drop_id)
next
  assume "\<exists>a b. s = a @ sub @ b"
  then obtain a b where "s = a @ sub @ b" by blast
  then have "HasPrefix (drop (length a) s) sub" by simp
  then show "str_contains s sub" using str_index_None str_contains_def by blast
qed

text \<open>
  A separator that begins with a space is found right after a text in which its second
  character never follows a space.
\<close>

lemma str_index_append_first:
  assumes "\<And>k. k < length a \<Longrightarrow> \<not> HasPrefix (drop k (a @ sub @ b)) sub"
  shows "str_index (a @ sub @ b) sub = Some (length a)"
  using assms
proof (induction a)
  case Nil
  have "HasPrefix (sub @ b) sub" by simp
  then show ?case by (cases "sub @ b") (auto simp: HasPrefix_def)
next
  case (Cons c a)
  have "\<not> HasPrefix (c # a @ sub @ b) sub" using Cons.prems [of 0] by simp
  moreover have "str_index (a @ sub @ b) sub = Some (length a)"
    using Cons.prems by (intro Cons.IH) (metis Suc_less_eq append_Cons drop_Suc_Cons length_Cons)
  ultimately show ?case by simp
qed

section \<open>Splitting and joining\<close>

text \<open>\<open>strings.Split\<close> with a one-byte separator, \<open>strings.Join\<close>.\<close>

fun split_on :: "char \<Rightarrow> string \<Rightarrow> string list" where
  "split_on c [] = [[]]"
| "split_on c (x # s) =
     (if x = c then [] # split_on c s
      else (case split_on c s of [] \<Rightarrow> [[x]] | y # ys \<Rightarrow> (x # y) # ys))"

fun str_join :: "string \<Rightarrow> string list \<Rightarrow> string" where
  "str_join sep [] = []"
| "str_join sep [x] = x"
| "str_join sep (x # y # ys) = x @ sep @ str_join sep (y # ys)"

text \<open>\<open>strings.SplitN(s, sep, 2)\<close>: at most one split.\<close>

fun split_first :: "char \<Rightarrow> string \<Rightarrow> string list" where
  "split_first c [] = [[]]"
| "split_first c (x # s) =
     (if x = c then [[], s]
      else (case split_first c s of [] \<Rightarrow> [[x]] | y # ys \<Rightarrow> (x # y) # ys))"

text \<open>\<open>strings.Fields\<close>: the maximal runs of characters that are not white space.\<close>

fun str_fields :: "string \<Rightarrow> string list" where
  "str_fields [] = []"
| "str_fields (c # s) =
     (if is_space c then str_fields s
      else (case s of
              [] \<Rightarrow> [[c]]
            | d # _ \<Rightarrow>
                if is_space d then [c] # str_fields s
                else (case str_fields s of [] \<Rightarrow> [[c]] | y # ys \<Rightarrow> (c # y) # ys)))"

lemma split_on_not_Nil [simp]: "split_on c s \<noteq> []"
  by (induction s) (auto split: list.splits)

lemma str_join_Cons: "ys \<noteq> [] \<Longrightarrow> str_join sep (x # ys) = x @ sep @ str_join sep ys"
  by (cases ys) simp_all

lemma str_join_split_on: "str_join [c] (split_on c s) = s"
proof (induction s)
  case (Cons x s)
  show ?case
  proof (cases "x = c")
    case True
    then show ?thesis using Cons by (simp add: str_join_Cons)
  next
    case False
    obtain y ys where ys: "split_on c s = y # ys" by (cases "split_on c s") auto
    then have "str_join [c] ((x # y) # ys) = x # str_join [c] (y # ys)" by (cases ys) simp_all
    then show ?thesis using False ys Cons by simp
  qed
qed simp

lemma split_on_no_sep: "t \<in> set (split_on c s) \<Longrightarrow> c \<notin> set t"
proof (induction s arbitrary: t)
  case (Cons x s)
  then show ?case by (cases "split_on c s") (auto split: if_splits)
qed simp

lemma split_on_append_sep: "c \<notin> set a \<Longrightarrow> split_on c (a @ c # s) = a # split_on c s"
  by (induction a) auto

lemma split_on_id: "c \<notin> set a \<Longrightarrow> split_on c a = [a]"
  by (induction a) auto

lemma split_on_str_join:
  "xs \<noteq> [] \<Longrightarrow> (\<And>x. x \<in> set xs \<Longrightarrow> c \<notin> set x) \<Longrightarrow> split_on c (str_join [c] xs) = xs"
proof (induction "[c]" xs rule: str_join.induct)
  case (3 x y ys)
  then show ?case by (simp add: split_on_append_sep)
qed (simp_all add: split_on_id)

lemma length_split_on: "length (split_on c s) = Suc (count_list s c)"
proof (induction s)
  case (Cons x s)
  then show ?case by (cases "split_on c s") auto
qed simp

lemma split_first_eq:
  "split_first c s =
    (if c \<in> set s then [takeWhile (\<lambda>x. x \<noteq> c) s, tl (dropWhile (\<lambda>x. x \<noteq> c) s)] else [s])"
  by (induction s) auto

lemma split_first_append: "c \<notin> set a \<Longrightarrow> split_first c (a @ c # s) = [a, s]"
  by (induction a) auto

lemma str_fields_append_space:
  assumes "a \<noteq> []" and "\<And>x. x \<in> set a \<Longrightarrow> \<not> is_space x" and "is_space c"
  shows "str_fields (a @ c # s) = a # str_fields s"
  using assms
proof (induction a)
  case (Cons x a)
  then show ?case by (cases a) auto
qed simp

lemma str_fields_word:
  "a \<noteq> [] \<Longrightarrow> (\<And>x. x \<in> set a \<Longrightarrow> \<not> is_space x) \<Longrightarrow> str_fields a = [a]"
proof (induction a)
  case (Cons x a)
  then show ?case by (cases a) auto
qed simp

lemma str_fields_join:
  assumes "\<And>x. x \<in> set xs \<Longrightarrow> x \<noteq> [] \<and> (\<forall>c \<in> set x. \<not> is_space c)"
  shows "str_fields (str_join '' '' xs) = xs"
  using assms
proof (induction "'' ''" xs rule: str_join.induct)
  case (3 x y ys)
  have "str_fields (x @ CHR '' '' # str_join '' '' (y # ys)) = x # str_fields (str_join '' '' (y # ys))"
    using 3(2) [of x] by (intro str_fields_append_space) (auto simp: is_space_def)
  moreover have "str_fields (str_join '' '' (y # ys)) = y # ys"
    using 3(2) by (intro 3(1)) auto
  ultimately show ?case by simp
qed (simp_all add: str_fields_word)

lemma dropWhile_id: "(xs \<noteq> [] \<Longrightarrow> \<not> P (hd xs)) \<Longrightarrow> dropWhile P xs = xs"
  by (cases xs) auto

lemma str_trim_id:
  "(s \<noteq> [] \<Longrightarrow> \<not> P (hd s)) \<Longrightarrow> (s \<noteq> [] \<Longrightarrow> \<not> P (last s)) \<Longrightarrow> str_trim P s = s"
  by (cases "s = []") (simp_all add: str_trim_def dropWhile_id hd_rev)

section \<open>Decimal numbers\<close>

definition is_digit :: "char \<Rightarrow> bool" where
  "is_digit c \<longleftrightarrow> 48 \<le> (of_char c :: nat) \<and> (of_char c :: nat) \<le> 57"

definition digit_char :: "nat \<Rightarrow> char" where
  "digit_char d = char_of (48 + d)"

definition digit_val :: "char \<Rightarrow> nat" where
  "digit_val c = of_char c - 48"

definition dec_value :: "string \<Rightarrow> nat" where
  "dec_value s = foldl (\<lambda>a c. 10 * a + digit_val c) 0 s"

text \<open>\<open>%d\<close> of a non-negative number and \<open>strconv.FormatUint(n, 10)\<close>; \<open>%d\<close> of an int.\<close>

fun show_nat :: "nat \<Rightarrow> string" where
  "show_nat n = (if n < 10 then [digit_char n] else show_nat (n div 10) @ [digit_char (n mod 10)])"

declare show_nat.simps [simp del]

definition show_int :: "int \<Rightarrow> string" where
  "show_int x = (if x < 0 then CHR ''-'' # show_nat (nat (- x)) else show_nat (nat x))"

text \<open>
  \<open>strconv.ParseUint(s, 10, b)\<close> and \<open>strconv.Atoi\<close>; \<open>None\<close> is a syntax or
  range error.
\<close>

definition ParseUint :: "nat \<Rightarrow> string \<Rightarrow> nat option" where
  "ParseUint b s =
    (if s = [] \<or> \<not> list_all is_digit s then None
     else if dec_value s < 2 ^ b then Some (dec_value s) else None)"

definition Atoi :: "string \<Rightarrow> int option" where
  "Atoi s =
    (let neg = (s \<noteq> [] \<and> hd s = CHR ''-'');
         ds = (if s \<noteq> [] \<and> (hd s = CHR ''-'' \<or> hd s = CHR ''+'') then tl s else s)
     in if ds = [] \<or> \<not> list_all is_digit ds then None
        else let v = (if neg then - int (dec_value ds) else int (dec_value ds))
             in if - (2 ^ 63) \<le> v \<and> v < 2 ^ 63 then Some v else None)"

lemma of_char_digit_char: "d < 10 \<Longrightarrow> (of_char (digit_char d) :: nat) = 48 + d"
  by (simp add: digit_char_def)

lemma is_digit_digit_char [simp]: "d < 10 \<Longrightarrow> is_digit (digit_char d)"
  by (simp add: is_digit_def of_char_digit_char)

lemma digit_val_digit_char [simp]: "d < 10 \<Longrightarrow> digit_val (digit_char d) = d"
  by (simp add: digit_val_def of_char_digit_char)

lemma show_nat_induct [case_names small large]:
  fixes n :: nat
  assumes "\<And>n::nat. n < 10 \<Longrightarrow> P n" and "\<And>n::nat. 10 \<le> n \<Longrightarrow> P (n div 10) \<Longrightarrow> P n"
  shows "P n"
proof (induction n rule: show_nat.induct)
  case (1 n)
  then show ?case using assms by (cases "n < 10") auto
qed

lemma show_nat_not_Nil [simp]: "show_nat n \<noteq> []"
  by (subst show_nat.simps) simp

lemma show_nat_digits: "c \<in> set (show_nat n) \<Longrightarrow> is_digit c"
proof (induction n rule: show_nat_induct)
  case (small n)
  then show ?case by (subst (asm) show_nat.simps) simp
next
  case (large n)
  then show ?case by (subst (asm) show_nat.simps) auto
qed

lemma dec_value_snoc: "dec_value (s @ [c]) = 10 * dec_value s + digit_val c"
  by (simp add: dec_value_def)

lemma dec_value_show_nat [simp]: "dec_value (show_nat n) = n"
proof (induction n rule: show_nat_induct)
  case (small n)
  then show ?case by (subst show_nat.simps) (simp add: dec_value_def)
next
  case (large n)
  then show ?case by (subst show_nat.simps) (simp add: dec_value_snoc)
qed

lemma show_nat_inject [simp]: "show_nat m = show_nat n \<longleftrightarrow> m = n"
  by (metis dec_value_show_nat)

lemma show_nat_is_digits: "list_all is_digit (show_nat n)"
  using show_nat_digits by (auto simp: list_all_iff)

lemma digit_not_special:
  "is_digit c \<Longrightarrow> c \<noteq> CHR ''-'' \<and> c \<noteq> CHR ''+'' \<and> c \<noteq> CHR ''.'' \<and> c \<noteq> CHR '':'' \<and> \<not> is_space c"
  by (auto simp: is_digit_def is_space_def)

lemma show_nat_hd: "is_digit (hd (show_nat n))"
  by (rule show_nat_digits [of _ n]) simp

lemma ParseUint_show_nat: "n < 2 ^ b \<Longrightarrow> ParseUint b (show_nat n) = Some n"
  by (simp add: ParseUint_def show_nat_is_digits)

lemma ParseUint_bound: "ParseUint b s = Some n \<Longrightarrow> n < 2 ^ b"
  by (auto simp: ParseUint_def split: if_splits)

lemma Atoi_show_nat: "n < 2 ^ 63 \<Longrightarrow> Atoi (show_nat n) = Some (int n)"
  using show_nat_hd [of n] digit_not_special [of "hd (show_nat n)"]
  by (auto simp: Atoi_def show_nat_is_digits Let_def)

lemma Atoi_show_int: "- (2 ^ 63) \<le> x \<Longrightarrow> x < 2 ^ 63 \<Longrightarrow> Atoi (show_int x) = Some x"
proof (cases "x < 0")
  case True
  assume "- (2 ^ 63) \<le> x"
  with True show ?thesis by (simp add: show_int_def Atoi_def show_nat_is_digits)
next
  case False
  assume "x < 2 ^ 63"
  with False have "nat x < 2 ^ 63" by (simp add: nat_less_iff)
  with False show ?thesis using Atoi_show_nat [of "nat x"] by (simp add: show_int_def)
qed

lemma Atoi_bounds: "Atoi s = Some x \<Longrightarrow> - (2 ^ 63) \<le> x \<and> x < 2 ^ 63"
  by (auto simp: Atoi_def Let_def split: if_splits)

end
