(* ===== verification/CapTypes.thy ===== *)
theory CapTypes
  imports GoStrings
begin

text \<open>
  The data of \<open>capability/capability.go\<close>: the set selectors \<open>CapType\<close>, the
  capabilities \<open>Cap\<close> with their names in both formats, and \<open>List\<close>. The lemmas
  are about the selectors as bit masks and about the names: distinct, known for every listed
  capability, and the same in the two formats up to case and the prefix.
\<close>

section \<open>Set selectors\<close>

text \<open>\<open>CapType\<close> is a Go \<open>uint\<close> used as a bit mask; \<open>1 << iota\<close> written out.\<close>

type_synonym CapType = "64 word"

definition EFFECTIVE :: CapType where "EFFECTIVE = 1"
definition PERMITTED :: CapType where "PERMITTED = 2"
definition INHERITABLE :: CapType where "INHERITABLE = 4"
definition BOUNDING :: CapType where "BOUNDING = 8"
definition AMBIENT :: CapType where "AMBIENT = 16"
definition CAPS :: CapType where "CAPS = EFFECTIVE OR PERMITTED OR INHERITABLE"
definition BOUNDS :: CapType where "BOUNDS = BOUNDING"
definition AMBS :: CapType where "AMBS = AMBIENT"

lemmas capType_defs [go_defs] =
  EFFECTIVE_def PERMITTED_def INHERITABLE_def BOUNDING_def AMBIENT_def CAPS_def BOUNDS_def AMBS_def

definition CapType_String :: "CapType \<Rightarrow> string" where
  "CapType_String c =
    (if c = EFFECTIVE then ''effective''
     else if c = PERMITTED then ''permitted''
     else if c = INHERITABLE then ''inheritable''
     else if c = BOUNDING then ''bounding''
     else if c = CAPS then ''caps''
     else if c = AMBIENT then ''ambient''
     else ''unknown'')"

datatype CapFormat = STRING | OCI_STRING

section \<open>Capabilities\<close>

text \<open>\<open>Cap\<close> is a Go \<open>int\<close>.\<close>

type_synonym Cap = int

definition CAP_CHOWN :: Cap where "CAP_CHOWN = 0"
definition CAP_DAC_OVERRIDE :: Cap where "CAP_DAC_OVERRIDE = 1"
definition CAP_DAC_READ_SEARCH :: Cap where "CAP_DAC_READ_SEARCH = 2"
definition CAP_FOWNER :: Cap where "CAP_FOWNER = 3"
definition CAP_FSETID :: Cap where "CAP_FSETID = 4"
definition CAP_KILL :: Cap where "CAP_KILL = 5"
definition CAP_SETGID :: Cap where "CAP_SETGID = 6"
definition CAP_SETUID :: Cap where "CAP_SETUID = 7"
definition CAP_SETPCAP :: Cap where "CAP_SETPCAP = 8"
definition CAP_LINUX_IMMUTABLE :: Cap where "CAP_LINUX_IMMUTABLE = 9"
definition CAP_NET_BIND_SERVICE :: Cap where "CAP_NET_BIND_SERVICE = 10"
definition CAP_NET_BROADCAST :: Cap where "CAP_NET_BROADCAST = 11"
definition CAP_NET_ADMIN :: Cap where "CAP_NET_ADMIN = 12"
definition CAP_NET_RAW :: Cap where "CAP_NET_RAW = 13"
definition CAP_IPC_LOCK :: Cap where "CAP_IPC_LOCK = 14"
definition CAP_IPC_OWNER :: Cap where "CAP_IPC_OWNER = 15"
definition CAP_SYS_MODULE :: Cap where "CAP_SYS_MODULE = 16"
definition CAP_SYS_RAWIO :: Cap where "CAP_SYS_RAWIO = 17"
definition CAP_SYS_CHROOT :: Cap where "CAP_SYS_CHROOT = 18"
definition CAP_SYS_PTRACE :: Cap where "CAP_SYS_PTRACE = 19"
definition CAP_SYS_PACCT :: Cap where "CAP_SYS_PACCT = 20"
definition CAP_SYS_ADMIN :: Cap where "CAP_SYS_ADMIN = 21"
definition CAP_SYS_BOOT :: Cap where "CAP_SYS_BOOT = 22"
definition CAP_SYS_NICE :: Cap where "CAP_SYS_NICE = 23"
definition CAP_SYS_RESOURCE :: Cap where "CAP_SYS_RESOURCE = 24"
definition CAP_SYS_TIME :: Cap where "CAP_SYS_TIME = 25"
definition CAP_SYS_TTY_CONFIG :: Cap where "CAP_SYS_TTY_CONFIG = 26"
definition CAP_MKNOD :: Cap where "CAP_MKNOD = 27"
definition CAP_LEASE :: Cap where "CAP_LEASE = 28"
definition CAP_AUDIT_WRITE :: Cap where "CAP_AUDIT_WRITE = 29"
definition CAP_AUDIT_CONTROL :: Cap where "CAP_AUDIT_CONTROL = 30"
definition CAP_SETFCAP :: Cap where "CAP_SETFCAP = 31"
definition CAP_MAC_OVERRIDE :: Cap where "CAP_MAC_OVERRIDE = 32"
definition CAP_MAC_ADMIN :: Cap where "CAP_MAC_ADMIN = 33"
definition CAP_SYSLOG :: Cap where "CAP_SYSLOG = 34"
definition CAP_WAKE_ALARM :: Cap where "CAP_WAKE_ALARM = 35"
definition CAP_BLOCK_SUSPEND :: Cap where "CAP_BLOCK_SUSPEND = 36"
definition CAP_AUDIT_READ :: Cap where "CAP_AUDIT_READ = 37"
definition CAP_PERFMON :: Cap where "CAP_PERFMON = 38"
definition CAP_BPF :: Cap where "CAP_BPF = 39"
definition CAP_CHECKPOINT_RESTORE :: Cap where "CAP_CHECKPOINT_RESTORE = 40"

lemmas cap_defs [go_defs] =
  CAP_CHOWN_def CAP_DAC_OVERRIDE_def CAP_DAC_READ_SEARCH_def CAP_FOWNER_def
  CAP_FSETID_def CAP_KILL_def CAP_SETGID_def CAP_SETUID_def
  CAP_SETPCAP_def CAP_LINUX_IMMUTABLE_def CAP_NET_BIND_SERVICE_def CAP_NET_BROADCAST_def
  CAP_NET_ADMIN_def CAP_NET_RAW_def CAP_IPC_LOCK_def CAP_IPC_OWNER_def
  CAP_SYS_MODULE_def CAP_SYS_RAWIO_def CAP_SYS_CHROOT_def CAP_SYS_PTRACE_def
  CAP_SYS_PACCT_def CAP_SYS_ADMIN_def CAP_SYS_BOOT_def CAP_SYS_NICE_def
  CAP_SYS_RESOURCE_def CAP_SYS_TIME_def CAP_SYS_TTY_CONFIG_def CAP_MKNOD_def
  CAP_LEASE_def CAP_AUDIT_WRITE_def CAP_AUDIT_CONTROL_def CAP_SETFCAP_def
  CAP_MAC_OVERRIDE_def CAP_MAC_ADMIN_def CAP_SYSLOG_def CAP_WAKE_ALARM_def
  CAP_BLOCK_SUSPEND_def CAP_AUDIT_READ_def CAP_PERFMON_def CAP_BPF_def
  CAP_CHECKPOINT_RESTORE_def

text \<open>The switches of \<open>Cap.String\<close> and \<open>Cap.OCIString\<close>, one entry per case.\<close>

definition cap_strings :: "(Cap \<times> string) list" where
  "cap_strings =
    [(CAP_CHOWN, ''chown''),
     (CAP_DAC_OVERRIDE, ''dac_override''),
     (CAP_DAC_READ_SEARCH, ''dac_read_search''),
     (CAP_FOWNER, ''fowner''),
     (CAP_FSETID, ''fsetid''),
     (CAP_KILL, ''kill''),
     (CAP_SETGID, ''setgid''),
     (CAP_SETUID, ''setuid''),
     (CAP_SETPCAP, ''setpcap''),
     (CAP_LINUX_IMMUTABLE, ''linux_immutable''),
     (CAP_NET_BIND_SERVICE, ''net_bind_service''),
     (CAP_NET_BROADCAST, ''net_broadcast''),
     (CAP_NET_ADMIN, ''net_admin''),
     (CAP_NET_RAW, ''net_raw''),
     (CAP_IPC_LOCK, ''ipc_lock''),
     (CAP_IPC_OWNER, ''ipc_owner''),
     (CAP_SYS_MODULE, ''sys_module''),
     (CAP_SYS_RAWIO, ''sys_rawio''),
     (CAP_SYS_CHROOT, ''sys_chroot''),
     (CAP_SYS_PTRACE, ''sys_ptrace''),
     (CAP_SYS_PACCT, ''sys_pacct''),
     (CAP_SYS_ADMIN, ''sys_admin''),
     (CAP_SYS_BOOT, ''sys_boot''),
     (CAP_SYS_NICE, ''sys_nice''),
     (CAP_SYS_RESOURCE, ''sys_resource''),
     (CAP_SYS_TIME, ''sys_time''),
     (CAP_SYS_TTY_CONFIG, ''sys_tty_config''),
     (CAP_MKNOD, ''mknod''),
     (CAP_LEASE, ''lease''),
     (CAP_AUDIT_WRITE, ''audit_write''),
     (CAP_AUDIT_CONTROL, ''audit_control''),
     (CAP_SETFCAP, ''setfcap''),
     (CAP_MAC_OVERRIDE, ''mac_override''),
     (CAP_MAC_ADMIN, ''mac_admin''),
     (CAP_SYSLOG, ''syslog''),
     (CAP_WAKE_ALARM, ''wake_alarm''),
     (CAP_BLOCK_SUSPEND, ''block_suspend''),
     (CAP_AUDIT_READ, ''audit_read''),
     (CAP_PERFMON, ''perfmon''),
     (CAP_BPF, ''bpf''),
     (CAP_CHECKPOINT_RESTORE, ''checkpoint_restore'')]"

definition cap_oci_strings :: "(Cap \<times> string) list" where
  "cap_oci_strings =
    [(CAP_CHOWN, ''CAP_CHOWN''),
     (CAP_DAC_OVERRIDE, ''CAP_DAC_OVERRIDE''),
     (CAP_DAC_READ_SEARCH, ''CAP_DAC_READ_SEARCH''),
     (CAP_FOWNER, ''CAP_FOWNER''),
     (CAP_FSETID, ''CAP_FSETID''),
     (CAP_KILL, ''CAP_KILL''),
     (CAP_SETGID, ''CAP_SETGID''),
     (CAP_SETUID, ''CAP_SETUID''),
     (CAP_SETPCAP, ''CAP_SETPCAP''),
     (CAP_LINUX_IMMUTABLE, ''CAP_LINUX_IMMUTABLE''),
     (CAP_NET_BIND_SERVICE, ''CAP_NET_BIND_SERVICE''),
     (CAP_NET_BROADCAST, ''CAP_NET_BROADCAST''),
     (CAP_NET_ADMIN, ''CAP_NET_ADMIN''),
     (CAP_NET_RAW, ''CAP_NET_RAW''),
     (CAP_IPC_LOCK, ''CAP_IPC_LOCK''),
     (CAP_IPC_OWNER, ''CAP_IPC_OWNER''),
     (CAP_SYS_MODULE, ''CAP_SYS_MODULE''),
     (CAP_SYS_RAWIO, ''CAP_SYS_RAWIO''),
     (CAP_SYS_CHROOT, ''CAP_SYS_CHROOT''),
     (CAP_SYS_PTRACE, ''CAP_SYS_PTRACE''),
     (CAP_SYS_PACCT, ''CAP_SYS_PACCT''),
     (CAP_SYS_ADMIN, ''CAP_SYS_ADMIN''),
     (CAP_SYS_BOOT, ''CAP_SYS_BOOT''),
     (CAP_SYS_NICE, ''CAP_SYS_NICE''),
     (CAP_SYS_RESOURCE, ''CAP_SYS_RESOURCE''),
     (CAP_SYS_TIME, ''CAP_SYS_TIME''),
     (CAP_SYS_TTY_CONFIG, ''CAP_SYS_TTY_CONFIG''),
     (CAP_MKNOD, ''CAP_MKNOD''),
     (CAP_LEASE, ''CAP_LEASE''),
     (CAP_AUDIT_WRITE, ''CAP_AUDIT_WRITE''),
     (CAP_AUDIT_CONTROL, ''CAP_AUDIT_CONTROL''),
     (CAP_SETFCAP, ''CAP_SETFCAP''),
     (CAP_MAC_OVERRIDE, ''CAP_MAC_OVERRIDE''),
     (CAP_MAC_ADMIN, ''CAP_MAC_ADMIN''),
     (CAP_SYSLOG, ''CAP_SYSLOG''),
     (CAP_WAKE_ALARM, ''CAP_WAKE_ALARM''),
     (CAP_BLOCK_SUSPEND, ''CAP_BLOCK_SUSPEND''),
     (CAP_AUDIT_READ, ''CAP_AUDIT_READ''),
     (CAP_PERFMON, ''CAP_PERFMON''),
     (CAP_BPF, ''CAP_BPF''),
     (CAP_CHECKPOINT_RESTORE, ''CAP_CHECKPOINT_RESTORE'')]"

definition Cap_String :: "Cap \<Rightarrow> string" where
  "Cap_String c = (case map_of cap_strings c of Some s \<Rightarrow> s | None \<Rightarrow> ''unknown'')"

definition Cap_OCIString :: "Cap \<Rightarrow> string" where
  "Cap_OCIString c = (case map_of cap_oci_strings c of Some s \<Rightarrow> s | None \<Rightarrow> ''unknown'')"

definition List_caps :: "Cap list" where
  "List_caps =
    [CAP_CHOWN, CAP_DAC_OVERRIDE, CAP_DAC_READ_SEARCH, CAP_FOWNER,
     CAP_FSETID, CAP_KILL, CAP_SETGID, CAP_SETUID,
     CAP_SETPCAP, CAP_LINUX_IMMUTABLE, CAP_NET_BIND_SERVICE, CAP_NET_BROADCAST,
     CAP_NET_ADMIN, CAP_NET_RAW, CAP_IPC_LOCK, CAP_IPC_OWNER,
     CAP_SYS_MODULE, CAP_SYS_RAWIO, CAP_SYS_CHROOT, CAP_SYS_PTRACE,
     CAP_SYS_PACCT, CAP_SYS_ADMIN, CAP_SYS_BOOT, CAP_SYS_NICE,
     CAP_SYS_RESOURCE, CAP_SYS_TIME, CAP_SYS_TTY_CONFIG, CAP_MKNOD,
     CAP_LEASE, CAP_AUDIT_WRITE, CAP_AUDIT_CONTROL, CAP_SETFCAP,
     CAP_MAC_OVERRIDE, CAP_MAC_ADMIN, CAP_SYSLOG, CAP_WAKE_ALARM,
     CAP_BLOCK_SUSPEND, CAP_AUDIT_READ, CAP_PERFMON, CAP_BPF,
     CAP_CHECKPOINT_RESTORE]"

section \<open>Selectors as bit masks\<close>

text \<open>The five sets a selector can name.\<close>

definition single_kinds :: "CapType set" where
  "single_kinds = {EFFECTIVE, PERMITTED, INHERITABLE, BOUNDING, AMBIENT}"

lemma kinds_distinct [simp]:
  "EFFECTIVE \<noteq> PERMITTED" "EFFECTIVE \<noteq> INHERITABLE" "EFFECTIVE \<noteq> BOUNDING" "EFFECTIVE \<noteq> AMBIENT"
  "PERMITTED \<noteq> EFFECTIVE" "PERMITTED \<noteq> INHERITABLE" "PERMITTED \<noteq> BOUNDING" "PERMITTED \<noteq> AMBIENT"
  "INHERITABLE \<noteq> EFFECTIVE" "INHERITABLE \<noteq> PERMITTED" "INHERITABLE \<noteq> BOUNDING" "INHERITABLE \<noteq> AMBIENT"
  "BOUNDING \<noteq> EFFECTIVE" "BOUNDING \<noteq> PERMITTED" "BOUNDING \<noteq> INHERITABLE" "BOUNDING \<noteq> AMBIENT"
  "AMBIENT \<noteq> EFFECTIVE" "AMBIENT \<noteq> PERMITTED" "AMBIENT \<noteq> INHERITABLE" "AMBIENT \<noteq> BOUNDING"
  by (simp_all add: capType_defs)

lemma kinds_and [simp]:
  "k \<in> single_kinds \<Longrightarrow> k AND k = k"
  "k \<in> single_kinds \<Longrightarrow> k \<noteq> 0"
  by (auto simp: single_kinds_def capType_defs)

text \<open>The aggregate selectors contain exactly the sets they are named after.\<close>

lemma CAPS_and [simp]:
  "CAPS AND EFFECTIVE = EFFECTIVE" "CAPS AND PERMITTED = PERMITTED"
  "CAPS AND INHERITABLE = INHERITABLE" "CAPS AND BOUNDING = 0" "CAPS AND AMBIENT = 0"
  "CAPS AND CAPS = CAPS" "CAPS \<noteq> 0"
  by (simp_all add: capType_defs)

lemma single_and_CAPS: "k \<in> single_kinds \<Longrightarrow> k AND CAPS \<noteq> CAPS"
  by (auto simp: single_kinds_def capType_defs)

section \<open>Names\<close>

lemma List_caps_upto: "List_caps = [0..40]"
  by (simp add: List_caps_def cap_defs upto.simps)

lemma map_fst_cap_strings: "map fst cap_strings = List_caps" "map fst cap_oci_strings = List_caps"
  by (simp_all add: cap_strings_def cap_oci_strings_def List_caps_def)

text \<open>
  ASCII upper case, which relates the two name formats: bit 5 is cleared in the codes 97 to 122,
  that is, with bits 6 and 5 set, bit 7 clear and the low five bits between 1 and 26.
\<close>

fun to_upper :: "char \<Rightarrow> char" where
  "to_upper (Char b0 b1 b2 b3 b4 b5 b6 b7) =
    (if b5 \<and> b6 \<and> \<not> b7 \<and> (b0 \<or> b1 \<or> b2 \<or> b3 \<or> b4) \<and> \<not> (b4 \<and> b3 \<and> (b2 \<or> b1 \<and> b0))
     then Char b0 b1 b2 b3 b4 False b6 b7 else Char b0 b1 b2 b3 b4 b5 b6 b7)"

lemma to_upper_chars:
  "to_upper (CHR ''a'') = CHR ''A''" "to_upper (CHR ''b'') = CHR ''B''" "to_upper (CHR ''c'') = CHR ''C''"
  "to_upper (CHR ''d'') = CHR ''D''" "to_upper (CHR ''e'') = CHR ''E''" "to_upper (CHR ''f'') = CHR ''F''"
  "to_upper (CHR ''g'') = CHR ''G''" "to_upper (CHR ''h'') = CHR ''H''" "to_upper (CHR ''i'') = CHR ''I''"
  "to_upper (CHR ''j'') = CHR ''J''" "to_upper (CHR ''k'') = CHR ''K''" "to_upper (CHR ''l'') = CHR ''L''"
  "to_upper (CHR ''m'') = CHR ''M''" "to_upper (CHR ''n'') = CHR ''N''" "to_upper (CHR ''o'') = CHR ''O''"
  "to_upper (CHR ''p'') = CHR ''P''" "to_upper (CHR ''q'') = CHR ''Q''" "to_upper (CHR ''r'') = CHR ''R''"
  "to_upper (CHR ''s'') = CHR ''S''" "to_upper (CHR ''t'') = CHR ''T''" "to_upper (CHR ''u'') = CHR ''U''"
  "to_upper (CHR ''v'') = CHR ''V''" "to_upper (CHR ''w'') = CHR ''W''" "to_upper (CHR ''x'') = CHR ''X''"
  "to_upper (CHR ''y'') = CHR ''Y''" "to_upper (CHR ''z'') = CHR ''Z''" "to_upper (CHR ''_'') = CHR ''_''"
  by simp_all

lemma cap_oci_strings_upper:
  "cap_oci_strings = map (\<lambda>(c, s). (c, ''CAP_'' @ map to_upper s)) cap_strings"
  unfolding cap_strings_def cap_oci_strings_def
  by (simp only: list.map prod.case to_upper_chars append_Cons append_Nil)

lemma distinct_cap_strings: "distinct (map snd cap_strings)"
  by (simp add: cap_strings_def)

lemma unknown_not_cap_string: "''unknown'' \<notin> set (map snd cap_strings)"
  by (simp add: cap_strings_def)

lemma in_List_caps: "c \<in> set List_caps \<longleftrightarrow> 0 \<le> c \<and> c \<le> 40"
  by (simp add: List_caps_upto)

lemma map_of_cap_strings: "c \<in> set List_caps \<Longrightarrow> \<exists>s. map_of cap_strings c = Some s"
  using map_fst_cap_strings(1) by (metis list.set_map weak_map_of_SomeI map_of_eq_None_iff not_None_eq)

lemma map_of_map_snd: "map_of (map (\<lambda>(c, s). (c, f s)) ps) c = map_option f (map_of ps c)"
  by (induction ps) auto

text \<open>
  Every capability that \<open>List\<close> returns has a name of its own: no two share one and none is
  named "unknown", and its OCI name is the short name in upper case behind "CAP_".
\<close>

theorem cap_names_faithful:
  "distinct (map Cap_String List_caps) \<and> ''unknown'' \<notin> set (map Cap_String List_caps) \<and>
   (\<forall>c \<in> set List_caps. Cap_OCIString c = ''CAP_'' @ map to_upper (Cap_String c))"
proof (intro conjI ballI)
  have "distinct (map fst cap_strings)" by (simp add: map_fst_cap_strings List_caps_upto)
  then have "map Cap_String (map fst cap_strings) = map snd cap_strings"
    by (auto simp: Cap_String_def)
  then have "map Cap_String List_caps = map snd cap_strings"
    by (simp only: map_fst_cap_strings)
  then show "distinct (map Cap_String List_caps)" and "''unknown'' \<notin> set (map Cap_String List_caps)"
    using distinct_cap_strings unknown_not_cap_string by simp_all
  fix c assume "c \<in> set List_caps"
  then show "Cap_OCIString c = ''CAP_'' @ map to_upper (Cap_String c)"
    using map_of_cap_strings [of c]
    by (auto simp: Cap_OCIString_def Cap_String_def cap_oci_strings_upper map_of_map_snd)
qed

theorem cap_names_faithful_witness:
  "List_caps ! 21 = CAP_SYS_ADMIN \<and> Cap_OCIString CAP_SYS_ADMIN = ''CAP_'' @ map to_upper (Cap_String CAP_SYS_ADMIN)"
proof -
  have "CAP_SYS_ADMIN \<in> set List_caps" by (simp add: List_caps_def)
  then show ?thesis using cap_names_faithful by (simp add: List_caps_def)
qed

text \<open>
  Outside the list every name is "unknown", in both formats.
\<close>

lemma cap_names_outside:
  "c \<notin> set List_caps \<Longrightarrow> Cap_String c = ''unknown'' \<and> Cap_OCIString c = ''unknown''"
proof -
  assume "c \<notin> set List_caps"
  then have "map_of cap_strings c = None"
    by (metis map_fst_cap_strings(1) list.set_map map_of_eq_None_iff)
  then show ?thesis
    by (simp add: Cap_String_def Cap_OCIString_def cap_oci_strings_upper map_of_map_snd)
qed

end
