(* ===== verification/CapInterface.thy ===== *)
theory CapInterface
  imports CapTypes
begin

text \<open>
  The \<open>Capabilities\<close> interface of \<open>capability/capability.go\<close> as a locale, and its
  clients \<open>mkStringCap\<close> and \<open>mkString\<close> of \<open>capability/capability_linux.go\<close>,
  which work on any implementation. The laws of the locale say how each operation changes the set
  of capabilities that \<open>Get\<close> reports; the lemmas proved inside it are what a caller of the
  interface may rely on. \<open>CapsV3\<close> and \<open>CapsFile\<close> interpret it.
\<close>

section \<open>What an object reports\<close>

text \<open>The capabilities among 0..63 that \<open>Get\<close> reports for a set selector.\<close>

definition valid_cap :: "Cap \<Rightarrow> bool" where
  "valid_cap n \<longleftrightarrow> 0 \<le> n \<and> n \<le> 63"

definition cap_set :: "(CapType \<Rightarrow> Cap \<Rightarrow> bool go) \<Rightarrow> CapType \<Rightarrow> Cap set" where
  "cap_set get k = {n. valid_cap n \<and> get k n = Inr True}"

text \<open>
  \<open>Get\<close>, \<open>Set\<close> and \<open>Unset\<close> first split a capability into the index of a
  32-bit word and the bit in it.
\<close>

definition cap_index :: "Cap \<Rightarrow> nat" where
  "cap_index what = (if what > 31 then drop_bit 5 (uint_of_int what) else 0)"

definition cap_bit :: "Cap \<Rightarrow> nat" where
  "cap_bit what = uint_of_int (if what > 31 then what mod 32 else what)"

lemma cap_index_eq:
  assumes "what > 31" and "what < 2 ^ 63"
  shows "cap_index what = nat what div 32"
proof -
  have "uint_of_int what = nat what" using assms by (simp add: uint_of_int_id)
  with assms(1) have "cap_index what = drop_bit 5 (nat what)" by (simp only: cap_index_def if_True)
  also have "\<dots> = nat what div 32" by (simp add: drop_bit_eq_div)
  finally show ?thesis .
qed

lemma div_32_eq_1: "32 \<le> m \<Longrightarrow> m < 64 \<Longrightarrow> m div 32 = 1" for m :: nat
  by (rule div_nat_eqI) simp_all

lemma cap_index_valid: "valid_cap n \<Longrightarrow> cap_index n = (if n > 31 then 1 else 0)"
proof (cases "n > 31")
  case True
  assume "valid_cap n"
  then have "n < 64" by (simp add: valid_cap_def)
  with True have "cap_index n = nat n div 32" by (intro cap_index_eq) simp_all
  also have "\<dots> = 1" using True \<open>n < 64\<close> by (intro div_32_eq_1) simp_all
  finally show ?thesis using True by simp
qed (simp add: cap_index_def)

lemma cap_bit_valid: "valid_cap n \<Longrightarrow> cap_bit n = (if n > 31 then nat n - 32 else nat n)"
proof (cases "n > 31")
  case True
  moreover assume "valid_cap n"
  ultimately have "32 \<le> n" and "n < 64" by (simp_all add: valid_cap_def)
  then have "(n - 32) mod 32 = n - 32" by (intro mod_pos_pos_trivial) simp_all
  then have "n mod 32 = n - 32" by simp
  with True \<open>valid_cap n\<close> show ?thesis
    by (simp add: cap_bit_def uint_of_int_id valid_cap_def nat_diff_distrib)
qed (simp add: cap_bit_def uint_of_int_id valid_cap_def)

lemma cap_bit_less: "valid_cap n \<Longrightarrow> cap_bit n < 32"
  by (auto simp: cap_bit_valid valid_cap_def)

text \<open>Index and bit determine the capability.\<close>

lemma cap_split_inject:
  "valid_cap m \<Longrightarrow> valid_cap n \<Longrightarrow> cap_index m = cap_index n \<Longrightarrow> cap_bit m = cap_bit n \<Longrightarrow> m = n"
  by (auto simp: cap_index_valid cap_bit_valid valid_cap_def split: if_splits)

lemma cap_index_large: "what > 63 \<Longrightarrow> what < 2 ^ 63 \<Longrightarrow> 2 \<le> cap_index what"
proof -
  assume "what > 63" and "what < 2 ^ 63"
  then have "64 div 32 \<le> nat what div 32" by (intro div_le_mono) simp
  with \<open>what > 63\<close> \<open>what < 2 ^ 63\<close> show ?thesis
    by (simp add: cap_index_eq)
qed

text \<open>
  The word that index and bit select, read and written: \<open>Get\<close> tests \<open>1 << bit\<close> in it,
  \<open>Set\<close> ors it in, \<open>Unset\<close> clears it.
\<close>

definition word_test :: "32 word arr2 \<Rightarrow> Cap \<Rightarrow> bool go" where
  "word_test a what = mapE (\<lambda>w. shl1 (cap_bit what) AND w \<noteq> 0) (arr2_get a (cap_index what))"

definition arr2_bit :: "32 word arr2 \<Rightarrow> Cap \<Rightarrow> bool" where
  "arr2_bit a n \<longleftrightarrow> bit (if n > 31 then at1 a else at0 a) (cap_bit n)"

lemma word_test_valid: "valid_cap n \<Longrightarrow> word_test a n = Inr (arr2_bit a n)"
  by (simp add: word_test_def arr2_get_in_range cap_index_valid arr2_bit_def shl1_test)

lemma arr2_bit_update:
  assumes "valid_cap n" and "valid_cap m"
  shows "arr2_bit (if cap_index m = 0 then Arr2 (at0 a OR shl1 (cap_bit m)) (at1 a)
           else Arr2 (at0 a) (at1 a OR shl1 (cap_bit m))) n \<longleftrightarrow> arr2_bit a n \<or> n = m"
    and "arr2_bit (if cap_index m = 0 then Arr2 (at0 a AND NOT (shl1 (cap_bit m))) (at1 a)
           else Arr2 (at0 a) (at1 a AND NOT (shl1 (cap_bit m)))) n \<longleftrightarrow> arr2_bit a n \<and> n \<noteq> m"
  using assms cap_bit_less [OF assms(2)] cap_split_inject [OF assms]
  by (auto simp: arr2_bit_def bit_or_shl1 bit_andnot_shl1 cap_index_valid
      simp del: bit_or_iff bit_and_iff split: if_splits)

text \<open>Adding and removing one capability after the other.\<close>

lemma fold_add_caps: "fold (\<lambda>n X. if P n then insert n X else X) ns X = X \<union> {n \<in> set ns. P n}"
  by (induction ns arbitrary: X) auto

lemma fold_del_caps: "fold (\<lambda>n X. X - {n}) ns X = X - set ns"
  by (induction ns arbitrary: X) auto

lemma arr2_bit_all:
  "(\<forall>n. valid_cap n \<longrightarrow> P (arr2_bit (Arr2 x y) n) n) \<longleftrightarrow>
   (\<forall>k<32. P (bit x k) (int k) \<and> P (bit y k) (int k + 32))"
proof
  assume L: "\<forall>n. valid_cap n \<longrightarrow> P (arr2_bit (Arr2 x y) n) n"
  show "\<forall>k<32. P (bit x k) (int k) \<and> P (bit y k) (int k + 32)"
  proof (intro allI impI)
    fix k :: nat assume "k < 32"
    then show "P (bit x k) (int k) \<and> P (bit y k) (int k + 32)"
      using L [rule_format, of "int k"] L [rule_format, of "int k + 32"]
      by (simp add: valid_cap_def arr2_bit_def cap_bit_valid nat_add_distrib)
  qed
next
  assume R: "\<forall>k<32. P (bit x k) (int k) \<and> P (bit y k) (int k + 32)"
  show "\<forall>n. valid_cap n \<longrightarrow> P (arr2_bit (Arr2 x y) n) n"
  proof (intro allI impI)
    fix n assume n: "valid_cap n"
    then show "P (arr2_bit (Arr2 x y) n) n"
      using R [rule_format, of "cap_bit n"] cap_bit_less [OF n]
      by (cases "n > 31") (simp_all add: arr2_bit_def cap_bit_valid valid_cap_def)
  qed
qed

lemma ones_word: "(0xffffffff :: 32 word) = - 1"
  by simp

lemma arr2_bit_const:
  "valid_cap n \<Longrightarrow> arr2_bit (Arr2 0xffffffff 0xffffffff) n"
  "\<not> arr2_bit (Arr2 0 0) n"
  using cap_bit_less [of n] by (simp_all add: arr2_bit_def ones_word)

text \<open>Words with no bit, and the two halves that \<open>Full\<close> tests.\<close>

lemma arr2_zero_iff: "at0 a = 0 \<and> at1 a = 0 \<longleftrightarrow> {n. valid_cap n \<and> arr2_bit a n} = {}"
proof -
  have "at0 a = 0 \<and> at1 a = 0 \<longleftrightarrow> (\<forall>k<32. \<not> bit (at0 a) k \<and> \<not> bit (at1 a) k)"
    by (auto simp: word_zero_iff_no_bit)
  also have "\<dots> \<longleftrightarrow> (\<forall>n. valid_cap n \<longrightarrow> \<not> arr2_bit (Arr2 (at0 a) (at1 a)) n)"
    using arr2_bit_all [of "\<lambda>b n. \<not> b" "at0 a" "at1 a"] by simp
  finally show ?thesis by auto
qed

lemma arr2_full_iff:
  "(at0 a AND 0xffffffff = 0xffffffff \<and> at1 a AND umask = umask) \<longleftrightarrow>
   (\<forall>n. valid_cap n \<and> (n > 31 \<longrightarrow> bit umask (nat n - 32)) \<longrightarrow> arr2_bit a n)"
proof -
  have "(at0 a AND 0xffffffff = 0xffffffff \<and> at1 a AND umask = umask) \<longleftrightarrow>
      (\<forall>k<32. bit (at0 a) k \<and> (bit umask k \<longrightarrow> bit (at1 a) k))"
    unfolding word_and_eq_right_iff ones_word by auto
  also have "\<dots> \<longleftrightarrow> (\<forall>n. valid_cap n \<longrightarrow>
      (n > 31 \<longrightarrow> bit umask (nat n - 32)) \<longrightarrow> arr2_bit (Arr2 (at0 a) (at1 a)) n)"
    using arr2_bit_all [of "\<lambda>b n. (n > 31 \<longrightarrow> bit umask (nat n - 32)) \<longrightarrow> b" "at0 a" "at1 a"]
    by (simp add: nat_add_distrib)
  finally show ?thesis by auto
qed

section \<open>mkStringCap and mkString\<close>

definition cap_name :: "CapFormat \<Rightarrow> Cap \<Rightarrow> string" where
  "cap_name format i = (case format of OCI_STRING \<Rightarrow> Cap_OCIString i | STRING \<Rightarrow> Cap_String i)"

fun mkStringCap_loop ::
  "(Cap \<Rightarrow> bool go) \<Rightarrow> CapFormat \<Rightarrow> Cap list \<Rightarrow> bool \<Rightarrow> string \<Rightarrow> string go" where
  "mkStringCap_loop get format [] first ret = Inr ret"
| "mkStringCap_loop get format (i # is) first ret =
     bindE (get i) (\<lambda>present.
       if \<not> present then mkStringCap_loop get format is first ret
       else mkStringCap_loop get format is False
              ((if first then ret else ret @ '', '') @ cap_name format i))"

definition mkStringCap ::
  "(CapType \<Rightarrow> Cap \<Rightarrow> bool go) \<Rightarrow> Cap \<Rightarrow> CapType \<Rightarrow> CapFormat \<Rightarrow> string go" where
  "mkStringCap get last_cap which format =
     mkStringCap_loop (get which) format [0..last_cap] True []"

text \<open>
  The loop of \<open>mkString\<close> doubles \<open>i\<close> while \<open>i <= max\<close>. Fuel bounds the number
  of rounds, \<open>None\<close> is a loop that has not ended; \<open>mkString_fuel\<close> shows that 65 rounds
  are enough for every \<open>max\<close> below \<open>2 ^ 63\<close>.
\<close>

fun mkString_loop ::
  "nat \<Rightarrow> (CapType \<Rightarrow> bool) \<Rightarrow> (CapType \<Rightarrow> bool) \<Rightarrow> (CapType \<Rightarrow> string go) \<Rightarrow>
   CapType \<Rightarrow> CapType \<Rightarrow> string \<Rightarrow> string go option" where
  "mkString_loop 0 isEmpty isFull stringCap i max_type ret = None"
| "mkString_loop (Suc fuel) isEmpty isFull stringCap i max_type ret =
     (if i \<le> max_type then
        case (if isEmpty i then Inr ''empty'' else if isFull i then Inr ''full'' else stringCap i) of
          Inl p \<Rightarrow> Some (Inl p)
        | Inr s \<Rightarrow> mkString_loop fuel isEmpty isFull stringCap (push_bit 1 i) max_type
                    (ret @ '' '' @ CapType_String i @ ''=\"'' @ s @ ''\"'')
      else Some (Inr (ret @ '' }'')))"

definition mkString ::
  "(CapType \<Rightarrow> bool) \<Rightarrow> (CapType \<Rightarrow> bool) \<Rightarrow> (CapType \<Rightarrow> string go) \<Rightarrow> CapType \<Rightarrow> string go option" where
  "mkString isEmpty isFull stringCap max_type =
     mkString_loop 65 isEmpty isFull stringCap 1 max_type ''{''"

text \<open>\<open>mkStringCap\<close> joins the names of the capabilities that are set, in ascending order.\<close>

lemma mkStringCap_loop_eq:
  assumes "\<And>i. i \<in> set is \<Longrightarrow> get i = Inr (present i)"
  shows "mkStringCap_loop get format is first ret =
    Inr (if filter present is = [] then ret
         else (if first then ret else ret @ '', '') @ str_join '', '' (map (cap_name format) (filter present is)))"
  using assms
proof (induction "is" arbitrary: first ret)
  case (Cons i "is")
  then show ?case
    by (cases "filter present is") (simp_all add: str_join_Cons)
qed simp

lemma mkStringCap_eq:
  assumes "\<And>i. 0 \<le> i \<Longrightarrow> i \<le> last_cap \<Longrightarrow> get which i = Inr (present i)"
  shows "mkStringCap get last_cap which format =
    Inr (str_join '', '' (map (cap_name format) (filter present [0..last_cap])))"
  using assms unfolding mkStringCap_def
  by (subst mkStringCap_loop_eq [where present = present]) auto

text \<open>Enough fuel: at round \<open>k\<close> the selector is \<open>2 ^ k\<close>, so the guard fails at the latest in round 63.\<close>

lemma mkString_loop_fuel:
  assumes "max_type < 2 ^ 63" and "k \<le> 63" and "63 - k < fuel"
  shows "mkString_loop fuel isEmpty isFull stringCap (push_bit k 1) max_type ret \<noteq> None"
  using assms
proof (induction fuel arbitrary: k ret)
  case (Suc fuel)
  show ?case
  proof (cases "k = 63")
    case True
    then have "\<not> push_bit k 1 \<le> max_type"
      using Suc.prems(1) by (simp add: push_bit_eq_mult not_le)
    then show ?thesis by simp
  next
    case False
    have dbl: "push_bit 1 (push_bit k 1) = (push_bit (Suc k) 1 :: CapType)"
      by (simp add: push_bit_push_bit)
    have "mkString_loop fuel isEmpty isFull stringCap (push_bit (Suc k) 1) max_type r \<noteq> None" for r
      using Suc.prems False by (intro Suc.IH) simp_all
    then show ?thesis
      unfolding mkString_loop.simps dbl by (simp del: push_bit_of_1 split: sum.split)
  qed
qed simp

lemma mkString_fuel: "max_type < 2 ^ 63 \<Longrightarrow> mkString isEmpty isFull stringCap max_type \<noteq> None"
  using mkString_loop_fuel [of max_type 0 65] by (simp add: mkString_def)

text \<open>One set as \<open>mkString\<close> renders it, and the whole text for the two calls of the code.\<close>

definition render_set ::
  "(CapType \<Rightarrow> bool) \<Rightarrow> (CapType \<Rightarrow> bool) \<Rightarrow> (CapType \<Rightarrow> string go) \<Rightarrow> CapType \<Rightarrow> string \<Rightarrow> string go" where
  "render_set isEmpty isFull stringCap i ret =
     mapE (\<lambda>s. ret @ '' '' @ CapType_String i @ ''=\"'' @ s @ ''\"'')
       (if isEmpty i then Inr ''empty'' else if isFull i then Inr ''full'' else stringCap i)"

lemma mkString_loop_step:
  "mkString_loop (Suc fuel) e f sc i m ret =
    (if i \<le> m then case render_set e f sc i ret of
         Inl p \<Rightarrow> Some (Inl p) | Inr r \<Rightarrow> mkString_loop fuel e f sc (push_bit 1 i) m r
     else Some (Inr (ret @ '' }'')))"
  by (auto simp: render_set_def mapE_def bindE_def split: sum.split)

lemma mkString_sets:
  "mkString e f sc BOUNDING =
     Some (mapE (\<lambda>r. r @ '' }'') (foldE (render_set e f sc) [EFFECTIVE, PERMITTED, INHERITABLE, BOUNDING] ''{''))"
  "mkString e f sc INHERITABLE =
     Some (mapE (\<lambda>r. r @ '' }'') (foldE (render_set e f sc) [EFFECTIVE, PERMITTED, INHERITABLE] ''{''))"
proof -
  have fuel: "65 = Suc (Suc (Suc (Suc (Suc 60))))" by simp
  have dbl: "push_bit 1 1 = (2 :: CapType)" "push_bit 1 2 = (4 :: CapType)" "push_bit 1 4 = (8 :: CapType)"
    "push_bit 1 8 = (16 :: CapType)" by simp_all
  show "mkString e f sc BOUNDING =
     Some (mapE (\<lambda>r. r @ '' }'') (foldE (render_set e f sc) [EFFECTIVE, PERMITTED, INHERITABLE, BOUNDING] ''{''))"
    and "mkString e f sc INHERITABLE =
     Some (mapE (\<lambda>r. r @ '' }'') (foldE (render_set e f sc) [EFFECTIVE, PERMITTED, INHERITABLE] ''{''))"
    unfolding mkString_def fuel mkString_loop_step capType_defs dbl foldE.simps
    by (simp_all add: bindE_def mapE_def del: mkString_loop.simps split: sum.split)
qed

section \<open>The abstract specification\<close>

text \<open>
  What a client of the interface may think of: one set of capabilities per selector, and calls that
  change these sets. \<open>H\<close> is what the object has room for.
\<close>

datatype cap_call =
    CallSet CapType "Cap list"
  | CallUnset CapType "Cap list"
  | CallFill CapType
  | CallClear CapType

definition spec_call :: "Cap set \<Rightarrow> cap_call \<Rightarrow> (CapType \<Rightarrow> Cap set) \<Rightarrow> CapType \<Rightarrow> Cap set" where
  "spec_call H call S k = (case call of
      CallSet w ns \<Rightarrow> if w AND k \<noteq> 0 then S k \<union> (set ns \<inter> H) else S k
    | CallUnset w ns \<Rightarrow> if w AND k \<noteq> 0 then S k - set ns else S k
    | CallFill w \<Rightarrow>
        if k AND CAPS = k then
          if w AND CAPS = CAPS then (if k = INHERITABLE then {} else H) else S k
        else if w AND k = k then H else S k
    | CallClear w \<Rightarrow> if w AND k = k then {} else S k)"

text \<open>A set of the specification depends on the same set before only.\<close>

lemma spec_call_cong: "S k = S' k \<Longrightarrow> spec_call H call S k = spec_call H call S' k"
  by (cases call) (simp_all add: spec_call_def)

lemma spec_run_cong: "S k = S' k \<Longrightarrow> fold (spec_call H) calls S k = fold (spec_call H) calls S' k"
proof (induction calls arbitrary: S S')
  case (Cons call calls)
  have "spec_call H call S k = spec_call H call S' k" by (rule spec_call_cong) (rule Cons.prems)
  from Cons.IH [of "spec_call H call S" "spec_call H call S'", OF this] show ?case by simp
qed simp

text \<open>Calls the specification speaks of: capabilities in range, and a selector \<open>Clear\<close> is meant for.\<close>

definition call_ok :: "(CapType \<Rightarrow> bool) \<Rightarrow> cap_call \<Rightarrow> bool" where
  "call_ok clearable call = (case call of
      CallSet w ns \<Rightarrow> list_all valid_cap ns
    | CallUnset w ns \<Rightarrow> list_all valid_cap ns
    | CallFill w \<Rightarrow> True
    | CallClear w \<Rightarrow> clearable w)"

text \<open>The same call on an object, through the four operations of an implementation.\<close>

definition call_on ::
  "('c \<Rightarrow> CapType \<Rightarrow> Cap list \<Rightarrow> 'c go) \<Rightarrow> ('c \<Rightarrow> CapType \<Rightarrow> Cap list \<Rightarrow> 'c go) \<Rightarrow>
   ('c \<Rightarrow> CapType \<Rightarrow> 'c) \<Rightarrow> ('c \<Rightarrow> CapType \<Rightarrow> 'c) \<Rightarrow> cap_call \<Rightarrow> 'c \<Rightarrow> 'c go" where
  "call_on setc unsetc fillc clearc call c = (case call of
      CallSet w ns \<Rightarrow> setc c w ns
    | CallUnset w ns \<Rightarrow> unsetc c w ns
    | CallFill w \<Rightarrow> Inr (fillc c w)
    | CallClear w \<Rightarrow> Inr (clearc c w))"

section \<open>The interface\<close>

text \<open>
  An implementation provides the operations of the Go interface; \<open>kinds\<close> are the sets it
  has, \<open>holds c n\<close> says that the object \<open>c\<close> has room for the capability \<open>n\<close>, \<open>wf\<close>
  is its invariant, \<open>clearable\<close> are the selectors that \<open>Clear\<close> treats set by set and \<open>umask\<close> is
  \<open>capUpperMask\<close>.
\<close>

locale capabilities =
  fixes getc :: "'c \<Rightarrow> CapType \<Rightarrow> Cap \<Rightarrow> bool go"
    and setc :: "'c \<Rightarrow> CapType \<Rightarrow> Cap list \<Rightarrow> 'c go"
    and unsetc :: "'c \<Rightarrow> CapType \<Rightarrow> Cap list \<Rightarrow> 'c go"
    and fillc :: "'c \<Rightarrow> CapType \<Rightarrow> 'c"
    and clearc :: "'c \<Rightarrow> CapType \<Rightarrow> 'c"
    and emptyc :: "'c \<Rightarrow> CapType \<Rightarrow> bool"
    and fullc :: "32 word \<Rightarrow> 'c \<Rightarrow> CapType \<Rightarrow> bool"
    and kinds :: "CapType set"
    and holds :: "'c \<Rightarrow> Cap \<Rightarrow> bool"
    and wf :: "'c \<Rightarrow> bool"
    and clearable :: "CapType \<Rightarrow> bool"
  assumes kinds_single: "kinds \<subseteq> single_kinds"
    and get_ok: "k \<in> kinds \<Longrightarrow> valid_cap n \<Longrightarrow> getc c k n = Inr (n \<in> cap_set (getc c) k)"
    and set_ok: "list_all valid_cap ns \<Longrightarrow> \<exists>c'. setc c w ns = Inr c' \<and> holds c' = holds c \<and> (wf c \<longrightarrow> wf c') \<and>
      (\<forall>k \<in> kinds. cap_set (getc c') k =
         (if w AND k \<noteq> 0 then cap_set (getc c) k \<union> {n \<in> set ns. holds c n} else cap_set (getc c) k))"
    and unset_ok: "list_all valid_cap ns \<Longrightarrow> \<exists>c'. unsetc c w ns = Inr c' \<and> holds c' = holds c \<and> (wf c \<longrightarrow> wf c') \<and>
      (\<forall>k \<in> kinds. cap_set (getc c') k =
         (if w AND k \<noteq> 0 then cap_set (getc c) k - set ns else cap_set (getc c) k))"
    and fill_ok: "wf c \<Longrightarrow> wf (fillc c w) \<and> holds (fillc c w) = holds c \<and>
      (\<forall>k \<in> kinds. cap_set (getc (fillc c w)) k =
         (if k AND CAPS = k then
            if w AND CAPS = CAPS then (if k = INHERITABLE then {} else {n. valid_cap n \<and> holds c n})
            else cap_set (getc c) k
          else if w AND k = k then {n. valid_cap n \<and> holds c n} else cap_set (getc c) k))"
    and clear_ok: "wf c \<Longrightarrow> wf (clearc c w) \<and> holds (clearc c w) = holds c \<and>
      (clearable w \<longrightarrow> (\<forall>k \<in> kinds. cap_set (getc (clearc c w)) k =
         (if w AND k = k then {} else cap_set (getc c) k)))"
    and empty_ok: "wf c \<Longrightarrow> k \<in> kinds \<Longrightarrow> emptyc c k \<longleftrightarrow> cap_set (getc c) k = {}"
    and full_ok: "wf c \<Longrightarrow> k \<in> kinds \<Longrightarrow> fullc umask c k \<longleftrightarrow>
      (\<forall>n. valid_cap n \<and> (n > 31 \<longrightarrow> bit umask (nat n - 32)) \<longrightarrow> n \<in> cap_set (getc c) k)"
begin

text \<open>\<open>Set\<close> then \<open>Unset\<close> of capabilities that were absent restores every set.\<close>

lemma set_unset_restores:
  assumes "list_all valid_cap ns" and "\<forall>k \<in> kinds. cap_set (getc c) k \<inter> set ns = {}"
  shows "\<exists>c1 c2. setc c w ns = Inr c1 \<and> unsetc c1 w ns = Inr c2 \<and>
    (\<forall>k \<in> kinds. cap_set (getc c2) k = cap_set (getc c) k)"
proof -
  obtain c1 where c1: "setc c w ns = Inr c1"
    and s1: "\<forall>k \<in> kinds. cap_set (getc c1) k =
      (if w AND k \<noteq> 0 then cap_set (getc c) k \<union> {n \<in> set ns. holds c n} else cap_set (getc c) k)"
    using set_ok [OF assms(1)] by blast
  obtain c2 where c2: "unsetc c1 w ns = Inr c2"
    and s2: "\<forall>k \<in> kinds. cap_set (getc c2) k =
      (if w AND k \<noteq> 0 then cap_set (getc c1) k - set ns else cap_set (getc c1) k)"
    using unset_ok [OF assms(1)] by blast
  have "\<forall>k \<in> kinds. cap_set (getc c2) k = cap_set (getc c) k"
    using s1 s2 assms(2) by (auto split: if_splits)
  with c1 c2 show ?thesis by blast
qed

text \<open>What was set is reported, and nothing else changed.\<close>

lemma get_after_set:
  assumes "list_all valid_cap ns" and "k \<in> kinds" and "valid_cap n"
  shows "\<exists>c'. setc c w ns = Inr c' \<and>
    getc c' k n = Inr (n \<in> cap_set (getc c) k \<or> w AND k \<noteq> 0 \<and> n \<in> set ns \<and> holds c n)"
  using set_ok [OF assms(1), of c w] get_ok [OF assms(2,3)] assms(2) by fastforce

lemma full_after_fill:
  assumes "wf c" and "k \<in> kinds" and "k \<noteq> INHERITABLE" and "w AND CAPS = CAPS" and "w AND k = k"
    and "\<And>n. valid_cap n \<Longrightarrow> (n > 31 \<Longrightarrow> bit umask (nat n - 32)) \<Longrightarrow> holds c n"
  shows "fullc umask (fillc c w) k"
  using assms fill_ok [OF assms(1), of w] full_ok [of "fillc c w" k umask] by auto

text \<open>\<open>StringCap\<close> lists exactly the capabilities that are set, up to the last one of the kernel.\<close>

lemma stringcap_names:
  assumes "k \<in> kinds" and "last_cap \<le> 63"
  shows "mkStringCap (getc c) last_cap k format =
    Inr (str_join '', '' (map (cap_name format) (filter (\<lambda>n. n \<in> cap_set (getc c) k) [0..last_cap])))"
  using assms by (intro mkStringCap_eq get_ok) (auto simp: valid_cap_def)

text \<open>A call does to the sets of an object what the specification says, and so does a sequence of calls.\<close>

definition room :: "'c \<Rightarrow> Cap set" where
  "room c = {n. valid_cap n \<and> holds c n}"

lemma call_refines:
  assumes "wf c" and "call_ok clearable call"
  shows "\<exists>c'. call_on setc unsetc fillc clearc call c = Inr c' \<and> wf c' \<and> holds c' = holds c \<and>
    (\<forall>k \<in> kinds. cap_set (getc c') k = spec_call (room c) call (cap_set (getc c)) k)"
proof (cases call)
  case (CallSet w ns)
  then have v: "list_all valid_cap ns" using assms(2) by (simp add: call_ok_def)
  then have "{n \<in> set ns. holds c n} = set ns \<inter> room c" by (auto simp: room_def list_all_iff)
  then show ?thesis using set_ok [OF v, of c w] assms(1) CallSet by (auto simp: call_on_def spec_call_def)
next
  case (CallUnset w ns)
  then have "list_all valid_cap ns" using assms(2) by (simp add: call_ok_def)
  then show ?thesis using unset_ok [of ns c w] assms(1) CallUnset by (auto simp: call_on_def spec_call_def)
next
  case (CallFill w)
  then show ?thesis using fill_ok [OF assms(1), of w] by (simp add: call_on_def spec_call_def room_def)
next
  case (CallClear w)
  then show ?thesis using clear_ok [OF assms(1), of w] assms(2) by (simp add: call_on_def spec_call_def call_ok_def)
qed

lemma run_refines:
  assumes "wf c" and "list_all (call_ok clearable) calls"
  shows "\<exists>c'. foldE (call_on setc unsetc fillc clearc) calls c = Inr c' \<and> wf c' \<and> holds c' = holds c \<and>
    (\<forall>k \<in> kinds. cap_set (getc c') k = fold (spec_call (room c)) calls (cap_set (getc c)) k)"
  using assms
proof (induction calls arbitrary: c)
  case (Cons call calls)
  obtain c1 where c1: "call_on setc unsetc fillc clearc call c = Inr c1" "wf c1" "holds c1 = holds c"
    and s1: "\<forall>k \<in> kinds. cap_set (getc c1) k = spec_call (room c) call (cap_set (getc c)) k"
    using call_refines [of c call] Cons.prems by auto
  have r: "room c1 = room c" using c1(3) by (simp add: room_def)
  obtain c' where c': "foldE (call_on setc unsetc fillc clearc) calls c1 = Inr c'" "wf c'" "holds c' = holds c1"
    and s': "\<forall>k \<in> kinds. cap_set (getc c') k = fold (spec_call (room c1)) calls (cap_set (getc c1)) k"
    using Cons.IH [OF c1(2)] Cons.prems by auto
  have "fold (spec_call (room c)) calls (cap_set (getc c1)) k =
      fold (spec_call (room c)) calls (spec_call (room c) call (cap_set (getc c))) k" if "k \<in> kinds" for k
    using s1 that by (intro spec_run_cong) simp
  then show ?case using c1 c' s' r by simp
qed simp

text \<open>What a client observes afterwards: \<open>Get\<close>, \<open>Empty\<close> and \<open>Full\<close> speak of the sets of the specification.\<close>

lemma run_observed:
  assumes "wf c" and "list_all (call_ok clearable) calls"
  shows "\<exists>c'. foldE (call_on setc unsetc fillc clearc) calls c = Inr c' \<and> wf c' \<and>
    (\<forall>k \<in> kinds. let S = fold (spec_call (room c)) calls (cap_set (getc c)) k
       in (\<forall>n. valid_cap n \<longrightarrow> getc c' k n = Inr (n \<in> S)) \<and> (emptyc c' k \<longleftrightarrow> S = {}) \<and>
          (fullc umask c' k \<longleftrightarrow> (\<forall>n. valid_cap n \<and> (n > 31 \<longrightarrow> bit umask (nat n - 32)) \<longrightarrow> n \<in> S)))"
proof -
  obtain c' where "foldE (call_on setc unsetc fillc clearc) calls c = Inr c'" "wf c'"
    "\<forall>k \<in> kinds. cap_set (getc c') k = fold (spec_call (room c)) calls (cap_set (getc c)) k"
    using run_refines [OF assms] by blast
  then show ?thesis using get_ok [of _ _ c'] empty_ok [of c'] full_ok [of c'] by (auto simp: Let_def)
qed

end

end
