(* ===== verification/CapsV3.thy ===== *)
theory CapsV3
  imports CapInterface
begin

text \<open>
  The process capabilities \<open>capsV3\<close> of \<open>capability/capability_linux.go\<close> with the
  kernel structures of \<open>syscall_linux.go\<close> they hold: every operation of the interface on
  them, at the level of the 32-bit words. The lemmas show how each operation changes the set of
  capabilities \<open>Get\<close> reports, and the interpretation of \<open>capabilities\<close> collects them.
\<close>

section \<open>State\<close>

text \<open>\<open>pid\<close> is an \<open>int32\<close>, kept as its 32 bits.\<close>

record capHeader =
  version :: "32 word"
  pid :: "32 word"

record capData =
  effective :: "32 word"
  permitted :: "32 word"
  inheritable :: "32 word"

record capsV3 =
  hdr :: capHeader
  data :: "capData arr2"
  bounds :: "32 word arr2"
  ambient :: "32 word arr2"

text \<open>\<open>new(capsV3)\<close>.\<close>

definition zero_capData :: capData where
  "zero_capData = \<lparr>effective = 0, permitted = 0, inheritable = 0\<rparr>"

definition zero_capsV3 :: capsV3 where
  "zero_capsV3 = \<lparr>hdr = \<lparr>version = 0, pid = 0\<rparr>, data = Arr2 zero_capData zero_capData,
     bounds = Arr2 0 0, ambient = Arr2 0 0\<rparr>"

section \<open>Operations\<close>

definition V3_Get :: "capsV3 \<Rightarrow> CapType \<Rightarrow> Cap \<Rightarrow> bool go" where
  "V3_Get c which what =
    (let i = cap_index what; m = shl1 (cap_bit what)
     in if which = EFFECTIVE then mapE (\<lambda>d. m AND effective d \<noteq> 0) (arr2_get (data c) i)
        else if which = PERMITTED then mapE (\<lambda>d. m AND permitted d \<noteq> 0) (arr2_get (data c) i)
        else if which = INHERITABLE then mapE (\<lambda>d. m AND inheritable d \<noteq> 0) (arr2_get (data c) i)
        else if which = BOUNDING then mapE (\<lambda>w. m AND w \<noteq> 0) (arr2_get (bounds c) i)
        else if which = AMBIENT then mapE (\<lambda>w. m AND w \<noteq> 0) (arr2_get (ambient c) i)
        else Inr False)"

definition V3_getData :: "capsV3 \<Rightarrow> CapType \<Rightarrow> 32 word arr2 \<Rightarrow> 32 word arr2" where
  "V3_getData c which dest =
    (if which = EFFECTIVE then map_arr2 effective (data c)
     else if which = PERMITTED then map_arr2 permitted (data c)
     else if which = INHERITABLE then map_arr2 inheritable (data c)
     else if which = BOUNDING then bounds c
     else if which = AMBIENT then ambient c
     else dest)"

definition V3_GetEffCaps :: "capsV3 \<Rightarrow> 32 word arr2" where
  "V3_GetEffCaps c = V3_getData c EFFECTIVE (Arr2 0 0)"

definition V3_SetEffCaps :: "capsV3 \<Rightarrow> 32 word arr2 \<Rightarrow> capsV3" where
  "V3_SetEffCaps c caps =
    c\<lparr>data := Arr2 ((at0 (data c))\<lparr>effective := at0 caps\<rparr>) ((at1 (data c))\<lparr>effective := at1 caps\<rparr>)\<rparr>"

definition V3_Empty :: "capsV3 \<Rightarrow> CapType \<Rightarrow> bool" where
  "V3_Empty c which = (let d = V3_getData c which (Arr2 0 0) in at0 d = 0 \<and> at1 d = 0)"

definition V3_Full :: "32 word \<Rightarrow> capsV3 \<Rightarrow> CapType \<Rightarrow> bool" where
  "V3_Full capUpperMask c which =
    (let d = V3_getData c which (Arr2 0 0)
     in if at0 d AND 0xffffffff \<noteq> 0xffffffff then False
        else at1 d AND capUpperMask = capUpperMask)"

text \<open>
  One statement \<open>if which&SET != 0 \{ c.field[i] op= \}\<close> of the loop bodies of \<open>Set\<close>
  and \<open>Unset\<close>; an index out of range panics only where the guard holds.
\<close>

definition guarded :: "bool \<Rightarrow> ('s \<Rightarrow> 's go) \<Rightarrow> 's \<Rightarrow> 's go" where
  "guarded b f s = (if b then f s else Inr s)"

definition upd_data :: "nat \<Rightarrow> (capData \<Rightarrow> capData) \<Rightarrow> capsV3 \<Rightarrow> capsV3 go" where
  "upd_data i f c = mapE (\<lambda>a. c\<lparr>data := a\<rparr>) (arr2_upd i f (data c))"

definition upd_bounds :: "nat \<Rightarrow> (32 word \<Rightarrow> 32 word) \<Rightarrow> capsV3 \<Rightarrow> capsV3 go" where
  "upd_bounds i f c = mapE (\<lambda>a. c\<lparr>bounds := a\<rparr>) (arr2_upd i f (bounds c))"

definition upd_ambient :: "nat \<Rightarrow> (32 word \<Rightarrow> 32 word) \<Rightarrow> capsV3 \<Rightarrow> capsV3 go" where
  "upd_ambient i f c = mapE (\<lambda>a. c\<lparr>ambient := a\<rparr>) (arr2_upd i f (ambient c))"

definition V3_update_sets :: "CapType \<Rightarrow> nat \<Rightarrow> (32 word \<Rightarrow> 32 word) \<Rightarrow> capsV3 \<Rightarrow> capsV3 go" where
  "V3_update_sets which i f c0 =
    bindE (guarded (which AND EFFECTIVE \<noteq> 0) (upd_data i (effective_update f)) c0) (\<lambda>c1.
    bindE (guarded (which AND PERMITTED \<noteq> 0) (upd_data i (permitted_update f)) c1) (\<lambda>c2.
    bindE (guarded (which AND INHERITABLE \<noteq> 0) (upd_data i (inheritable_update f)) c2) (\<lambda>c3.
    bindE (guarded (which AND BOUNDING \<noteq> 0) (upd_bounds i f) c3) (\<lambda>c4.
    guarded (which AND AMBIENT \<noteq> 0) (upd_ambient i f) c4))))"

definition V3_Set :: "capsV3 \<Rightarrow> CapType \<Rightarrow> Cap list \<Rightarrow> capsV3 go" where
  "V3_Set c which caps = foldE (\<lambda>what.
     V3_update_sets which (cap_index what) (\<lambda>w. w OR shl1 (cap_bit what))) caps c"

definition V3_Unset :: "capsV3 \<Rightarrow> CapType \<Rightarrow> Cap list \<Rightarrow> capsV3 go" where
  "V3_Unset c which caps = foldE (\<lambda>what.
     V3_update_sets which (cap_index what) (\<lambda>w. w AND NOT (shl1 (cap_bit what)))) caps c"

definition V3_Fill :: "capsV3 \<Rightarrow> CapType \<Rightarrow> capsV3" where
  "V3_Fill c kind =
    (let full = \<lparr>effective = 0xffffffff, permitted = 0xffffffff, inheritable = 0\<rparr>;
         c1 = (if kind AND CAPS = CAPS then c\<lparr>data := Arr2 full full\<rparr> else c);
         c2 = (if kind AND BOUNDS = BOUNDS then c1\<lparr>bounds := Arr2 0xffffffff 0xffffffff\<rparr> else c1)
     in if kind AND AMBS = AMBS then c2\<lparr>ambient := Arr2 0xffffffff 0xffffffff\<rparr> else c2)"

definition V3_ClearOriginal :: "capsV3 \<Rightarrow> CapType \<Rightarrow> capsV3" where
  "V3_ClearOriginal c kind =
    (let c1 = (if kind AND CAPS = CAPS then c\<lparr>data := Arr2 zero_capData zero_capData\<rparr> else c);
         c2 = (if kind AND BOUNDS = BOUNDS then c1\<lparr>bounds := Arr2 0 0\<rparr> else c1)
     in if kind AND AMBS = AMBS then c2\<lparr>ambient := Arr2 0 0\<rparr> else c2)"

definition V3_Clear :: "capsV3 \<Rightarrow> CapType \<Rightarrow> capsV3" where
  "V3_Clear c kind =
    (let c1 = (if kind AND EFFECTIVE = EFFECTIVE
               then c\<lparr>data := map_arr2 (effective_update (\<lambda>_. 0)) (data c)\<rparr> else c);
         c2 = (if kind AND PERMITTED = PERMITTED
               then c1\<lparr>data := map_arr2 (permitted_update (\<lambda>_. 0)) (data c1)\<rparr> else c1);
         c3 = (if kind AND INHERITABLE = INHERITABLE
               then c2\<lparr>data := map_arr2 (inheritable_update (\<lambda>_. 0)) (data c2)\<rparr> else c2);
         c4 = (if kind AND BOUNDS = BOUNDS then c3\<lparr>bounds := Arr2 0 0\<rparr> else c3)
     in if kind AND AMBS = AMBS then c4\<lparr>ambient := Arr2 0 0\<rparr> else c4)"

definition V3_StringCap :: "Cap \<Rightarrow> capsV3 \<Rightarrow> CapType \<Rightarrow> CapFormat \<Rightarrow> string go" where
  "V3_StringCap last_cap c which format = mkStringCap (V3_Get c) last_cap which format"

definition V3_String :: "Cap \<Rightarrow> 32 word \<Rightarrow> capsV3 \<Rightarrow> CapFormat \<Rightarrow> string go option" where
  "V3_String last_cap capUpperMask c format =
     mkString (V3_Empty c) (V3_Full capUpperMask c) (\<lambda>i. V3_StringCap last_cap c i format) BOUNDING"

section \<open>Operations as changes of capability sets\<close>

text \<open>The two words behind a set; \<open>Get\<close> reads a bit of them.\<close>

abbreviation V3_words :: "capsV3 \<Rightarrow> CapType \<Rightarrow> 32 word arr2" where
  "V3_words c k \<equiv> V3_getData c k (Arr2 0 0)"

lemma V3_Get_words: "k \<in> single_kinds \<Longrightarrow> V3_Get c k n = word_test (V3_words c k) n"
  by (auto simp: single_kinds_def V3_Get_def V3_getData_def word_test_def arr2_get_map mapE_mapE Let_def)

lemma V3_Get_valid: "k \<in> single_kinds \<Longrightarrow> valid_cap n \<Longrightarrow> V3_Get c k n = Inr (arr2_bit (V3_words c k) n)"
  by (simp add: V3_Get_words word_test_valid)

lemma V3_cap_set: "k \<in> single_kinds \<Longrightarrow> cap_set (V3_Get c) k = {n. valid_cap n \<and> arr2_bit (V3_words c k) n}"
  by (auto simp: cap_set_def V3_Get_valid)

text \<open>The loop body of \<open>Set\<close> and \<open>Unset\<close> on a word that exists.\<close>

lemma V3_update_sets_words:
  assumes "i < 2"
  shows "\<exists>c'. V3_update_sets w i f c = Inr c' \<and> (\<forall>k \<in> single_kinds. V3_words c' k =
    (if w AND k \<noteq> 0 then (if i = 0 then Arr2 (f (at0 (V3_words c k))) (at1 (V3_words c k))
                       else Arr2 (at0 (V3_words c k)) (f (at1 (V3_words c k))))
     else V3_words c k))"
proof -
  consider "i = 0" | "i = 1" using assms by linarith
  then show ?thesis
    by cases (cases "data c"; cases "bounds c"; cases "ambient c";
      simp add: V3_update_sets_def guarded_def upd_data_def upd_bounds_def upd_ambient_def
        single_kinds_def V3_getData_def)+
qed

lemma cap_index_lt2: "valid_cap n \<Longrightarrow> cap_index n < 2"
  by (simp add: cap_index_valid)

lemma V3_update_sets_bits:
  assumes n: "valid_cap n"
  shows "\<exists>c'. V3_update_sets w (cap_index n) (\<lambda>w. w OR shl1 (cap_bit n)) c = Inr c' \<and>
      (\<forall>k \<in> single_kinds. cap_set (V3_Get c') k =
        (if w AND k \<noteq> 0 then insert n (cap_set (V3_Get c) k) else cap_set (V3_Get c) k))"
    and "\<exists>c'. V3_update_sets w (cap_index n) (\<lambda>w. w AND NOT (shl1 (cap_bit n))) c = Inr c' \<and>
      (\<forall>k \<in> single_kinds. cap_set (V3_Get c') k =
        (if w AND k \<noteq> 0 then cap_set (V3_Get c) k - {n} else cap_set (V3_Get c) k))"
proof -
  note step = V3_update_sets_words [OF cap_index_lt2 [OF n], of w _ c]
  show "\<exists>c'. V3_update_sets w (cap_index n) (\<lambda>w. w OR shl1 (cap_bit n)) c = Inr c' \<and>
      (\<forall>k \<in> single_kinds. cap_set (V3_Get c') k =
        (if w AND k \<noteq> 0 then insert n (cap_set (V3_Get c) k) else cap_set (V3_Get c) k))"
    using step [of "\<lambda>w. w OR shl1 (cap_bit n)"] n arr2_bit_update(1) [OF _ n]
    by (auto simp: V3_cap_set)
  show "\<exists>c'. V3_update_sets w (cap_index n) (\<lambda>w. w AND NOT (shl1 (cap_bit n))) c = Inr c' \<and>
      (\<forall>k \<in> single_kinds. cap_set (V3_Get c') k =
        (if w AND k \<noteq> 0 then cap_set (V3_Get c) k - {n} else cap_set (V3_Get c) k))"
    using step [of "\<lambda>w. w AND NOT (shl1 (cap_bit n))"] n arr2_bit_update(2) [OF _ n]
    by (auto simp: V3_cap_set)
qed

lemma V3_Set_sets:
  assumes "list_all valid_cap ns"
  shows "\<exists>c'. V3_Set c w ns = Inr c' \<and> (\<forall>k \<in> single_kinds. cap_set (V3_Get c') k =
    (if w AND k \<noteq> 0 then cap_set (V3_Get c) k \<union> set ns else cap_set (V3_Get c) k))"
proof -
  have "\<exists>c'. V3_Set c w ns = Inr c' \<and> () = () \<and> (\<forall>k \<in> single_kinds. cap_set (V3_Get c') k =
    (if w AND k \<noteq> 0 then fold insert ns (cap_set (V3_Get c) k)
     else cap_set (V3_Get c) k))"
    unfolding V3_Set_def
    by (rule foldE_sets) (use V3_update_sets_bits(1) assms in \<open>auto simp: list_all_iff\<close>)
  then show ?thesis by (simp add: fold_add_caps [of "\<lambda>_. True", simplified] cong: if_cong split del: if_split)
qed

lemma V3_Unset_sets:
  assumes "list_all valid_cap ns"
  shows "\<exists>c'. V3_Unset c w ns = Inr c' \<and> (\<forall>k \<in> single_kinds. cap_set (V3_Get c') k =
    (if w AND k \<noteq> 0 then cap_set (V3_Get c) k - set ns else cap_set (V3_Get c) k))"
proof -
  have "\<exists>c'. V3_Unset c w ns = Inr c' \<and> () = () \<and> (\<forall>k \<in> single_kinds. cap_set (V3_Get c') k =
    (if w AND k \<noteq> 0 then fold (\<lambda>n X. X - {n}) ns (cap_set (V3_Get c) k)
     else cap_set (V3_Get c) k))"
    unfolding V3_Unset_def
    by (rule foldE_sets) (use V3_update_sets_bits(2) assms in \<open>auto simp: list_all_iff\<close>)
  then show ?thesis by (simp add: fold_del_caps cong: if_cong split del: if_split)
qed

lemma V3_Fill_sets:
  assumes "k \<in> single_kinds"
  shows "cap_set (V3_Get (V3_Fill c w)) k =
    (if k AND CAPS = k then
       if w AND CAPS = CAPS then (if k = INHERITABLE then {} else {n. valid_cap n})
       else cap_set (V3_Get c) k
     else if w AND k = k then {n. valid_cap n} else cap_set (V3_Get c) k)"
proof -
  have caps: "EFFECTIVE AND CAPS = EFFECTIVE" "PERMITTED AND CAPS = PERMITTED"
    "INHERITABLE AND CAPS = INHERITABLE" "BOUNDING AND CAPS \<noteq> BOUNDING" "AMBIENT AND CAPS \<noteq> AMBIENT"
    by (simp_all add: capType_defs)
  show ?thesis
    using assms unfolding V3_cap_set [OF assms]
    by (auto simp: single_kinds_def V3_Fill_def V3_getData_def caps arr2_bit_const Let_def
        BOUNDS_def AMBS_def)
qed

lemma V3_Clear_sets:
  assumes "k \<in> single_kinds"
  shows "cap_set (V3_Get (V3_Clear c w)) k = (if w AND k = k then {} else cap_set (V3_Get c) k)"
proof -
  have zero: "arr2_bit (map_arr2 (\<lambda>_. 0) a) n \<longleftrightarrow> False" for a :: "capData arr2" and n
    by (cases a) (simp add: arr2_bit_const)
  have comp: "map_arr2 f (map_arr2 g a) = map_arr2 (\<lambda>x. f (g x)) a" for f :: "capData \<Rightarrow> 32 word" and g a
    by (cases a) simp
  show ?thesis
    using assms unfolding V3_cap_set [OF assms]
    by (auto simp: single_kinds_def V3_Clear_def V3_getData_def comp zero arr2_bit_const Let_def
        BOUNDS_def AMBS_def)
qed

lemma V3_Empty_iff: "k \<in> single_kinds \<Longrightarrow> V3_Empty c k \<longleftrightarrow> cap_set (V3_Get c) k = {}"
  unfolding V3_Empty_def Let_def V3_cap_set arr2_zero_iff by simp

lemma V3_Full_iff:
  "k \<in> single_kinds \<Longrightarrow> V3_Full umask c k \<longleftrightarrow>
    (\<forall>n. valid_cap n \<and> (n > 31 \<longrightarrow> bit umask (nat n - 32)) \<longrightarrow> n \<in> cap_set (V3_Get c) k)"
  using arr2_full_iff [of "V3_words c k" umask] by (auto simp: V3_Full_def Let_def V3_cap_set)

section \<open>capsV3 implements the interface\<close>

interpretation v3: capabilities V3_Get V3_Set V3_Unset V3_Fill V3_Clear V3_Empty V3_Full
  single_kinds "\<lambda>_ _. True" "\<lambda>_. True" "\<lambda>_. True"
proof unfold_locales
  fix k n c assume "k \<in> single_kinds" and "valid_cap n"
  then show "V3_Get c k n = Inr (n \<in> cap_set (V3_Get c) k)"
    by (simp add: V3_Get_valid V3_cap_set)
next
  fix ns c w assume "list_all valid_cap ns"
  then show "\<exists>c'. V3_Set c w ns = Inr c' \<and> (\<lambda>_. True) = (\<lambda>_. True) \<and> (True \<longrightarrow> True) \<and>
      (\<forall>k \<in> single_kinds. cap_set (V3_Get c') k =
        (if w AND k \<noteq> 0 then cap_set (V3_Get c) k \<union> {n \<in> set ns. True} else cap_set (V3_Get c) k))"
    using V3_Set_sets [of ns c w] by (simp cong: if_cong split del: if_split)
next
  fix ns c w assume "list_all valid_cap ns"
  then show "\<exists>c'. V3_Unset c w ns = Inr c' \<and> (\<lambda>_. True) = (\<lambda>_. True) \<and> (True \<longrightarrow> True) \<and>
      (\<forall>k \<in> single_kinds. cap_set (V3_Get c') k =
        (if w AND k \<noteq> 0 then cap_set (V3_Get c) k - set ns else cap_set (V3_Get c) k))"
    using V3_Unset_sets [of ns c w] by (simp cong: if_cong split del: if_split)
qed (use V3_Fill_sets V3_Clear_sets V3_Empty_iff V3_Full_iff in auto)

section \<open>Properties\<close>

text \<open>
  \<open>Get\<close> on process capabilities is total up to the last bit of the two words: for one of
  the five sets it reports whether the capability is in the set, is false for a negative number, and
  panics with an index out of range for every capability above 63.
\<close>

theorem V3_Get_range:
  assumes "k \<in> single_kinds" and "- (2 ^ 63) \<le> n" and "n < 2 ^ 63"
  shows "V3_Get c k n =
    (if n < 0 then Inr False
     else if n \<le> 63 then Inr (n \<in> cap_set (V3_Get c) k)
     else Inl IndexOutOfRange)"
proof -
  consider "n < 0" | "valid_cap n" | "63 < n" by (metis not_le valid_cap_def)
  then show ?thesis
  proof cases
    case 1
    then have "32 \<le> cap_bit n" using uint_of_int_neg [OF 1 assms(2)] by (simp add: cap_bit_def)
    with 1 show ?thesis using assms(1)
      by (simp add: V3_Get_words word_test_def shl1_def cap_index_def arr2_get_in_range)
  next
    case 2
    then show ?thesis using assms(1) v3.get_ok by (simp add: valid_cap_def)
  next
    case 3
    then show ?thesis using assms cap_index_large [OF 3 assms(3)]
      by (simp add: V3_Get_words word_test_def arr2_get_panics)
  qed
qed

theorem V3_Get_range_witness:
  "V3_Get zero_capsV3 BOUNDING 64 = Inl IndexOutOfRange"
  using V3_Get_range [of BOUNDING 64 zero_capsV3] by (simp add: single_kinds_def)

text \<open>
  \<open>Set\<close> on process capabilities adds exactly the given capabilities to exactly the sets the
  selector names: a later \<open>Get\<close> reports a capability when it was reported before, or was given
  and its set selected.
\<close>

theorem V3_Set_Get:
  assumes "list_all valid_cap ns" and "k \<in> single_kinds" and "valid_cap n"
  shows "\<exists>c'. V3_Set c w ns = Inr c' \<and>
    V3_Get c' k n = Inr (n \<in> cap_set (V3_Get c) k \<or> w AND k \<noteq> 0 \<and> n \<in> set ns)"
  using v3.get_after_set [OF assms, of c w] by simp

theorem V3_Set_Get_witness:
  "\<exists>c'. V3_Set zero_capsV3 CAPS [CAP_KILL, CAP_BPF] = Inr c' \<and> V3_Get c' EFFECTIVE CAP_BPF = Inr True"
proof -
  have "list_all valid_cap [CAP_KILL, CAP_BPF]" and "EFFECTIVE \<in> single_kinds" and "valid_cap CAP_BPF"
    by (simp_all add: valid_cap_def cap_defs single_kinds_def)
  from V3_Set_Get [OF this, of zero_capsV3 CAPS] show ?thesis by (simp add: capType_defs)
qed

text \<open>
  \<open>Unset\<close> undoes \<open>Set\<close>: setting capabilities that were in none of the sets and
  unsetting them with the same selector leaves all five sets as they were.
\<close>

theorem V3_Set_Unset_restores:
  assumes "list_all valid_cap ns" and "\<forall>k \<in> single_kinds. cap_set (V3_Get c) k \<inter> set ns = {}"
  shows "\<exists>c1 c2. V3_Set c w ns = Inr c1 \<and> V3_Unset c1 w ns = Inr c2 \<and>
    (\<forall>k \<in> single_kinds. cap_set (V3_Get c2) k = cap_set (V3_Get c) k)"
  by (rule v3.set_unset_restores [OF assms])

lemma zero_capsV3_empty: "k \<in> single_kinds \<Longrightarrow> cap_set (V3_Get zero_capsV3) k = {}"
  by (auto simp: V3_cap_set single_kinds_def zero_capsV3_def zero_capData_def V3_getData_def
      arr2_bit_def)

theorem V3_Set_Unset_restores_witness:
  "\<exists>c1 c2. V3_Set zero_capsV3 BOUNDS [CAP_KILL] = Inr c1 \<and> V3_Unset c1 BOUNDS [CAP_KILL] = Inr c2 \<and>
    (\<forall>k \<in> single_kinds. cap_set (V3_Get c2) k = {})"
  using V3_Set_Unset_restores [of "[CAP_KILL]" zero_capsV3 BOUNDS]
  by (simp add: valid_cap_def CAP_KILL_def zero_capsV3_empty)

text \<open>
  What \<open>Fill\<close> does to each set, for every selector: the effective and permitted sets are
  filled and the inheritable set is emptied, all three together and only when the selector covers
  \<open>CAPS\<close>; the bounding and ambient sets are filled on their own.
\<close>

theorem V3_Fill_exact:
  "cap_set (V3_Get (V3_Fill c w)) EFFECTIVE =
     (if w AND CAPS = CAPS then {n. valid_cap n} else cap_set (V3_Get c) EFFECTIVE) \<and>
   cap_set (V3_Get (V3_Fill c w)) PERMITTED =
     (if w AND CAPS = CAPS then {n. valid_cap n} else cap_set (V3_Get c) PERMITTED) \<and>
   cap_set (V3_Get (V3_Fill c w)) INHERITABLE =
     (if w AND CAPS = CAPS then {} else cap_set (V3_Get c) INHERITABLE) \<and>
   cap_set (V3_Get (V3_Fill c w)) BOUNDING =
     (if w AND BOUNDS = BOUNDS then {n. valid_cap n} else cap_set (V3_Get c) BOUNDING) \<and>
   cap_set (V3_Get (V3_Fill c w)) AMBIENT =
     (if w AND AMBS = AMBS then {n. valid_cap n} else cap_set (V3_Get c) AMBIENT)"
proof -
  have "EFFECTIVE AND CAPS = EFFECTIVE" "PERMITTED AND CAPS = PERMITTED"
    "INHERITABLE AND CAPS = INHERITABLE" "BOUNDING AND CAPS \<noteq> BOUNDING" "AMBIENT AND CAPS \<noteq> AMBIENT"
    by (simp_all add: capType_defs)
  then show ?thesis by (simp add: V3_Fill_sets single_kinds_def BOUNDS_def AMBS_def)
qed

text \<open>
  \<open>Clear\<close> on process capabilities empties each set whose bit the selector has, one by one,
  and touches no other set.
\<close>

theorem V3_Clear_exact:
  "\<forall>k \<in> single_kinds. cap_set (V3_Get (V3_Clear c w)) k =
     (if w AND k = k then {} else cap_set (V3_Get c) k)"
  by (simp add: V3_Clear_sets)

theorem V3_Clear_exact_witness:
  "cap_set (V3_Get (V3_Clear (V3_Fill zero_capsV3 CAPS) EFFECTIVE)) EFFECTIVE = {} \<and>
   cap_set (V3_Get (V3_Clear (V3_Fill zero_capsV3 CAPS) EFFECTIVE)) PERMITTED = {n. valid_cap n}"
proof -
  have "EFFECTIVE \<in> single_kinds" and "PERMITTED \<in> single_kinds" and "EFFECTIVE AND PERMITTED \<noteq> PERMITTED"
    and "PERMITTED AND CAPS = PERMITTED"
    by (simp_all add: single_kinds_def capType_defs)
  then show ?thesis
    using V3_Clear_exact [of "V3_Fill zero_capsV3 CAPS" EFFECTIVE] by (simp add: V3_Fill_sets)
qed

text \<open>A client's calls on process capabilities.\<close>

definition V3_run :: "cap_call list \<Rightarrow> capsV3 \<Rightarrow> capsV3 go" where
  "V3_run = foldE (call_on V3_Set V3_Unset V3_Fill V3_Clear)"

text \<open>
  C1. Process capabilities refine five sets of capabilities. After any sequence of calls of \<open>Set\<close>, \<open>Unset\<close>,
  \<open>Fill\<close> and \<open>Clear\<close>, with any selectors and capabilities in 0..63, nothing panicked, and \<open>Get\<close>, \<open>Empty\<close>
  and \<open>Full\<close> report for each set what the same calls do to the abstract sets.
\<close>

theorem V3_refines_sets:
  assumes "list_all (call_ok (\<lambda>_. True)) calls"
  shows "\<exists>c'. V3_run calls c = Inr c' \<and>
    (\<forall>k \<in> single_kinds. let S = fold (spec_call {n. valid_cap n}) calls (cap_set (V3_Get c)) k
       in (\<forall>n. valid_cap n \<longrightarrow> V3_Get c' k n = Inr (n \<in> S)) \<and> (V3_Empty c' k \<longleftrightarrow> S = {}) \<and>
          (V3_Full umask c' k \<longleftrightarrow> (\<forall>n. valid_cap n \<and> (n > 31 \<longrightarrow> bit umask (nat n - 32)) \<longrightarrow> n \<in> S)))"
  using v3.run_observed [where c = c and calls = calls and umask = umask] assms by (simp add: V3_run_def v3.room_def)

theorem V3_refines_sets_witness:
  "\<exists>c'. V3_run [CallFill CAPS, CallUnset EFFECTIVE [CAP_KILL], CallClear PERMITTED] zero_capsV3 = Inr c' \<and>
    V3_Get c' EFFECTIVE CAP_KILL = Inr False \<and> V3_Get c' EFFECTIVE CAP_BPF = Inr True \<and> V3_Empty c' PERMITTED"
proof -
  let ?calls = "[CallFill CAPS, CallUnset EFFECTIVE [CAP_KILL], CallClear PERMITTED]"
  have v: "valid_cap CAP_KILL" "valid_cap CAP_BPF" "CAP_KILL \<noteq> CAP_BPF" by (simp_all add: valid_cap_def cap_defs)
  have sel: "EFFECTIVE \<in> single_kinds" "PERMITTED \<in> single_kinds" "EFFECTIVE AND CAPS = EFFECTIVE"
    "PERMITTED AND EFFECTIVE \<noteq> EFFECTIVE" "EFFECTIVE AND EFFECTIVE \<noteq> 0" "EFFECTIVE \<noteq> INHERITABLE" "PERMITTED AND PERMITTED = PERMITTED"
    by (simp_all add: single_kinds_def capType_defs)
  have "list_all (call_ok (\<lambda>_. True)) ?calls" using v by (simp add: call_ok_def)
  from V3_refines_sets [OF this, where c = zero_capsV3 and umask = 0] obtain c' where run: "V3_run ?calls zero_capsV3 = Inr c'"
    and S: "\<And>k. k \<in> single_kinds \<Longrightarrow> let S = fold (spec_call {n. valid_cap n}) ?calls (cap_set (V3_Get zero_capsV3)) k
       in (\<forall>n. valid_cap n \<longrightarrow> V3_Get c' k n = Inr (n \<in> S)) \<and> (V3_Empty c' k \<longleftrightarrow> S = {}) \<and>
          (V3_Full 0 c' k \<longleftrightarrow> (\<forall>n. valid_cap n \<and> (n > 31 \<longrightarrow> bit (0 :: 32 word) (nat n - 32)) \<longrightarrow> n \<in> S))" by blast
  have E: "fold (spec_call {n. valid_cap n}) ?calls (cap_set (V3_Get zero_capsV3)) EFFECTIVE = {n. valid_cap n} - {CAP_KILL}"
    and P: "fold (spec_call {n. valid_cap n}) ?calls (cap_set (V3_Get zero_capsV3)) PERMITTED = {}"
    using sel by (simp_all add: spec_call_def)
  show ?thesis using run v S [OF sel(1)] S [OF sel(2)] unfolding E P Let_def by simp
qed

text \<open>One set as the text shows it.\<close>

definition V3_set_text :: "Cap \<Rightarrow> 32 word \<Rightarrow> capsV3 \<Rightarrow> CapFormat \<Rightarrow> CapType \<Rightarrow> string" where
  "V3_set_text last_cap umask c format k = '' '' @ CapType_String k @ ''=\"'' @
     (if V3_Empty c k then ''empty'' else if V3_Full umask c k then ''full''
      else str_join '', '' (map (cap_name format) (filter (\<lambda>n. n \<in> cap_set (V3_Get c) k) [0..last_cap]))) @ ''\"''"

text \<open>
  C32. The text of \<open>String\<close> on process capabilities: for each of the four sets it prints "empty",
  "full", or the names of the capabilities in the set in ascending order, and it always returns.
\<close>

theorem V3_String_text:
  assumes "last_cap \<le> 63"
  shows "V3_String last_cap umask c format =
    Some (Inr (''{'' @ concat (map (V3_set_text last_cap umask c format)
       [EFFECTIVE, PERMITTED, INHERITABLE, BOUNDING]) @ '' }''))"
proof -
  have "render_set (V3_Empty c) (V3_Full umask c) (\<lambda>i. V3_StringCap last_cap c i format) k ret =
      Inr (ret @ V3_set_text last_cap umask c format k)" if "k \<in> single_kinds" for k ret
    using that assms
    by (simp add: render_set_def V3_set_text_def V3_StringCap_def v3.stringcap_names)
  then show ?thesis
    by (simp add: V3_String_def mkString_sets single_kinds_def)
qed

theorem V3_String_text_witness:
  "V3_String 40 511 zero_capsV3 OCI_STRING =
    Some (Inr (''{'' @ concat (map (V3_set_text 40 511 zero_capsV3 OCI_STRING)
       [EFFECTIVE, PERMITTED, INHERITABLE, BOUNDING]) @ '' }''))"
  using V3_String_text [of 40 511 zero_capsV3 OCI_STRING] by simp

end
