(* ===== verification/CapVfs.thy ===== *)
theory CapVfs
  imports CapInterface
begin

text \<open>
  File capabilities on disk: \<open>vfscapData\<close> of \<open>capability/syscall_linux.go\<close> with its
  memory layout, and \<open>getVfsCap\<close> and \<open>setVfsCap\<close>, which hand that memory to the
  \<open>getxattr\<close> and \<open>setxattr\<close> system calls. The system calls are parameters; the
  bytes they read and write in the structure are modelled, little endian as on the platforms the
  package supports. The theorems are the round trip through the attribute and the error behaviour.
\<close>

section \<open>Layout\<close>

record vfsPerm =
  vpermitted :: "32 word"
  vinheritable :: "32 word"

text \<open>\<open>version\<close> is an \<open>int8\<close>.\<close>

record vfscapData =
  vmagic :: "32 word"
  vdata :: "vfsPerm arr2"
  veffective :: "32 word arr2"
  vversion :: "8 word"

definition zero_vfscapData :: vfscapData where
  "zero_vfscapData = \<lparr>vmagic = 0, vdata = Arr2 \<lparr>vpermitted = 0, vinheritable = 0\<rparr> \<lparr>vpermitted = 0, vinheritable = 0\<rparr>,
     veffective = Arr2 0 0, vversion = 0\<rparr>"

definition vfsCapVerMask :: "32 word" where "vfsCapVerMask = 0xff000000"
definition vfsCapVer1 :: "32 word" where "vfsCapVer1 = 0x01000000"
definition vfsCapVer2 :: "32 word" where "vfsCapVer2 = 0x02000000"
definition vfsCapFlageffective :: "32 word" where "vfsCapFlageffective = 0x000001"
definition vfscapDataSizeV1 :: nat where "vfscapDataSizeV1 = 4 * (1 + 2 * 1)"
definition vfscapDataSizeV2 :: nat where "vfscapDataSizeV2 = 4 * (1 + 2 * 2)"

lemmas vfs_consts [go_defs] = vfsCapVerMask_def vfsCapVer1_def vfsCapVer2_def vfsCapFlageffective_def
  vfscapDataSizeV1_def vfscapDataSizeV2_def

definition le_bytes :: "32 word \<Rightarrow> 8 word list" where
  "le_bytes w = [ucast w, ucast (drop_bit 8 w), ucast (drop_bit 16 w), ucast (drop_bit 24 w)]"

definition le_word :: "8 word list \<Rightarrow> 32 word" where
  "le_word bs = (case bs of
      [a, b, c, d] \<Rightarrow> ucast a OR push_bit 8 (ucast b) OR push_bit 16 (ucast c) OR push_bit 24 (ucast d)
    | _ \<Rightarrow> 0)"

text \<open>The first twenty bytes of the structure: magic, then the two pairs of words.\<close>

definition vfs_bytes :: "vfscapData \<Rightarrow> 8 word list" where
  "vfs_bytes d = le_bytes (vmagic d) @ le_bytes (vpermitted (at0 (vdata d))) @ le_bytes (vinheritable (at0 (vdata d)))
     @ le_bytes (vpermitted (at1 (vdata d))) @ le_bytes (vinheritable (at1 (vdata d)))"

text \<open>The structure after a system call wrote \<open>bs\<close> from its start on.\<close>

definition vfs_write :: "8 word list \<Rightarrow> vfscapData \<Rightarrow> vfscapData" where
  "vfs_write bs d =
    (let m = take 20 bs @ drop (length bs) (vfs_bytes d)
     in d\<lparr>vmagic := le_word (take 4 m),
          vdata := Arr2 \<lparr>vpermitted = le_word (take 4 (drop 4 m)), vinheritable = le_word (take 4 (drop 8 m))\<rparr>
                        \<lparr>vpermitted = le_word (take 4 (drop 12 m)), vinheritable = le_word (take 4 (drop 16 m))\<rparr>\<rparr>)"

section \<open>getVfsCap and setVfsCap\<close>

type_synonym errno = nat

definition EINVAL :: errno where "EINVAL = 22"
definition ENODATA :: errno where "ENODATA = 61"

text \<open>
  \<open>getxattr path\<close> is the system call on the capability attribute of \<open>path\<close> with the
  structure as its 20-byte buffer: an error number, or the bytes it wrote. A failing call returns
  -1 as its size, which is none of the two sizes the code accepts. \<open>syscall.BytePtrFromString\<close> fails on a path
  with a NUL byte. The result is the returned error and the structure afterwards.
\<close>

definition getVfsCap ::
  "(string \<Rightarrow> errno + 8 word list) \<Rightarrow> string \<Rightarrow> vfscapData \<Rightarrow> errno option \<times> vfscapData" where
  "getVfsCap getxattr path dest =
    (if CHR 0x00 \<in> set path then (Some EINVAL, dest)
     else
       let (r0, e1, dest) = (case getxattr path of
              Inl e \<Rightarrow> (2 ^ 64 - 1, e, dest)
            | Inr bs \<Rightarrow> (length bs, 0, vfs_write bs dest))
       in if e1 = ENODATA then (None, dest\<lparr>vversion := 2\<rparr>)
          else
            let err = (if e1 \<noteq> 0 then Some e1 else None);
                finish = (\<lambda>d. (err,
                  if vmagic d AND vfsCapFlageffective \<noteq> 0
                  then d\<lparr>veffective := Arr2 (vpermitted (at0 (vdata d)) OR vinheritable (at0 (vdata d)))
                                            (vpermitted (at1 (vdata d)) OR vinheritable (at1 (vdata d)))\<rparr>
                  else d\<lparr>veffective := Arr2 0 0\<rparr>))
            in if vmagic dest AND vfsCapVerMask = vfsCapVer1
               then (let d = dest\<lparr>vversion := 1\<rparr>
                     in if r0 \<noteq> vfscapDataSizeV1 then (Some EINVAL, d)
                        else finish (d\<lparr>vdata := Arr2 (at0 (vdata d)) \<lparr>vpermitted = 0, vinheritable = 0\<rparr>\<rparr>))
               else if vmagic dest AND vfsCapVerMask = vfsCapVer2
               then (let d = dest\<lparr>vversion := 2\<rparr>
                     in if r0 \<noteq> vfscapDataSizeV2 then (Some EINVAL, d) else finish d)
               else (Some EINVAL, dest))"

text \<open>
  \<open>setxattr path bs s\<close> is the system call that stores the first \<open>size\<close> bytes of the
  structure: the error number (0 for none) and the new state of the file system.
\<close>

definition setVfsCap ::
  "(string \<Rightarrow> 8 word list \<Rightarrow> 's \<Rightarrow> errno \<times> 's) \<Rightarrow> string \<Rightarrow> vfscapData \<Rightarrow> 's \<Rightarrow>
   errno option \<times> vfscapData \<times> 's" where
  "setVfsCap setxattr path d s =
    (if CHR 0x00 \<in> set path then (Some EINVAL, d, s)
     else
       let finish = (\<lambda>size d. let (e1, s') = setxattr path (take size (vfs_bytes d)) s
                               in (if e1 \<noteq> 0 then Some e1 else None, d, s'))
       in if vversion d = 1 then finish vfscapDataSizeV1 (d\<lparr>vmagic := vfsCapVer1\<rparr>)
          else if vversion d = 2 then
            finish vfscapDataSizeV2
              (d\<lparr>vmagic := (if at0 (veffective d) \<noteq> 0 \<or> at1 (veffective d) \<noteq> 0
                            then vfsCapVer2 OR vfsCapFlageffective else vfsCapVer2)\<rparr>)
          else (Some EINVAL, d, s))"

section \<open>Layout lemmas\<close>

lemma le_word_le_bytes [simp]: "le_word (le_bytes w) = w"
proof (rule bit_word_eqI)
  fix n assume n: "n < LENGTH(32)"
  consider "n < 8" | "8 \<le> n" "n < 16" | "16 \<le> n" "n < 24" | "24 \<le> n" by linarith
  then show "bit (le_word (le_bytes w)) n \<longleftrightarrow> bit w n"
    using n by cases (simp_all add: le_word_def le_bytes_def bit_simps less_diff_conv2)
qed

lemma length_le_bytes [simp]: "length (le_bytes w) = 4"
  by (simp add: le_bytes_def)

lemma length_vfs_bytes [simp]: "length (vfs_bytes d) = 20"
  by (simp add: vfs_bytes_def)

text \<open>Writing the bytes of one structure over another, in full and the first twelve only.\<close>

lemma vfs_write_all:
  "vfs_write (vfs_bytes e) d = d\<lparr>vmagic := vmagic e, vdata := vdata e\<rparr>"
  by (cases "vdata e"; cases "at0 (vdata e)"; cases "at1 (vdata e)")
    (simp add: vfs_write_def vfs_bytes_def Let_def)

lemma vfs_write_12:
  "vfs_write (take 12 (vfs_bytes e)) d = d\<lparr>vmagic := vmagic e, vdata := Arr2 (at0 (vdata e)) (at1 (vdata d))\<rparr>"
  by (cases "at0 (vdata e)"; cases "at1 (vdata d)")
    (simp add: vfs_write_def vfs_bytes_def Let_def min_def)

lemma vfs_bytes_take_12:
  "take 12 (vfs_bytes (d\<lparr>vmagic := m\<rparr>)) = take 12 (vfs_bytes (e\<lparr>vmagic := m, vdata := Arr2 (at0 (vdata d)) x\<rparr>))"
  by (simp add: vfs_bytes_def)

lemma magic_simps [simp]:
  "vfsCapVer1 AND vfsCapVerMask = vfsCapVer1" "vfsCapVer2 AND vfsCapVerMask = vfsCapVer2"
  "(vfsCapVer2 OR vfsCapFlageffective) AND vfsCapVerMask = vfsCapVer2"
  "vfsCapVer1 AND vfsCapFlageffective = 0" "vfsCapVer2 AND vfsCapFlageffective = 0"
  "vfsCapFlageffective \<noteq> 0" "vfsCapVer1 \<noteq> vfsCapVer2"
  "vfsCapVer2 \<noteq> vfsCapVer1"
  by (simp_all add: vfs_consts)

text \<open>What a structure reads back as after it was stored.\<close>

definition vfs_effective_back :: "vfscapData \<Rightarrow> 32 word arr2" where
  "vfs_effective_back d =
    (if vversion d = 2 \<and> (at0 (veffective d) \<noteq> 0 \<or> at1 (veffective d) \<noteq> 0)
     then Arr2 (vpermitted (at0 (vdata d)) OR vinheritable (at0 (vdata d)))
               (vpermitted (at1 (vdata d)) OR vinheritable (at1 (vdata d)))
     else Arr2 0 0)"

definition vfs_data_back :: "vfscapData \<Rightarrow> vfsPerm arr2" where
  "vfs_data_back d =
    (if vversion d = 1 then Arr2 (at0 (vdata d)) \<lparr>vpermitted = 0, vinheritable = 0\<rparr> else vdata d)"

lemma vfs_set_get:
  assumes store: "\<And>bs. fst (setxattr path bs s) = 0 \<and> getxattr (snd (setxattr path bs s)) path = Inr bs"
    and path: "CHR 0x00 \<notin> set path" and version: "vversion d = 1 \<or> vversion d = 2"
  shows "\<exists>d1 s1 d2. setVfsCap setxattr path d s = (None, d1, s1) \<and>
    getVfsCap (getxattr s1) path dest = (None, d2) \<and> vversion d2 = vversion d \<and>
    vdata d2 = vfs_data_back d \<and> veffective d2 = vfs_effective_back d"
proof -
  have sx: "\<exists>s1. setxattr path bs s = (0, s1) \<and> getxattr s1 path = Inr bs" for bs
    using store [of bs] by (metis prod.collapse)
  from version show ?thesis
  proof
    assume v: "vversion d = 1"
    let ?d = "d\<lparr>vmagic := vfsCapVer1\<rparr>"
    let ?e = "?d\<lparr>vdata := Arr2 (at0 (vdata d)) (at1 (vdata dest))\<rparr>"
    obtain s1 where "setxattr path (take 12 (vfs_bytes ?d)) s = (0, s1)"
      and g: "getxattr s1 path = Inr (take 12 (vfs_bytes ?d))" using sx by blast
    then have "setVfsCap setxattr path d s = (None, ?d, s1)"
      using v path by (simp add: setVfsCap_def vfscapDataSizeV1_def)
    moreover have "getVfsCap (getxattr s1) path dest =
       (None, dest\<lparr>vmagic := vfsCapVer1, vversion := 1, vdata := vfs_data_back d, veffective := Arr2 0 0\<rparr>)"
      using g path v by (simp add: getVfsCap_def vfs_write_12 ENODATA_def vfscapDataSizeV1_def
          vfs_data_back_def min_def)
    ultimately show ?thesis using v by (simp add: vfs_effective_back_def)
  next
    assume v: "vversion d = 2"
    let ?m = "if at0 (veffective d) \<noteq> 0 \<or> at1 (veffective d) \<noteq> 0
              then vfsCapVer2 OR vfsCapFlageffective else vfsCapVer2"
    let ?d = "d\<lparr>vmagic := ?m\<rparr>"
    obtain s1 where "setxattr path (vfs_bytes ?d) s = (0, s1)"
      and g: "getxattr s1 path = Inr (vfs_bytes ?d)" using sx by blast
    then have "setVfsCap setxattr path d s = (None, ?d, s1)"
      using v path by (simp add: setVfsCap_def vfscapDataSizeV2_def)
    moreover have "getVfsCap (getxattr s1) path dest =
       (None, dest\<lparr>vmagic := ?m, vversion := 2, vdata := vdata d, veffective := vfs_effective_back d\<rparr>)"
      using g path v by (simp add: getVfsCap_def vfs_write_all ENODATA_def vfscapDataSizeV2_def
          vfs_effective_back_def)
    ultimately show ?thesis using v by (simp add: vfs_data_back_def)
  qed
qed

section \<open>Properties\<close>

text \<open>A store that keeps one attribute per path satisfies the hypothesis.\<close>

definition map_setxattr :: "string \<Rightarrow> 8 word list \<Rightarrow> (string \<rightharpoonup> 8 word list) \<Rightarrow> errno \<times> (string \<rightharpoonup> 8 word list)" where
  "map_setxattr path bs m = (0, m(path \<mapsto> bs))"

definition map_getxattr :: "(string \<rightharpoonup> 8 word list) \<Rightarrow> string \<Rightarrow> errno + 8 word list" where
  "map_getxattr m path = (case m path of None \<Rightarrow> Inl ENODATA | Some bs \<Rightarrow> Inr bs)"

text \<open>
  C24. File capabilities survive the round trip through the extended attribute. On a file system whose
  \<open>getxattr\<close> returns the bytes that \<open>setxattr\<close> stored, \<open>setVfsCap\<close> followed by
  \<open>getVfsCap\<close> into any structure succeeds, keeps the version, the permitted and the inheritable
  words (only the lower ones for version 1), and reads back as the effective set the union of the two
  when the stored structure was version 2 with a nonempty effective set, and the empty set otherwise.
\<close>

theorem vfsCap_roundtrip:
  assumes store: "\<And>bs. fst (setxattr path bs s) = 0 \<and> getxattr (snd (setxattr path bs s)) path = Inr bs"
    and path: "CHR 0x00 \<notin> set path" and version: "vversion d = 1 \<or> vversion d = 2"
  shows "\<exists>d1 s1 d2. setVfsCap setxattr path d s = (None, d1, s1) \<and>
    getVfsCap (getxattr s1) path dest = (None, d2) \<and> vversion d2 = vversion d \<and>
    vdata d2 = vfs_data_back d \<and> veffective d2 = vfs_effective_back d"
  by (rule vfs_set_get) (use assms in auto)

theorem vfsCap_roundtrip_witness:
  "\<exists>d1 s1 d2. setVfsCap map_setxattr ''/bin/ping'' (zero_vfscapData\<lparr>vversion := 2\<rparr>) (\<lambda>_. None) = (None, d1, s1) \<and>
    getVfsCap (map_getxattr s1) ''/bin/ping'' zero_vfscapData = (None, d2) \<and> vversion d2 = 2"
  using vfsCap_roundtrip [of map_setxattr "''/bin/ping''" "\<lambda>_. None" map_getxattr
      "zero_vfscapData\<lparr>vversion := 2\<rparr>" zero_vfscapData]
  by (auto simp: map_setxattr_def map_getxattr_def)

text \<open>
  C39. The error of \<open>getVfsCap\<close>: whatever the kernel answers, the only error it can return is
  EINVAL. A failing \<open>getxattr\<close> with any error number but ENODATA is reported as EINVAL, and
  ENODATA is no error and leaves all words of the structure as they were.
\<close>

theorem getVfsCap_errors:
  "fst (getVfsCap getxattr path dest) \<in> {None, Some EINVAL} \<and>
   (CHR 0x00 \<notin> set path \<longrightarrow> getxattr path = Inl e \<longrightarrow> e \<noteq> 0 \<longrightarrow>
      (if e = ENODATA then getVfsCap getxattr path dest = (None, dest\<lparr>vversion := 2\<rparr>)
       else fst (getVfsCap getxattr path dest) = Some EINVAL))"
proof -
  have "2 ^ 64 - 1 \<noteq> vfscapDataSizeV1" "2 ^ 64 - 1 \<noteq> vfscapDataSizeV2" by (simp_all add: vfs_consts)
  then show ?thesis
    by (cases "getxattr path") (simp_all add: getVfsCap_def Let_def)
qed

theorem getVfsCap_errors_witness:
  "fst (getVfsCap (\<lambda>_. Inl 2) ''/no/such/file'' zero_vfscapData) = Some EINVAL"
  using getVfsCap_errors [of "\<lambda>_. Inl 2" "''/no/such/file''" zero_vfscapData 2] by (simp add: ENODATA_def)

end
