(* ===== verification/GoScan.thy ===== *)
theory GoScan
  imports GoStrings
begin

text \<open>
  Go's \<open>fmt.Sscanf\<close> for the verbs the repository uses (\<open>%d\<close>, \<open>%s\<close>,
  \<open>%08x\<close>), spaces and literal characters in the format. A scan returns the values stored
  before it stopped and whether it consumed the whole format, because one caller ignores the error
  and keeps what was stored. Literal and space matching follow \<open>advance\<close>, the verbs
  \<open>SkipSpace\<close>, \<open>scanNumber\<close> and \<open>convertString\<close> of that package.
\<close>

datatype fmt_item = FSpace | FLit char | FInt | FStr | FHex nat

datatype scan_val = VInt int | VStr string | VHex nat

definition blank :: "char \<Rightarrow> bool" where
  "blank c \<longleftrightarrow> is_space c \<and> c \<noteq> CHR 0x0A"

text \<open>\<open>SkipSpace\<close> in \<open>Sscanf\<close>: a newline is an error, the end of input is left to the verb.\<close>

definition skip_space :: "string \<Rightarrow> string option" where
  "skip_space s = (case dropWhile blank s of
      [] \<Rightarrow> Some []
    | c # r \<Rightarrow> if c = CHR 0x0A then None else Some (c # r))"

definition is_hex :: "char \<Rightarrow> bool" where
  "is_hex c \<longleftrightarrow> is_digit c \<or> (97 \<le> (of_char c :: nat) \<and> (of_char c :: nat) \<le> 102)
     \<or> (65 \<le> (of_char c :: nat) \<and> (of_char c :: nat) \<le> 70)"

definition hex_val :: "char \<Rightarrow> nat" where
  "hex_val c = (if is_digit c then digit_val c
     else if 97 \<le> (of_char c :: nat) then of_char c - 87 else of_char c - 55)"

definition hex_value :: "string \<Rightarrow> nat" where
  "hex_value s = foldl (\<lambda>a c. 16 * a + hex_val c) 0 s"

text \<open>A \<open>%d\<close> into an \<open>int\<close>: sign, then at least one digit, in range.\<close>

definition scan_int :: "string \<Rightarrow> (int \<times> string) option" where
  "scan_int s =
    (let sgn = (s \<noteq> [] \<and> (hd s = CHR ''-'' \<or> hd s = CHR ''+''));
         r = (if sgn then tl s else s);
         ds = takeWhile is_digit r
     in case Atoi ((if sgn then [hd s] else []) @ ds) of
          None \<Rightarrow> None
        | Some x \<Rightarrow> Some (x, dropWhile is_digit r))"

definition scan_hex :: "nat \<Rightarrow> string \<Rightarrow> (nat \<times> string) option" where
  "scan_hex w s =
    (let ds = takeWhile is_hex (take w s)
     in if ds = [] then None else Some (hex_value ds, drop (length ds) s))"

definition scan_word :: "string \<Rightarrow> (string \<times> string) option" where
  "scan_word s =
    (if s = [] then None
     else Some (takeWhile (\<lambda>c. \<not> is_space c) s, dropWhile (\<lambda>c. \<not> is_space c) s))"

definition scan_verb :: "fmt_item \<Rightarrow> string \<Rightarrow> (scan_val \<times> string) option" where
  "scan_verb v s = (case skip_space s of
      None \<Rightarrow> None
    | Some r \<Rightarrow>
        (case v of
           FInt \<Rightarrow> map_option (apfst VInt) (scan_int r)
         | FStr \<Rightarrow> map_option (apfst VStr) (scan_word r)
         | FHex w \<Rightarrow> map_option (apfst VHex) (scan_hex w r)
         | _ \<Rightarrow> None))"

text \<open>
  A run of spaces in the format needs a space in the input, or its end, and consumes the run of
  spaces there; a newline does not match it.
\<close>

definition match_space :: "string \<Rightarrow> string option" where
  "match_space s = (case s of
      [] \<Rightarrow> Some []
    | c # _ \<Rightarrow> if blank c then Some (dropWhile blank s) else None)"

fun sscanf :: "fmt_item list \<Rightarrow> string \<Rightarrow> scan_val list \<times> bool" where
  "sscanf [] s = ([], True)"
| "sscanf (FSpace # f) s = (case match_space s of None \<Rightarrow> ([], False) | Some r \<Rightarrow> sscanf f r)"
| "sscanf (FLit c # f) s =
     (case s of [] \<Rightarrow> ([], False) | d # r \<Rightarrow> if d = c then sscanf f r else ([], False))"
| "sscanf (v # f) s =
     (case scan_verb v s of
        None \<Rightarrow> ([], False)
      | Some (x, r) \<Rightarrow> (let (xs, ok) = sscanf f r in (x # xs, ok)))"

section \<open>Scanning what was printed\<close>

named_theorems scan_simps \<open>one step of a scan over printed text\<close>

definition not_digit_start :: "string \<Rightarrow> bool" where
  "not_digit_start s \<longleftrightarrow> (s = [] \<or> \<not> is_digit (hd s))"

definition space_start :: "string \<Rightarrow> bool" where
  "space_start s \<longleftrightarrow> (s = [] \<or> is_space (hd s))"

definition no_space :: "string \<Rightarrow> bool" where
  "no_space s \<longleftrightarrow> s \<noteq> [] \<and> list_all (\<lambda>c. \<not> is_space c) s"

lemma starts_simps [scan_simps]:
  "not_digit_start []" "not_digit_start (c # s) \<longleftrightarrow> \<not> is_digit c"
  "space_start []" "space_start (c # s) \<longleftrightarrow> is_space c"
  by (simp_all add: not_digit_start_def space_start_def)

lemma blank_is_space: "blank c \<Longrightarrow> is_space c"
  by (simp add: blank_def)

lemma skip_space_id: "s \<noteq> [] \<Longrightarrow> \<not> is_space (hd s) \<Longrightarrow> skip_space s = Some s"
  by (cases s) (auto simp: skip_space_def blank_def is_space_def)

lemma takeWhile_digits: "list_all is_digit ds \<Longrightarrow> not_digit_start r \<Longrightarrow> takeWhile is_digit (ds @ r) = ds"
  by (induction ds) (cases r; auto simp: not_digit_start_def)+

lemma dropWhile_digits: "list_all is_digit ds \<Longrightarrow> not_digit_start r \<Longrightarrow> dropWhile is_digit (ds @ r) = r"
  by (induction ds) (cases r; auto simp: not_digit_start_def)+

lemma scan_int_show_nat:
  assumes "n < 2 ^ 63" and "not_digit_start r"
  shows "scan_int (show_nat n @ r) = Some (int n, r)"
proof -
  obtain d ds where ds: "show_nat n = d # ds" by (cases "show_nat n") simp_all
  then have "d \<noteq> CHR ''-''" and "d \<noteq> CHR ''+''"
    using show_nat_hd [of n] digit_not_special [of d] by simp_all
  moreover have "takeWhile is_digit (d # ds @ r) = d # ds" and "dropWhile is_digit (d # ds @ r) = r"
    using takeWhile_digits [OF show_nat_is_digits [of n] assms(2)]
      dropWhile_digits [OF show_nat_is_digits [of n] assms(2)] ds by simp_all
  moreover have "Atoi (d # ds) = Some (int n)"
    using Atoi_show_nat [OF assms(1)] ds by simp
  ultimately show ?thesis
    unfolding scan_int_def Let_def ds by (simp del: takeWhile.simps dropWhile.simps)
qed

lemma scan_verb_show_nat [scan_simps]:
  "n < 2 ^ 63 \<Longrightarrow> not_digit_start r \<Longrightarrow> scan_verb FInt (show_nat n @ r) = Some (VInt (int n), r)"
  using show_nat_hd [of n] digit_not_special [of "hd (show_nat n)"]
  by (simp add: scan_verb_def skip_space_id scan_int_show_nat)

lemma scan_verb_word [scan_simps]:
  assumes "no_space w" and "space_start r"
  shows "scan_verb FStr (w @ r) = Some (VStr w, r)"
proof -
  from assms have "\<forall>c \<in> set w. \<not> is_space c" by (simp add: no_space_def list_all_iff)
  moreover from assms have "r = [] \<or> is_space (hd r)" by (simp add: space_start_def)
  ultimately have "takeWhile (\<lambda>c. \<not> is_space c) (w @ r) = w"
    and "dropWhile (\<lambda>c. \<not> is_space c) (w @ r) = r"
    by (cases r; simp)+
  moreover have "skip_space (w @ r) = Some (w @ r)"
    using assms by (cases w) (simp_all add: no_space_def skip_space_id)
  ultimately show ?thesis using assms by (simp add: scan_verb_def scan_word_def no_space_def)
qed

lemma match_space_one [scan_simps]:
  "s \<noteq> [] \<Longrightarrow> \<not> is_space (hd s) \<Longrightarrow> match_space (CHR '' '' # s) = Some s"
  by (cases s) (auto simp: match_space_def blank_def is_space_def)

section \<open>Hexadecimal words\<close>

text \<open>\<open>%0kx\<close> of the low \<open>k\<close> hexadecimal digits of a number, as the kernel prints masks.\<close>

definition hex_char :: "nat \<Rightarrow> char" where
  "hex_char d = (if d < 10 then digit_char d else char_of (87 + d))"

fun show_hex :: "nat \<Rightarrow> nat \<Rightarrow> string" where
  "show_hex 0 n = []"
| "show_hex (Suc k) n = show_hex k (n div 16) @ [hex_char (n mod 16)]"

lemma length_show_hex [simp]: "length (show_hex k n) = k"
  by (induction k arbitrary: n) simp_all

lemma hex_char_props:
  assumes "d < 16"
  shows "is_hex (hex_char d)" and "hex_val (hex_char d) = d"
proof -
  have "(of_char (char_of (87 + d) :: char) :: nat) = 87 + d" using assms by simp
  then show "is_hex (hex_char d)" and "hex_val (hex_char d) = d"
    using assms by (auto simp: hex_char_def is_hex_def hex_val_def is_digit_def of_char_digit_char)
qed

lemma show_hex_all: "c \<in> set (show_hex k n) \<Longrightarrow> is_hex c"
  by (induction k arbitrary: n) (auto simp: hex_char_props)

lemma hex_value_snoc: "hex_value (s @ [c]) = 16 * hex_value s + hex_val c"
  by (simp add: hex_value_def)

lemma hex_value_show_hex: "n < 16 ^ k \<Longrightarrow> hex_value (show_hex k n) = n"
proof (induction k arbitrary: n)
  case (Suc k)
  then have "n div 16 < 16 ^ k" by (intro less_mult_imp_div_less) (simp add: mult.commute)
  then have "hex_value (show_hex k (n div 16)) = n div 16" by (rule Suc.IH)
  moreover have "hex_val (hex_char (n mod 16)) = n mod 16" by (intro hex_char_props) simp
  ultimately show ?case by (simp only: show_hex.simps hex_value_snoc) simp
qed (simp add: hex_value_def)

lemma is_hex_not_space: "is_hex c \<Longrightarrow> \<not> is_space c"
  by (auto simp: is_hex_def is_space_def is_digit_def)

lemma scan_verb_hex [scan_simps]:
  assumes "0 < k" and "n < 16 ^ k"
  shows "scan_verb (FHex k) (show_hex k n @ r) = Some (VHex n, r)"
proof -
  have "\<forall>c \<in> set (show_hex k n). is_hex c" using show_hex_all by blast
  moreover obtain c cs where cs: "show_hex k n = c # cs"
    using assms(1) length_show_hex [of k n] by (cases "show_hex k n") auto
  ultimately have "skip_space (show_hex k n @ r) = Some (show_hex k n @ r)"
    by (simp add: skip_space_id is_hex_not_space)
  moreover have "takeWhile is_hex (take k (show_hex k n @ r)) = show_hex k n"
    using show_hex_all by (simp add: takeWhile_eq_all_conv)
  ultimately show ?thesis using assms hex_value_show_hex [of n k] cs
    by (simp add: scan_verb_def scan_hex_def Let_def)
qed

section \<open>bufio.Scanner\<close>

text \<open>
  The tokens of a line scanner over a file of which \<open>content\<close> was delivered before \<open>read_err\<close> (or the
  end of file) came, each with what \<open>Err\<close> returns right after it. The line feed and a carriage
  return before it are dropped. A rest without line feed is a token too, and the only one seen with
  the read error. A line that does not fit the 64 KiB buffer ends the scan. What \<open>Err\<close> would
  return after the last token is not part of it: no caller in the repository asks.
\<close>

definition drop_CR :: "string \<Rightarrow> string" where
  "drop_CR l = TrimSuffix l [CHR 0x0D]"

definition scanner_tokens :: "string \<Rightarrow> 'e option \<Rightarrow> (string \<times> 'e option) list" where
  "scanner_tokens content read_err =
    (let ls = split_on (CHR 0x0A) content;
         toks = map (\<lambda>l. (l, None)) (butlast ls) @ (if last ls = [] then [] else [(last ls, read_err)])
     in map (apfst drop_CR) (takeWhile (\<lambda>(l, _). length l < 65536) toks))"

text \<open>A file of short lines, each ended by a line feed, yields its lines.\<close>

definition plain_line :: "string \<Rightarrow> bool" where
  "plain_line l \<longleftrightarrow> CHR 0x0A \<notin> set l \<and> CHR 0x0D \<notin> set l \<and> length l < 65536"

definition unlines :: "string list \<Rightarrow> string" where
  "unlines ls = concat (map (\<lambda>l. l @ [CHR 0x0A]) ls)"

lemma split_on_lines:
  "list_all (\<lambda>l. c \<notin> set l) ls \<Longrightarrow> split_on c (concat (map (\<lambda>l. l @ [c]) ls)) = ls @ [[]]"
  by (induction ls) (simp_all add: split_on_append_sep)

lemma drop_CR_plain: "CHR 0x0D \<notin> set l \<Longrightarrow> drop_CR l = l"
proof -
  assume a: "CHR 0x0D \<notin> set l"
  have "\<not> HasSuffix l [CHR 0x0D]"
  proof
    assume "HasSuffix l [CHR 0x0D]"
    then have "CHR 0x0D \<in> set (drop (length l - length [CHR 0x0D]) l)" by (simp add: HasSuffix_def)
    then show False using a by (metis in_set_dropD)
  qed
  then show ?thesis by (simp add: drop_CR_def TrimSuffix_def)
qed

lemma scanner_tokens_unlines:
  fixes e :: "'e option"
  assumes "list_all plain_line ls"
  shows "scanner_tokens (unlines ls) e = map (\<lambda>l. (l, None)) ls"
proof -
  have sp: "split_on (CHR 0x0A) (unlines ls) = ls @ [[]]"
    using assms unfolding unlines_def by (intro split_on_lines) (auto simp: list_all_iff plain_line_def)
  have tw: "takeWhile (\<lambda>(l, _). length l < 65536) (map (\<lambda>l. (l, None :: 'e option)) ls) = map (\<lambda>l. (l, None)) ls"
    using assms by (auto simp: takeWhile_eq_all_conv list_all_iff plain_line_def)
  have "map (apfst drop_CR) (map (\<lambda>l. (l, None :: 'e option)) ls) = map (\<lambda>l. (l, None)) ls"
    using assms by (auto simp: drop_CR_plain list_all_iff plain_line_def)
  then show ?thesis by (simp add: scanner_tokens_def sp tw)
qed

end
