(* ===== verification/CapProcess.thy ===== *)
theory CapProcess
  imports CapsV3 CapVfs GoScan
begin

text \<open>
  The part of \<open>capability/capability_linux.go\<close> that talks to the kernel: the package globals and
  \<open>initialize\<close>, the creation of process capability objects, \<open>Load\<close>, \<open>LoadOriginal\<close>
  and \<open>Apply\<close>, over the wrappers \<open>capget\<close>, \<open>capset\<close> and \<open>prctl\<close> of
  \<open>syscall_linux.go\<close>. The system calls are fields of a record over a kernel state that the model
  does not look into.
\<close>

section \<open>System calls\<close>

text \<open>
  Each call returns its error number, 0 for none. \<open>capget\<close> may write the header (it stores its
  preferred version there) and the two data words; it is called once without a data pointer.
\<close>

record 'k cap_sys =
  sys_capget_nil :: "capHeader \<Rightarrow> 'k \<Rightarrow> errno \<times> capHeader"
  sys_capget :: "capHeader \<Rightarrow> capData arr2 \<Rightarrow> 'k \<Rightarrow> errno \<times> capHeader \<times> capData arr2"
  sys_capset :: "capHeader \<Rightarrow> capData arr2 \<Rightarrow> 'k \<Rightarrow> errno \<times> 'k"
  sys_prctl :: "nat \<Rightarrow> nat \<Rightarrow> nat \<Rightarrow> nat \<Rightarrow> nat \<Rightarrow> 'k \<Rightarrow> errno \<times> 'k"

definition err_of :: "errno \<Rightarrow> errno option" where
  "err_of e1 = (if e1 \<noteq> 0 then Some e1 else None)"

definition capget_nil :: "'k cap_sys \<Rightarrow> capHeader \<Rightarrow> 'k \<Rightarrow> errno option \<times> capHeader" where
  "capget_nil sys h k = (let (e1, h') = sys_capget_nil sys h k in (err_of e1, h'))"

definition capget ::
  "'k cap_sys \<Rightarrow> capHeader \<Rightarrow> capData arr2 \<Rightarrow> 'k \<Rightarrow> errno option \<times> capHeader \<times> capData arr2" where
  "capget sys h d k = (let (e1, h', d') = sys_capget sys h d k in (err_of e1, h', d'))"

definition capset :: "'k cap_sys \<Rightarrow> capHeader \<Rightarrow> capData arr2 \<Rightarrow> 'k \<Rightarrow> errno option \<times> 'k" where
  "capset sys h d k = (let (e1, k') = sys_capset sys h d k in (err_of e1, k'))"

definition prctl :: "'k cap_sys \<Rightarrow> nat \<Rightarrow> nat \<Rightarrow> nat \<Rightarrow> nat \<Rightarrow> nat \<Rightarrow> 'k \<Rightarrow> errno option \<times> 'k" where
  "prctl sys opt arg2 arg3 arg4 arg5 k = (let (e1, k') = sys_prctl sys opt arg2 arg3 arg4 arg5 k in (err_of e1, k'))"

definition pr_CAP_AMBIENT :: nat where "pr_CAP_AMBIENT = 47"
definition pr_CAP_AMBIENT_RAISE :: nat where "pr_CAP_AMBIENT_RAISE = 2"
definition pr_CAP_AMBIENT_LOWER :: nat where "pr_CAP_AMBIENT_LOWER = 3"
definition PR_CAPBSET_DROP :: nat where "PR_CAPBSET_DROP = 24"

section \<open>Package state\<close>

definition linuxCapVer1 :: "32 word" where "linuxCapVer1 = 0x19980330"
definition linuxCapVer2 :: "32 word" where "linuxCapVer2 = 0x20071026"
definition linuxCapVer3 :: "32 word" where "linuxCapVer3 = 0x20080522"

record capGlobals =
  capVers :: "32 word"
  capLastCap :: Cap
  CAP_LAST_CAP :: Cap
  capUpperMask :: "32 word"
  pkgInitialized :: bool

definition globals0 :: capGlobals where
  "globals0 = \<lparr>capVers = 0, capLastCap = 0, CAP_LAST_CAP = 63, capUpperMask = NOT 0, pkgInitialized = False\<rparr>"

text \<open>
  \<open>initLastCap\<close> reads at most 11 bytes of \<open>/proc/sys/kernel/cap_last_cap\<close> into a buffer
  of zeros and scans a number; \<open>None\<close> is a file that cannot be opened or read, and reading an
  empty one ends with an error too. The error of the scan is dropped. The flag says that the function returned no error.
\<close>

definition initLastCap :: "string option \<Rightarrow> capGlobals \<Rightarrow> capGlobals \<times> bool" where
  "initLastCap proc_file g =
    (if capLastCap g \<noteq> 0 then (g, True)
     else case proc_file of
         None \<Rightarrow> (g, False)
       | Some content \<Rightarrow>
         if content = [] then (g, False)
         else
           let b = take 11 content @ replicate (11 - length content) (CHR 0x00)
           in case fst (sscanf [FInt] b) of
                [VInt n] \<Rightarrow> (g\<lparr>capLastCap := n\<rparr>, True)
              | _ \<Rightarrow> (g, True))"

definition initialize :: "'k cap_sys \<Rightarrow> 'k \<Rightarrow> string option \<Rightarrow> capGlobals \<Rightarrow> capGlobals" where
  "initialize sys k proc_file g =
    (let (_, h) = capget_nil sys \<lparr>version = 0, pid = 0\<rparr> k;
         (g1, ok) = initLastCap proc_file (g\<lparr>capVers := version h\<rparr>);
         g2 = (if ok then
                 g1\<lparr>CAP_LAST_CAP := capLastCap g1,
                    capUpperMask := (if capLastCap g1 > 31
                       then shl1 (uint_of_int (capLastCap g1) - 31) - 1 else 0)\<rparr>
               else g1)
     in g2\<lparr>pkgInitialized := True\<rparr>)"

text \<open>\<open>None\<close> is \<open>errUnknownVers\<close>; the \<open>int\<close> pid is cut to an \<open>int32\<close>.\<close>

definition newPid :: "'k cap_sys \<Rightarrow> 'k \<Rightarrow> string option \<Rightarrow> int \<Rightarrow> capGlobals \<Rightarrow> capGlobals \<times> capsV3 option" where
  "newPid sys k proc_file p g =
    (let g = (if pkgInitialized g then g else initialize sys k proc_file g)
     in (g, if capVers g = linuxCapVer2 \<or> capVers g = linuxCapVer3
            then Some (zero_capsV3\<lparr>hdr := \<lparr>version = capVers g, pid = word_of_int p\<rparr>\<rparr>) else None))"

definition V3_Load :: "'k cap_sys \<Rightarrow> capsV3 \<Rightarrow> 'k \<Rightarrow> errno option \<times> capsV3" where
  "V3_Load sys c k =
    (let (err, h, d) = capget sys (hdr c) (data c) k in (err, c\<lparr>hdr := h, data := d\<rparr>))"

text \<open>
  \<open>NewPid\<close> creates and loads; \<open>NewPid2\<close> only creates. The error is \<open>Inl ()\<close> for an
  unknown version and \<open>Inr e\<close> for a failed load.
\<close>

definition NewPid ::
  "'k cap_sys \<Rightarrow> 'k \<Rightarrow> string option \<Rightarrow> int \<Rightarrow> capGlobals \<Rightarrow> capGlobals \<times> capsV3 option \<times> (unit + errno) option" where
  "NewPid sys k proc_file p g =
    (case newPid sys k proc_file p g of
       (g', None) \<Rightarrow> (g', None, Some (Inl ()))
     | (g', Some c) \<Rightarrow> (let (err, c') = V3_Load sys c k in (g', Some c', map_option Inr err)))"

definition NewPid2 ::
  "'k cap_sys \<Rightarrow> 'k \<Rightarrow> string option \<Rightarrow> int \<Rightarrow> capGlobals \<Rightarrow> capGlobals \<times> capsV3 option" where
  "NewPid2 sys k proc_file p g = newPid sys k proc_file p g"

section \<open>Apply\<close>

text \<open>The loop over the bounding set: drop what the object lacks; EINVAL is no error.\<close>

fun drop_bounds_loop ::
  "'k cap_sys \<Rightarrow> capsV3 \<Rightarrow> Cap list \<Rightarrow> 'k \<Rightarrow> (errno option \<times> 'k) go" where
  "drop_bounds_loop sys c [] k = Inr (None, k)"
| "drop_bounds_loop sys c (i # is) k =
     bindE (V3_Get c BOUNDING i) (\<lambda>present.
       if present then drop_bounds_loop sys c is k
       else case prctl sys PR_CAPBSET_DROP (uint_of_int i) 0 0 0 k of
           (None, k') \<Rightarrow> drop_bounds_loop sys c is k'
         | (Some e, k') \<Rightarrow> if e = EINVAL then drop_bounds_loop sys c is k' else Inr (Some e, k'))"

text \<open>The loop over the ambient set: its \<open>err\<close> is a new variable, so nothing of it is returned.\<close>

fun ambient_loop :: "'k cap_sys \<Rightarrow> capsV3 \<Rightarrow> Cap list \<Rightarrow> 'k \<Rightarrow> 'k go" where
  "ambient_loop sys c [] k = Inr k"
| "ambient_loop sys c (i # is) k =
     bindE (V3_Get c AMBIENT i) (\<lambda>present.
       let action = (if present then pr_CAP_AMBIENT_RAISE else pr_CAP_AMBIENT_LOWER);
           (_, k') = prctl sys pr_CAP_AMBIENT action (uint_of_int i) 0 0 k
       in ambient_loop sys c is k')"

definition V3_Apply_bounds ::
  "'k cap_sys \<Rightarrow> Cap \<Rightarrow> capsV3 \<Rightarrow> CapType \<Rightarrow> 'k \<Rightarrow> (errno option \<times> capsV3 \<times> 'k) go" where
  "V3_Apply_bounds sys last_cap c kind k =
    (if kind AND BOUNDS = BOUNDS then
       case capget sys (hdr c) (Arr2 zero_capData zero_capData) k of
         (Some e, h, _) \<Rightarrow> Inr (Some e, c\<lparr>hdr := h\<rparr>, k)
       | (None, h, d) \<Rightarrow>
           let c = c\<lparr>hdr := h\<rparr>
           in if shl1 (uint_of_int CAP_SETPCAP) AND effective (at0 d) \<noteq> 0
              then mapE (\<lambda>(err, k'). (err, c, k')) (drop_bounds_loop sys c [0..last_cap] k)
              else Inr (None, c, k)
     else Inr (None, c, k))"

definition V3_Apply ::
  "'k cap_sys \<Rightarrow> Cap \<Rightarrow> capsV3 \<Rightarrow> CapType \<Rightarrow> 'k \<Rightarrow> (errno option \<times> capsV3 \<times> 'k) go" where
  "V3_Apply sys last_cap c0 kind k0 =
    bindE (V3_Apply_bounds sys last_cap c0 kind k0) (\<lambda>(err, c, k).
      if err \<noteq> None then Inr (err, c, k)
      else
        let (err, k) = (if kind AND CAPS = CAPS then capset sys (hdr c) (data c) k else (None, k))
        in if err \<noteq> None then Inr (err, c, k)
           else if kind AND AMBS = AMBS
           then mapE (\<lambda>k'. (None, c, k')) (ambient_loop sys c [0..last_cap] k)
           else Inr (None, c, k))"

section \<open>LoadOriginal\<close>

text \<open>
  A line of the status file: the two masks of a "CapB" or "CapA" line are scanned into the upper and
  the lower word; what a failing scan stored before it stopped is kept and its error dropped.
\<close>

definition scan_mask :: "string \<Rightarrow> string \<Rightarrow> 32 word arr2 \<Rightarrow> 32 word arr2" where
  "scan_mask rest name a =
    (case fst (sscanf (map FLit name @ [FSpace, FHex 8, FHex 8]) rest) of
       [VHex hi] \<Rightarrow> Arr2 (at0 a) (of_nat hi)
     | [VHex hi, VHex lo] \<Rightarrow> Arr2 (of_nat lo) (of_nat hi)
     | _ \<Rightarrow> a)"

definition load_status_line :: "string \<Rightarrow> capsV3 \<Rightarrow> capsV3" where
  "load_status_line line c =
    (if HasPrefix line ''CapB'' then c\<lparr>bounds := scan_mask (drop 4 line) ''nd:'' (bounds c)\<rparr>
     else if HasPrefix line ''CapA'' then c\<lparr>ambient := scan_mask (drop 4 line) ''mb:'' (ambient c)\<rparr>
     else c)"

text \<open>
  \<open>open_status\<close> gives the error of opening the file, or its content and the error, other than the
  end of file, that ends the reading. \<open>ReadString\<close> yields the lines that end in a newline; an
  unfinished last line comes with the end of file and is not looked at.
\<close>

definition status_path :: "32 word \<Rightarrow> string" where
  "status_path p = (if p = 0 then ''/proc/self/status'' else ''/proc/'' @ show_int (sint p) @ ''/status'')"

definition V3_LoadOriginal ::
  "'k cap_sys \<Rightarrow> (string \<Rightarrow> errno + string \<times> errno option) \<Rightarrow> capsV3 \<Rightarrow> 'k \<Rightarrow> errno option \<times> capsV3" where
  "V3_LoadOriginal sys open_status c0 k =
    (let (err, h, d) = capget sys (hdr c0) (data c0) k; c = c0\<lparr>hdr := h, data := d\<rparr>
     in if err \<noteq> None then (err, c)
        else
          case open_status (status_path (pid (hdr c))) of
            Inl e \<Rightarrow> (Some e, c)
          | Inr (content, read_err) \<Rightarrow>
              (read_err, fold load_status_line
                (map (\<lambda>l. l @ [CHR 0x0A]) (butlast (split_on (CHR 0x0A) content))) c))"

section \<open>Lemmas on Apply\<close>

text \<open>The requests \<open>Apply\<close> makes for the bounding set, as one list run to its first failure.\<close>

fun run_drops :: "'k cap_sys \<Rightarrow> Cap list \<Rightarrow> 'k \<Rightarrow> errno option \<times> 'k" where
  "run_drops sys [] k = (None, k)"
| "run_drops sys (i # is) k =
     (case prctl sys PR_CAPBSET_DROP (uint_of_int i) 0 0 0 k of
        (None, k') \<Rightarrow> run_drops sys is k'
      | (Some e, k') \<Rightarrow> if e = EINVAL then run_drops sys is k' else (Some e, k'))"

lemma drop_bounds_loop_eq:
  assumes "list_all valid_cap is"
  shows "drop_bounds_loop sys c is k =
    Inr (run_drops sys (filter (\<lambda>i. i \<notin> cap_set (V3_Get c) BOUNDING) is) k)"
  using assms
proof (induction "is" arbitrary: k)
  case (Cons i "is")
  then have "V3_Get c BOUNDING i = Inr (i \<in> cap_set (V3_Get c) BOUNDING)"
    using v3.get_ok [of BOUNDING i c] by (simp add: single_kinds_def)
  then show ?case using Cons by (simp split: prod.split option.split)
qed simp

fun run_ambient :: "'k cap_sys \<Rightarrow> (Cap \<Rightarrow> bool) \<Rightarrow> Cap list \<Rightarrow> 'k \<Rightarrow> 'k" where
  "run_ambient sys raise [] k = k"
| "run_ambient sys raise (i # is) k = run_ambient sys raise is
     (snd (prctl sys pr_CAP_AMBIENT (if raise i then pr_CAP_AMBIENT_RAISE else pr_CAP_AMBIENT_LOWER)
            (uint_of_int i) 0 0 k))"

lemma ambient_loop_eq:
  assumes "list_all valid_cap is"
  shows "ambient_loop sys c is k = Inr (run_ambient sys (\<lambda>i. i \<in> cap_set (V3_Get c) AMBIENT) is k)"
  using assms
proof (induction "is" arbitrary: k)
  case (Cons i "is")
  then have "V3_Get c AMBIENT i = Inr (i \<in> cap_set (V3_Get c) AMBIENT)"
    using v3.get_ok [of AMBIENT i c] by (simp add: single_kinds_def)
  then show ?case using Cons by (simp add: Let_def split: prod.split)
qed simp

lemma valid_upto: "last_cap \<le> 63 \<Longrightarrow> list_all valid_cap [0..last_cap]"
  by (auto simp: list_all_iff valid_cap_def)

text \<open>
  A kernel whose \<open>PR_CAPBSET_DROP\<close> does what \<open>capabilities(7)\<close> documents, observed through
  \<open>bset\<close>: success removes the capability from the bounding set of the thread, EINVAL means the
  kernel does not know the capability, so it is in no set, and no failure changes the set.
\<close>

definition drop_law :: "'k cap_sys \<Rightarrow> ('k \<Rightarrow> Cap set) \<Rightarrow> bool" where
  "drop_law sys bset \<longleftrightarrow> (\<forall>i k. valid_cap i \<longrightarrow>
     (case sys_prctl sys PR_CAPBSET_DROP (uint_of_int i) 0 0 0 k of (e, k') \<Rightarrow>
        if e = 0 then bset k' = bset k - {i}
        else bset k' = bset k \<and> (e = EINVAL \<longrightarrow> i \<notin> bset k)))"

lemma run_drops_bset:
  assumes "drop_law sys bset" and "list_all valid_cap is" and "run_drops sys is k = (None, k')"
  shows "bset k' = bset k - set is"
  using assms(2,3)
proof (induction "is" arbitrary: k)
  case (Cons i "is")
  obtain e k1 where step: "sys_prctl sys PR_CAPBSET_DROP (uint_of_int i) 0 0 0 k = (e, k1)"
    by (cases "sys_prctl sys PR_CAPBSET_DROP (uint_of_int i) 0 0 0 k")
  with assms(1) Cons.prems(1) have law: "if e = 0 then bset k1 = bset k - {i}
      else bset k1 = bset k \<and> (e = EINVAL \<longrightarrow> i \<notin> bset k)"
    by (auto simp: drop_law_def split: prod.splits)
  have "e = 0 \<or> e = EINVAL" and "run_drops sys is k1 = (None, k')"
    using Cons.prems(2) step by (auto simp: prctl_def err_of_def split: if_splits)
  then show ?case using Cons.IH [of k1] Cons.prems(1) law by (auto split: if_splits)
qed simp

lemma run_drops_bounds:
  assumes "drop_law sys bset" and "list_all valid_cap is" and "run_drops sys is k = (e, k')"
  shows "bset k - set is \<subseteq> bset k' \<and> bset k' \<subseteq> bset k"
  using assms(2,3)
proof (induction "is" arbitrary: k)
  case (Cons i "is")
  obtain e1 k1 where step: "sys_prctl sys PR_CAPBSET_DROP (uint_of_int i) 0 0 0 k = (e1, k1)"
    by (cases "sys_prctl sys PR_CAPBSET_DROP (uint_of_int i) 0 0 0 k")
  with assms(1) Cons.prems(1) have "if e1 = 0 then bset k1 = bset k - {i}
      else bset k1 = bset k \<and> (e1 = EINVAL \<longrightarrow> i \<notin> bset k)"
    by (auto simp: drop_law_def split: prod.splits)
  then have law: "bset k1 = bset k - {i} \<or> bset k1 = bset k" by (simp split: if_splits)
  have "run_drops sys is k1 = (e, k') \<or> k' = k1"
    using Cons.prems(2) step by (auto simp: prctl_def err_of_def split: if_splits)
  then show ?case using Cons.IH [of k1] Cons.prems(1) law by auto
qed simp

lemma setpcap_test: "shl1 (uint_of_int CAP_SETPCAP) AND w \<noteq> 0 \<longleftrightarrow> bit (w :: 32 word) 8"
  by (simp add: shl1_test CAP_SETPCAP_def uint_of_int_def)

lemmas kind_tests = capType_defs BOUNDS_def CAPS_def AMBS_def

lemma Apply_BOUNDS_eq:
  assumes "sys_capget sys (hdr c) (Arr2 zero_capData zero_capData) k = (0, h, d)"
  shows "V3_Apply sys last_cap c BOUNDS k =
    (if bit (effective (at0 d)) 8
     then mapE (\<lambda>(err, k'). (err, c\<lparr>hdr := h\<rparr>, k')) (drop_bounds_loop sys (c\<lparr>hdr := h\<rparr>) [0..last_cap] k)
     else Inr (None, c\<lparr>hdr := h\<rparr>, k))"
proof -
  have "BOUNDS AND CAPS \<noteq> CAPS" and "BOUNDS AND AMBS \<noteq> AMBS" and "BOUNDS AND BOUNDS = BOUNDS"
    by (simp_all add: kind_tests)
  then show ?thesis
    using assms
    by (cases "drop_bounds_loop sys (c\<lparr>hdr := h\<rparr>) [0..last_cap] k")
      (auto simp: V3_Apply_def V3_Apply_bounds_def capget_def err_of_def Let_def setpcap_test)
qed

lemma cap_set_hdr [simp]: "cap_set (V3_Get (c\<lparr>hdr := h\<rparr>)) = cap_set (V3_Get c)"
proof -
  have "V3_Get (c\<lparr>hdr := h\<rparr>) = V3_Get c" by (intro ext) (simp add: V3_Get_def Let_def)
  then show ?thesis by simp
qed

section \<open>A kernel for the witnesses\<close>

text \<open>
  The state is the bounding set, over the capabilities 0 to 40 the kernel knows; the calling thread
  has the effective capabilities of the mask \<open>eff\<close>; ambient requests fail with EPERM.
\<close>

definition demo_kernel :: "32 word \<Rightarrow> Cap set cap_sys" where
  "demo_kernel eff =
    \<lparr>sys_capget_nil = (\<lambda>h k. (0, h\<lparr>version := linuxCapVer3\<rparr>)),
     sys_capget = (\<lambda>h d k. (0, h, Arr2 \<lparr>effective = eff, permitted = eff, inheritable = 0\<rparr> zero_capData)),
     sys_capset = (\<lambda>h d k. (0, k)),
     sys_prctl = (\<lambda>opt a2 a3 a4 a5 k.
       if opt = PR_CAPBSET_DROP then if a2 \<le> 40 then (0, k - {int a2}) else (EINVAL, k) else (1, k))\<rparr>"

lemma demo_kernel_drop_law: "drop_law (demo_kernel eff) (\<lambda>k. k \<inter> {..40})"
  by (auto simp: drop_law_def demo_kernel_def valid_cap_def uint_of_int_def EINVAL_def)

section \<open>Properties of Apply\<close>

text \<open>
  \<open>Apply(BOUNDS)\<close> by a thread with CAP_SETPCAP does not panic; when it returns no error, the
  bounding set of the thread has lost exactly the capabilities, up to the last one, that the object
  lacks; when it returns an error, nothing but such capabilities was dropped.
\<close>

theorem Apply_bounds_drops:
  assumes "drop_law sys bset" and "last_cap \<le> 63"
    and "sys_capget sys (hdr c) (Arr2 zero_capData zero_capData) k = (0, h, d)"
    and "bit (effective (at0 d)) 8"
  shows "\<exists>err c' k'. V3_Apply sys last_cap c BOUNDS k = Inr (err, c', k') \<and>
    (err = None \<longrightarrow> bset k' = bset k - {i. 0 \<le> i \<and> i \<le> last_cap \<and> i \<notin> cap_set (V3_Get c) BOUNDING}) \<and>
    bset k - {i. 0 \<le> i \<and> i \<le> last_cap \<and> i \<notin> cap_set (V3_Get c) BOUNDING} \<subseteq> bset k' \<and> bset k' \<subseteq> bset k"
proof -
  let ?is = "filter (\<lambda>i. i \<notin> cap_set (V3_Get c) BOUNDING) [0..last_cap]"
  obtain err k' where r: "run_drops sys ?is k = (err, k')" by (cases "run_drops sys ?is k")
  have v: "list_all valid_cap ?is" using valid_upto [OF assms(2)] by (auto simp: list_all_iff)
  have s: "set ?is = {i. 0 \<le> i \<and> i \<le> last_cap \<and> i \<notin> cap_set (V3_Get c) BOUNDING}" by auto
  have "V3_Apply sys last_cap c BOUNDS k = Inr (err, c\<lparr>hdr := h\<rparr>, k')"
    using assms(4) r
    by (simp add: Apply_BOUNDS_eq [OF assms(3)] drop_bounds_loop_eq [OF valid_upto [OF assms(2)]])
  moreover have "err = None \<longrightarrow> bset k' = bset k - set ?is"
    using run_drops_bset [OF assms(1) v, of k k'] r by auto
  moreover have "bset k - set ?is \<subseteq> bset k' \<and> bset k' \<subseteq> bset k"
    by (rule run_drops_bounds [OF assms(1) v r])
  ultimately show ?thesis unfolding s by blast
qed

theorem Apply_bounds_drops_witness:
  "\<exists>err c' k'. V3_Apply (demo_kernel 0x100) 40 zero_capsV3 BOUNDS {7, 8} = Inr (err, c', k') \<and>
    {7, 8} \<inter> {..40} - {i. 0 \<le> i \<and> i \<le> 40 \<and> i \<notin> cap_set (V3_Get zero_capsV3) BOUNDING} \<subseteq> k' \<inter> {..40}"
  using Apply_bounds_drops [OF demo_kernel_drop_law [of "0x100"], where last_cap = 40 and c = zero_capsV3 and k = "{7, 8}"]
  by (fastforce simp: demo_kernel_def bit_simps)

text \<open>
  \<open>Apply(BOUNDS)\<close> by a thread whose effective set lacks CAP_SETPCAP returns no error and makes
  no request: the bounding set is silently left as it was.
\<close>

theorem Apply_bounds_without_setpcap:
  assumes "sys_capget sys (hdr c) (Arr2 zero_capData zero_capData) k = (0, h, d)"
    and "\<not> bit (effective (at0 d)) 8"
  shows "V3_Apply sys last_cap c BOUNDS k = Inr (None, c\<lparr>hdr := h\<rparr>, k)"
  using assms(2) by (simp add: Apply_BOUNDS_eq [OF assms(1)])

theorem Apply_bounds_without_setpcap_witness:
  "V3_Apply (demo_kernel 0) 40 zero_capsV3 BOUNDS {7, 8} = Inr (None, zero_capsV3, {7, 8})"
  using Apply_bounds_without_setpcap [of "demo_kernel 0" zero_capsV3 "{7, 8}"]
  by (simp add: demo_kernel_def zero_capsV3_def)

text \<open>
  \<open>Apply(AMBS)\<close> makes one request per capability, to raise it when the object has it in its
  ambient set and to lower it otherwise, and returns no error whatever the kernel answers.
\<close>

theorem Apply_ambient_swallows_errors:
  assumes "last_cap \<le> 63"
  shows "V3_Apply sys last_cap c AMBS k =
    Inr (None, c, run_ambient sys (\<lambda>i. i \<in> cap_set (V3_Get c) AMBIENT) [0..last_cap] k)"
proof -
  have "AMBS AND CAPS \<noteq> CAPS" and "AMBS AND BOUNDS \<noteq> BOUNDS" and "AMBS AND AMBS = AMBS"
    by (simp_all add: kind_tests)
  then show ?thesis
    by (simp add: V3_Apply_def V3_Apply_bounds_def ambient_loop_eq [OF valid_upto [OF assms]])
qed

theorem Apply_ambient_swallows_errors_witness:
  "V3_Apply (demo_kernel 0) 1 zero_capsV3 AMBS {7, 8} = Inr (None, zero_capsV3, {7, 8})"
  using Apply_ambient_swallows_errors [of 1 "demo_kernel 0" zero_capsV3 "{7, 8}"]
  by (simp add: upto_rec1 demo_kernel_def prctl_def PR_CAPBSET_DROP_def pr_CAP_AMBIENT_def)

section \<open>Initialisation\<close>

lemma show_nat_small: "n < 100 \<Longrightarrow> length (show_nat n) \<le> 2"
  using less_mult_imp_div_less [of n 10 10] by (subst show_nat.simps, subst show_nat.simps) simp

lemma upper_mask_bit:
  assumes "n \<le> 63" and "k < 32"
  shows "bit (if int n > 31 then shl1 (uint_of_int (int n) - 31) - 1 else 0 :: 32 word) k \<longleftrightarrow> k + 32 \<le> n"
proof -
  have u: "uint_of_int (int n) = n" using assms by (simp add: uint_of_int_id)
  consider "n \<le> 31" | "31 < n" "n < 63" | "n = 63" using assms(1) by linarith
  then show ?thesis
  proof cases
    case 2
    then have "(shl1 (n - 31) :: 32 word) - 1 = mask (n - 31)"
      by (simp add: shl1_def mask_eq_exp_minus_1)
    with 2 assms(2) show ?thesis by (auto simp: u bit_mask_iff)
  next
    case 3
    moreover have "uint_of_int 63 = 63" by (simp add: uint_of_int_def)
    ultimately show ?thesis using assms(2) by (simp add: shl1_def)
  qed simp
qed

text \<open>
  On a kernel whose \<open>cap_last_cap\<close> file holds the number \<open>n\<close>, at most 63, the first use
  of the package sets \<open>CAP_LAST_CAP\<close> to \<open>n\<close>, and \<open>capUpperMask\<close> to the upper-word bits
  of the capabilities 32 to \<open>n\<close>.
\<close>

theorem initialize_last_cap:
  assumes "capLastCap g = 0" and "n \<le> 63" and "initialize sys k (Some (show_nat n @ [CHR 0x0A])) g = g'"
  shows "CAP_LAST_CAP g' = int n \<and> pkgInitialized g' \<and>
    capVers g' = version (snd (capget_nil sys \<lparr>version = 0, pid = 0\<rparr> k)) \<and>
    (\<forall>j < 32. bit (capUpperMask g') j \<longleftrightarrow> j + 32 \<le> n)"
proof -
  let ?f = "show_nat n @ [CHR 0x0A]"
  have len: "length (show_nat n) \<le> 2" using assms(2) by (intro show_nat_small) simp
  then have "take 11 ?f @ replicate (11 - length ?f) (CHR 0x00) =
      show_nat n @ (CHR 0x0A # replicate (11 - length ?f) (CHR 0x00))" by simp
  moreover have "scan_verb FInt (show_nat n @ CHR 0x0A # replicate (11 - length ?f) (CHR 0x00)) =
      Some (VInt (int n), CHR 0x0A # replicate (11 - length ?f) (CHR 0x00))"
    using assms(2) by (intro scan_verb_show_nat) (simp_all add: scan_simps is_digit_def)
  ultimately have init: "initLastCap (Some ?f) (g\<lparr>capVers := v\<rparr>) = (g\<lparr>capVers := v, capLastCap := int n\<rparr>, True)" for v
    using assms(1) by (simp add: initLastCap_def Let_def)
  show ?thesis
    using assms(3) upper_mask_bit [OF assms(2)]
    by (auto simp: initialize_def Let_def init split: prod.splits cong: if_cong)
qed

theorem initialize_last_cap_witness:
  "CAP_LAST_CAP (initialize (demo_kernel 0) {} (Some (show_nat 40 @ [CHR 0x0A])) globals0) = 40"
  using initialize_last_cap [of globals0 40, OF _ _ refl, of "demo_kernel 0" "{}"]
  by (simp add: globals0_def)

section \<open>LoadOriginal\<close>

lemma HasPrefix_append_char: "x \<notin> set p \<Longrightarrow> HasPrefix (l @ [x]) p \<longleftrightarrow> HasPrefix l p"
proof
  assume x: "x \<notin> set p" and "HasPrefix (l @ [x]) p"
  then obtain r where r: "l @ [x] = p @ r" by (auto simp: HasPrefix_iff)
  with x have "r \<noteq> []" by (metis append_Nil2 in_set_conv_decomp)
  with r have "l = p @ butlast r" by (metis butlast_append butlast_snoc)
  then show "HasPrefix l p" by simp
qed (auto simp: HasPrefix_iff)

text \<open>A mask line as the kernel prints it: the field name, a tab, 16 hexadecimal digits.\<close>

definition mask_line :: "string \<Rightarrow> 32 word arr2 \<Rightarrow> string" where
  "mask_line name a = name @ [CHR 0x09] @ show_hex 8 (unat (at1 a)) @ show_hex 8 (unat (at0 a))"

lemma mask_line_newline: "CHR 0x0A \<notin> set name \<Longrightarrow> CHR 0x0A \<notin> set (mask_line name a)"
  using show_hex_all is_hex_not_space by (fastforce simp: mask_line_def is_space_def)

lemma match_space_tab:
  "s \<noteq> [] \<Longrightarrow> \<not> is_space (hd s) \<Longrightarrow> match_space (CHR 0x09 # s) = Some s"
  by (cases s) (auto simp: match_space_def blank_def is_space_def)

lemma scan_mask_line:
  assumes "drop 4 nm = name" and "name = ''nd:'' \<or> name = ''mb:''" and "length nm = 7"
  shows "scan_mask (drop 4 (mask_line nm a @ [CHR 0x0A])) name b = a"
proof -
  have lt: "unat w < 16 ^ 8" for w :: "32 word" using unsigned_less [of w] by simp
  let ?tl = "show_hex 8 (unat (at0 a)) @ [CHR 0x0A]"
  have "show_hex 8 (unat (at1 a)) @ ?tl \<noteq> []" by (metis append_is_Nil_conv not_Cons_self2)
  moreover have "hd (show_hex 8 (unat (at1 a)) @ ?tl) \<in> set (show_hex 8 (unat (at1 a)))"
    by (metis length_show_hex hd_append2 hd_in_set list.size(3) zero_neq_numeral)
  then have "\<not> is_space (hd (show_hex 8 (unat (at1 a)) @ ?tl))"
    using show_hex_all is_hex_not_space by blast
  ultimately have sp: "match_space (CHR 0x09 # show_hex 8 (unat (at1 a)) @ ?tl) =
      Some (show_hex 8 (unat (at1 a)) @ ?tl)" by (rule match_space_tab)
  have "drop 4 (mask_line nm a @ [CHR 0x0A]) = name @ CHR 0x09 # show_hex 8 (unat (at1 a)) @ ?tl"
    using assms by (simp add: mask_line_def)
  then show ?thesis
    using assms(2) lt
    by (auto simp: scan_mask_def sp scan_verb_hex [of 8] simp del: show_hex.simps)
qed

text \<open>A line of the file that is none of the two masks.\<close>

definition other_line :: "string \<Rightarrow> bool" where
  "other_line l \<longleftrightarrow> CHR 0x0A \<notin> set l \<and> \<not> HasPrefix l ''CapB'' \<and> \<not> HasPrefix l ''CapA''"

lemma load_other_lines:
  "list_all other_line ls \<Longrightarrow> fold load_status_line (map (\<lambda>l. l @ [CHR 0x0A]) ls) c = c"
  by (induction ls arbitrary: c) (simp_all add: other_line_def load_status_line_def HasPrefix_append_char)

lemma load_mask_lines:
  "load_status_line (mask_line ''CapBnd:'' a @ [CHR 0x0A]) c = c\<lparr>bounds := a\<rparr>"
  "load_status_line (mask_line ''CapAmb:'' a @ [CHR 0x0A]) c = c\<lparr>ambient := a\<rparr>"
proof -
  have "HasPrefix (mask_line ''CapBnd:'' a @ [CHR 0x0A]) ''CapB''"
    and "\<not> HasPrefix (mask_line ''CapAmb:'' a @ [CHR 0x0A]) ''CapB''"
    and "HasPrefix (mask_line ''CapAmb:'' a @ [CHR 0x0A]) ''CapA''"
    by (simp_all add: mask_line_def HasPrefix_def)
  then show "load_status_line (mask_line ''CapBnd:'' a @ [CHR 0x0A]) c = c\<lparr>bounds := a\<rparr>"
    and "load_status_line (mask_line ''CapAmb:'' a @ [CHR 0x0A]) c = c\<lparr>ambient := a\<rparr>"
    by (simp_all add: load_status_line_def scan_mask_line del: drop_append)
qed

text \<open>
  \<open>LoadOriginal\<close> of a process whose status file holds the bounding and the ambient mask, among
  lines of other fields, loads both masks exactly, with the data words of \<open>capget\<close>.
\<close>

theorem LoadOriginal_masks:
  assumes "sys_capget sys (hdr c) (data c) k = (0, h, d)"
    and "list_all other_line pre" and "list_all other_line mid" and "list_all other_line post"
    and "open_status (status_path (pid h)) = Inr (concat (map (\<lambda>l. l @ [CHR 0x0A])
      (pre @ [mask_line ''CapBnd:'' bs] @ mid @ [mask_line ''CapAmb:'' as] @ post)), None)"
  shows "V3_LoadOriginal sys open_status c k = (None, c\<lparr>hdr := h, data := d, bounds := bs, ambient := as\<rparr>)"
proof -
  let ?ls = "pre @ [mask_line ''CapBnd:'' bs] @ mid @ [mask_line ''CapAmb:'' as] @ post"
  have "list_all (\<lambda>l. CHR 0x0A \<notin> set l) ?ls"
    using assms(2-4) mask_line_newline [of "''CapBnd:''" bs] mask_line_newline [of "''CapAmb:''" as]
    by (auto simp: list_all_iff other_line_def)
  then have lines: "butlast (split_on (CHR 0x0A) (concat (map (\<lambda>l. l @ [CHR 0x0A]) ?ls))) = ?ls"
    by (simp only: split_on_lines butlast_snoc)
  have "fold load_status_line (map (\<lambda>l. l @ [CHR 0x0A]) ?ls) c1 = c1\<lparr>bounds := bs, ambient := as\<rparr>" for c1
    by (simp add: load_other_lines assms(2-4) load_mask_lines)
  moreover have "capget sys (hdr c) (data c) k = (None, h, d)"
    using assms(1) by (simp add: capget_def err_of_def)
  ultimately show ?thesis
    using assms(5) lines by (simp add: V3_LoadOriginal_def del: append.simps append_assoc)
qed

theorem LoadOriginal_masks_witness:
  "V3_LoadOriginal (demo_kernel 0)
     (\<lambda>_. Inr (concat (map (\<lambda>l. l @ [CHR 0x0A]) ([''CapEff:''] @ [mask_line ''CapBnd:'' (Arr2 7 1)] @ [] @
        [mask_line ''CapAmb:'' (Arr2 5 0)] @ [''Seccomp:''])), None))
     zero_capsV3 {} =
   (None, zero_capsV3\<lparr>bounds := Arr2 7 1, ambient := Arr2 5 0\<rparr>)"
  using LoadOriginal_masks [of "demo_kernel 0" zero_capsV3 "{}" _ _ "[''CapEff:'']" "[]" "[''Seccomp:'']"
      "\<lambda>_. Inr (concat (map (\<lambda>l. l @ [CHR 0x0A]) ([''CapEff:''] @ [mask_line ''CapBnd:'' (Arr2 7 1)] @ [] @
        [mask_line ''CapAmb:'' (Arr2 5 0)] @ [''Seccomp:''])), None)" "Arr2 7 1" "Arr2 5 0"]
  by (simp add: demo_kernel_def other_line_def HasPrefix_def zero_capsV3_def zero_capData_def)

end
