(* ===== verification/CapKernel.thy ===== *)
theory CapKernel
  imports CapProcess
begin

text \<open>
  \<open>Apply\<close> of process capabilities against a kernel that does what \<open>capabilities(7)\<close> and
  \<open>prctl(2)\<close> document: the capability sets of the thread are observed before and after, so the three phases
  (bounding set, \<open>capset\<close>, ambient set) and their order are seen together.
\<close>

section \<open>The documented kernel\<close>

record thread_caps =
  t_bset :: "Cap set"
  t_eff :: "Cap set"
  t_perm :: "Cap set"
  t_inh :: "Cap set"
  t_amb :: "Cap set"

definition caps_of :: "(capData \<Rightarrow> 32 word) \<Rightarrow> capData arr2 \<Rightarrow> Cap set" where
  "caps_of sel d = {i. valid_cap i \<and> arr2_bit (map_arr2 sel d) i}"

lemma caps_of_data:
  "caps_of effective (data c) = cap_set (V3_Get c) EFFECTIVE" "caps_of permitted (data c) = cap_set (V3_Get c) PERMITTED"
  "caps_of inheritable (data c) = cap_set (V3_Get c) INHERITABLE"
  by (simp_all add: caps_of_def V3_cap_set V3_getData_def single_kinds_def capType_defs)

text \<open>
  \<open>PR_CAPBSET_DROP\<close> removes one capability, or fails and changes nothing, with EINVAL for a capability that no set
  has; \<open>capset\<close> replaces three sets, up to the capabilities the kernel knows, and takes from the ambient set what
  is no longer both permitted and inheritable; raising an ambient capability succeeds exactly when it is both, for a thread
  without SECBIT_NO_CAP_AMBIENT_RAISE; lowering one fails only for a capability that is not there.
\<close>

definition drop_doc :: "'k cap_sys \<Rightarrow> ('k \<Rightarrow> thread_caps) \<Rightarrow> bool" where
  "drop_doc sys view \<longleftrightarrow> (\<forall>i k. valid_cap i \<longrightarrow>
     (case sys_prctl sys PR_CAPBSET_DROP (uint_of_int i) 0 0 0 k of (e, k') \<Rightarrow>
        view k' = (if e = 0 then (view k)\<lparr>t_bset := t_bset (view k) - {i}\<rparr> else view k) \<and>
        (e = EINVAL \<longrightarrow> i \<notin> t_bset (view k))))"

definition capset_doc :: "'k cap_sys \<Rightarrow> ('k \<Rightarrow> thread_caps) \<Rightarrow> Cap set \<Rightarrow> bool" where
  "capset_doc sys view known \<longleftrightarrow> (\<forall>h d k.
     (case sys_capset sys h d k of (e, k') \<Rightarrow>
        view k' = (if e = 0 then (view k)\<lparr>t_eff := caps_of effective d \<inter> known, t_perm := caps_of permitted d \<inter> known,
            t_inh := caps_of inheritable d \<inter> known,
            t_amb := t_amb (view k) \<inter> (caps_of permitted d \<inter> known) \<inter> (caps_of inheritable d \<inter> known)\<rparr> else view k)))"

definition raise_doc :: "'k cap_sys \<Rightarrow> ('k \<Rightarrow> thread_caps) \<Rightarrow> bool" where
  "raise_doc sys view \<longleftrightarrow> (\<forall>i k. valid_cap i \<longrightarrow>
     (case sys_prctl sys pr_CAP_AMBIENT pr_CAP_AMBIENT_RAISE (uint_of_int i) 0 0 k of (e, k') \<Rightarrow>
        (e = 0 \<longleftrightarrow> i \<in> t_perm (view k) \<inter> t_inh (view k)) \<and>
        view k' = (if e = 0 then (view k)\<lparr>t_amb := insert i (t_amb (view k))\<rparr> else view k)))"

definition lower_doc :: "'k cap_sys \<Rightarrow> ('k \<Rightarrow> thread_caps) \<Rightarrow> bool" where
  "lower_doc sys view \<longleftrightarrow> (\<forall>i k. valid_cap i \<longrightarrow>
     (case sys_prctl sys pr_CAP_AMBIENT pr_CAP_AMBIENT_LOWER (uint_of_int i) 0 0 k of (e, k') \<Rightarrow>
        view k' = (if e = 0 then (view k)\<lparr>t_amb := t_amb (view k) - {i}\<rparr> else view k) \<and>
        (e \<noteq> 0 \<longrightarrow> i \<notin> t_amb (view k))))"

section \<open>The three phases\<close>

lemma drop_doc_law: "drop_doc sys view \<Longrightarrow> drop_law sys (\<lambda>k. t_bset (view k))"
  unfolding drop_doc_def drop_law_def by (fastforce split: prod.splits)

lemma run_drops_view:
  assumes "drop_doc sys view" and "list_all valid_cap is" and "run_drops sys is k = (e, k')"
  shows "view k' = (view k)\<lparr>t_bset := t_bset (view k')\<rparr>"
  using assms(2,3)
proof (induction "is" arbitrary: k)
  case (Cons i "is")
  obtain e1 k1 where step: "sys_prctl sys PR_CAPBSET_DROP (uint_of_int i) 0 0 0 k = (e1, k1)"
    by (cases "sys_prctl sys PR_CAPBSET_DROP (uint_of_int i) 0 0 0 k")
  with assms(1) Cons.prems(1) have "\<exists>X. view k1 = (view k)\<lparr>t_bset := X\<rparr>"
    by (auto simp: drop_doc_def split: prod.splits if_splits intro: exI [of _ "t_bset (view k)"])
  moreover have "run_drops sys is k1 = (e, k') \<or> k' = k1"
    using Cons.prems(2) step by (auto simp: prctl_def err_of_def split: if_splits)
  ultimately show ?case using Cons.IH [of k1] Cons.prems(1) by auto
qed simp

lemma raise_view:
  assumes "raise_doc sys view" and "valid_cap i"
  shows "view (snd (prctl sys pr_CAP_AMBIENT pr_CAP_AMBIENT_RAISE (uint_of_int i) 0 0 k)) =
    (view k)\<lparr>t_amb := t_amb (view k) \<union> ({i} \<inter> (t_perm (view k) \<inter> t_inh (view k)))\<rparr>"
proof -
  obtain e k' where step: "sys_prctl sys pr_CAP_AMBIENT pr_CAP_AMBIENT_RAISE (uint_of_int i) 0 0 k = (e, k')" by fastforce
  with assms(1) [unfolded raise_doc_def, rule_format, OF assms(2), of k] have "e = 0 \<longleftrightarrow> i \<in> t_perm (view k) \<inter> t_inh (view k)"
    and "view k' = (if e = 0 then (view k)\<lparr>t_amb := insert i (t_amb (view k))\<rparr> else view k)"
    by simp_all
  then show ?thesis by (cases "view k") (auto simp: prctl_def step)
qed

lemma lower_view:
  assumes "lower_doc sys view" and "valid_cap i"
  shows "view (snd (prctl sys pr_CAP_AMBIENT pr_CAP_AMBIENT_LOWER (uint_of_int i) 0 0 k)) =
    (view k)\<lparr>t_amb := t_amb (view k) - {i}\<rparr>"
proof -
  obtain e k' where step: "sys_prctl sys pr_CAP_AMBIENT pr_CAP_AMBIENT_LOWER (uint_of_int i) 0 0 k = (e, k')" by fastforce
  with assms(1) [unfolded lower_doc_def, rule_format, OF assms(2), of k]
  have "view k' = (if e = 0 then (view k)\<lparr>t_amb := t_amb (view k) - {i}\<rparr> else view k)"
    and "e \<noteq> 0 \<longrightarrow> i \<notin> t_amb (view k)"
    by simp_all
  then show ?thesis by (cases "view k") (auto simp: prctl_def step)
qed

lemma run_ambient_view:
  assumes "raise_doc sys view" and "lower_doc sys view" and "list_all valid_cap is"
    and "t_amb (view k) \<subseteq> t_perm (view k) \<inter> t_inh (view k)"
  shows "view (run_ambient sys raise is k) = (view k)\<lparr>t_amb := {i \<in> t_perm (view k) \<inter> t_inh (view k).
    if i \<in> set is then raise i else i \<in> t_amb (view k)}\<rparr>"
  using assms(3,4)
proof (induction "is" arbitrary: k)
  case Nil
  then have "{i \<in> t_perm (view k) \<inter> t_inh (view k). i \<in> t_amb (view k)} = t_amb (view k)" by blast
  then show ?case by simp
next
  case (Cons i "is")
  let ?k1 = "snd (prctl sys pr_CAP_AMBIENT (if raise i then pr_CAP_AMBIENT_RAISE else pr_CAP_AMBIENT_LOWER) (uint_of_int i) 0 0 k)"
  let ?PI = "t_perm (view k) \<inter> t_inh (view k)"
  have v: "view ?k1 = (view k)\<lparr>t_amb := if raise i then t_amb (view k) \<union> ({i} \<inter> ?PI) else t_amb (view k) - {i}\<rparr>"
    using assms(1,2) Cons.prems(1) by (simp add: raise_view lower_view)
  then have "t_amb (view ?k1) \<subseteq> t_perm (view ?k1) \<inter> t_inh (view ?k1)" using Cons.prems(2) by auto
  with Cons.IH [of ?k1] Cons.prems(1) have "view (run_ambient sys raise is ?k1) = (view ?k1)\<lparr>t_amb :=
      {j \<in> ?PI. if j \<in> set is then raise j else j \<in> t_amb (view ?k1)}\<rparr>" by (simp add: v)
  moreover have "{j \<in> ?PI. if j \<in> set is then raise j else j \<in> t_amb (view ?k1)} =
      {j \<in> ?PI. if j \<in> set (i # is) then raise j else j \<in> t_amb (view k)}"
    unfolding v by auto
  ultimately show ?case by (simp add: v)
qed

section \<open>Apply as a whole\<close>

lemma all_kinds: "(CAPS OR BOUNDS OR AMBS) AND BOUNDS = BOUNDS" "(CAPS OR BOUNDS OR AMBS) AND CAPS = CAPS"
  "(CAPS OR BOUNDS OR AMBS) AND AMBS = AMBS"
  by (simp_all add: kind_tests)

lemma Apply_all_eq:
  assumes "sys_capget sys (hdr c) (Arr2 zero_capData zero_capData) k = (0, h, d)" and "bit (effective (at0 d)) 8"
    and "last_cap \<le> 63" and "run_drops sys (filter (\<lambda>i. i \<notin> cap_set (V3_Get c) BOUNDING) [0..last_cap]) k = (e1, k1)"
    and "capset sys h (data c) k1 = (e2, k2)"
  shows "V3_Apply sys last_cap c (CAPS OR BOUNDS OR AMBS) k = Inr (
    if e1 \<noteq> None then (e1, c\<lparr>hdr := h\<rparr>, k1)
    else if e2 \<noteq> None then (e2, c\<lparr>hdr := h\<rparr>, k2)
    else (None, c\<lparr>hdr := h\<rparr>, run_ambient sys (\<lambda>i. i \<in> cap_set (V3_Get c) AMBIENT) [0..last_cap] k2))"
proof -
  have "V3_Apply_bounds sys last_cap c (CAPS OR BOUNDS OR AMBS) k = Inr (e1, c\<lparr>hdr := h\<rparr>, k1)"
    using assms(1,2,4) valid_upto [OF assms(3)]
    by (simp add: V3_Apply_bounds_def all_kinds capget_def err_of_def setpcap_test drop_bounds_loop_eq)
  then show ?thesis
    using assms(5) valid_upto [OF assms(3)] by (simp add: V3_Apply_def all_kinds ambient_loop_eq)
qed

text \<open>What \<open>capset\<close> and its failure do to the sets, for the sets of an object.\<close>

lemma capset_view:
  assumes "capset_doc sys view known" and "capset sys h (data c) k = (e, k')"
  shows "view k' = (if e = None then (view k)\<lparr>t_eff := cap_set (V3_Get c) EFFECTIVE \<inter> known,
        t_perm := cap_set (V3_Get c) PERMITTED \<inter> known, t_inh := cap_set (V3_Get c) INHERITABLE \<inter> known,
        t_amb := t_amb (view k) \<inter> (cap_set (V3_Get c) PERMITTED \<inter> known) \<inter> (cap_set (V3_Get c) INHERITABLE \<inter> known)\<rparr>
      else view k)"
proof -
  obtain n where n: "sys_capset sys h (data c) k = (n, k')" "e = err_of n"
    using assms(2) by (auto simp: capset_def split: prod.splits)
  have "case sys_capset sys h (data c) k of (n, k') \<Rightarrow>
      view k' = (if n = 0 then (view k)\<lparr>t_eff := caps_of effective (data c) \<inter> known, t_perm := caps_of permitted (data c) \<inter> known,
          t_inh := caps_of inheritable (data c) \<inter> known,
          t_amb := t_amb (view k) \<inter> (caps_of permitted (data c) \<inter> known) \<inter> (caps_of inheritable (data c) \<inter> known)\<rparr> else view k)"
    using assms(1) unfolding capset_doc_def by (elim allE)
  then show ?thesis using n by (simp add: err_of_def caps_of_data)
qed

definition applied_view :: "Cap \<Rightarrow> Cap set \<Rightarrow> capsV3 \<Rightarrow> thread_caps \<Rightarrow> thread_caps" where
  "applied_view last_cap known c v =
    \<lparr>t_bset = t_bset v - {i. 0 \<le> i \<and> i \<le> last_cap \<and> i \<notin> cap_set (V3_Get c) BOUNDING},
     t_eff = cap_set (V3_Get c) EFFECTIVE \<inter> known,
     t_perm = cap_set (V3_Get c) PERMITTED \<inter> known,
     t_inh = cap_set (V3_Get c) INHERITABLE \<inter> known,
     t_amb = {i. (if 0 \<le> i \<and> i \<le> last_cap then i \<in> cap_set (V3_Get c) AMBIENT else i \<in> t_amb v) \<and>
        i \<in> cap_set (V3_Get c) PERMITTED \<inter> cap_set (V3_Get c) INHERITABLE \<inter> known}\<rparr>"

text \<open>The three phases without an error.\<close>

lemma phases_view:
  assumes "drop_doc sys view" and "capset_doc sys view known" and "raise_doc sys view" and "lower_doc sys view"
    and "last_cap \<le> 63"
    and "run_drops sys (filter (\<lambda>i. i \<notin> cap_set (V3_Get c) BOUNDING) [0..last_cap]) k = (None, k1)"
    and "capset sys h (data c) k1 = (None, k2)"
  shows "view (run_ambient sys (\<lambda>i. i \<in> cap_set (V3_Get c) AMBIENT) [0..last_cap] k2) = applied_view last_cap known c (view k)"
proof -
  let ?is = "filter (\<lambda>i. i \<notin> cap_set (V3_Get c) BOUNDING) [0..last_cap]"
  have v: "list_all valid_cap ?is" using valid_upto [OF assms(5)] by (auto simp: list_all_iff)
  have v1: "view k1 = (view k)\<lparr>t_bset := t_bset (view k1)\<rparr>" by (rule run_drops_view [OF assms(1) v assms(6)])
  note v2 = capset_view [OF assms(2,7), simplified]
  have "t_bset (view k1) = t_bset (view k) - set ?is"
    using run_drops_bset [OF drop_doc_law [OF assms(1)] v, of k k1] assms(6) by simp
  moreover have "view (run_ambient sys (\<lambda>i. i \<in> cap_set (V3_Get c) AMBIENT) [0..last_cap] k2) =
      (view k2)\<lparr>t_amb := {i \<in> t_perm (view k2) \<inter> t_inh (view k2).
        if i \<in> set [0..last_cap] then i \<in> cap_set (V3_Get c) AMBIENT else i \<in> t_amb (view k2)}\<rparr>"
    by (rule run_ambient_view [OF assms(3,4) valid_upto [OF assms(5)]]) (use v2 in auto)
  ultimately show ?thesis using v1 v2 by (cases "view k") (auto simp: applied_view_def)
qed

text \<open>
  C7. \<open>Apply\<close> of all kinds at once by a thread with CAP_SETPCAP does not panic. Without an error the thread has lost from its
  bounding set what the object lacks, has the object's effective, permitted and inheritable sets as far as the kernel knows
  them, and has exactly those ambient capabilities of the object that are permitted and inheritable, the others having been refused
  without an error. With an error only the bounding set has changed.
\<close>

theorem Apply_all_effect:
  assumes "drop_doc sys view" and "capset_doc sys view known" and "raise_doc sys view" and "lower_doc sys view"
    and "last_cap \<le> 63"
    and "sys_capget sys (hdr c) (Arr2 zero_capData zero_capData) k = (0, h, d)" and "bit (effective (at0 d)) 8"
  shows "\<exists>err c' k'. V3_Apply sys last_cap c (CAPS OR BOUNDS OR AMBS) k = Inr (err, c', k') \<and>
    (err = None \<longrightarrow> view k' =
      \<lparr>t_bset = t_bset (view k) - {i. 0 \<le> i \<and> i \<le> last_cap \<and> i \<notin> cap_set (V3_Get c) BOUNDING},
       t_eff = cap_set (V3_Get c) EFFECTIVE \<inter> known,
       t_perm = cap_set (V3_Get c) PERMITTED \<inter> known,
       t_inh = cap_set (V3_Get c) INHERITABLE \<inter> known,
       t_amb = {i. (if 0 \<le> i \<and> i \<le> last_cap then i \<in> cap_set (V3_Get c) AMBIENT else i \<in> t_amb (view k)) \<and>
          i \<in> cap_set (V3_Get c) PERMITTED \<inter> cap_set (V3_Get c) INHERITABLE \<inter> known}\<rparr>) \<and>
    (err \<noteq> None \<longrightarrow> view k' = (view k)\<lparr>t_bset := t_bset (view k')\<rparr>)"
proof -
  let ?is = "filter (\<lambda>i. i \<notin> cap_set (V3_Get c) BOUNDING) [0..last_cap]"
  obtain e1 k1 where r1: "run_drops sys ?is k = (e1, k1)" by fastforce
  obtain e2 k2 where r2: "capset sys h (data c) k1 = (e2, k2)" by fastforce
  have v: "list_all valid_cap ?is" using valid_upto [OF assms(5)] by (auto simp: list_all_iff)
  note run = Apply_all_eq [OF assms(6,7,5) r1 r2]
  show ?thesis
  proof (cases "e1 = None \<and> e2 = None")
    case True
    with r1 r2 show ?thesis using run phases_view [OF assms(1-5), of c k k1 h k2] by (simp add: applied_view_def)
  next
    case False
    then show ?thesis
      using run run_drops_view [OF assms(1) v r1] capset_view [OF assms(2) r2] by (cases "view k") auto
  qed
qed

section \<open>Witness\<close>

text \<open>A kernel with the capabilities 0 to 40, for a thread with CAP_SETPCAP.\<close>

definition thread_kernel :: "thread_caps cap_sys" where
  "thread_kernel =
    \<lparr>sys_capget_nil = (\<lambda>h k. (0, h\<lparr>version := linuxCapVer3\<rparr>)),
     sys_capget = (\<lambda>h d k. (0, h, Arr2 \<lparr>effective = 0x100, permitted = 0x100, inheritable = 0\<rparr> zero_capData)),
     sys_capset = (\<lambda>h d k. (0, k\<lparr>t_eff := caps_of effective d \<inter> {0..40}, t_perm := caps_of permitted d \<inter> {0..40},
            t_inh := caps_of inheritable d \<inter> {0..40},
            t_amb := t_amb k \<inter> (caps_of permitted d \<inter> {0..40}) \<inter> (caps_of inheritable d \<inter> {0..40})\<rparr>)),
     sys_prctl = (\<lambda>opt a2 a3 a4 a5 k.
       if opt = PR_CAPBSET_DROP then
         if a2 \<le> 40 then (0, k\<lparr>t_bset := t_bset k - {int a2}\<rparr>) else (EINVAL, k)
       else if a2 = pr_CAP_AMBIENT_RAISE then
         if int a3 \<in> t_perm k \<inter> t_inh k then (0, k\<lparr>t_amb := insert (int a3) (t_amb k)\<rparr>) else (1, k)
       else (0, k\<lparr>t_amb := t_amb k - {int a3}\<rparr>))\<rparr>"

definition thread_view :: "thread_caps \<Rightarrow> thread_caps" where
  "thread_view k = k\<lparr>t_bset := t_bset k \<inter> {..40}\<rparr>"

lemma thread_kernel_docs:
  "drop_doc thread_kernel thread_view" "capset_doc thread_kernel thread_view {0..40}"
  "raise_doc thread_kernel thread_view" "lower_doc thread_kernel thread_view"
  by (auto simp: drop_doc_def capset_doc_def raise_doc_def lower_doc_def thread_kernel_def thread_view_def valid_cap_def
      uint_of_int_def EINVAL_def PR_CAPBSET_DROP_def pr_CAP_AMBIENT_def pr_CAP_AMBIENT_RAISE_def pr_CAP_AMBIENT_LOWER_def
      intro!: thread_caps.equality)

lemma thread_kernel_drops: "fst (run_drops thread_kernel is k) = None"
  by (induction "is" arbitrary: k) (simp_all add: thread_kernel_def prctl_def err_of_def)

text \<open>The object asks for the ambient capabilities 13 and 14; only 13 is permitted and inheritable.\<close>

definition thread_object :: capsV3 where
  "thread_object = zero_capsV3\<lparr>data := Arr2 \<lparr>effective = 0x100, permitted = 0x2100, inheritable = 0x2000\<rparr> zero_capData,
     ambient := Arr2 0x6000 0\<rparr>"

theorem Apply_all_effect_witness:
  "\<exists>c' k'. V3_Apply thread_kernel 40 thread_object (CAPS OR BOUNDS OR AMBS) \<lparr>t_bset = {3}, t_eff = {8}, t_perm = {8}, t_inh = {}, t_amb = {}\<rparr> =
     Inr (None, c', k') \<and> 13 \<in> t_amb k' \<and> 14 \<notin> t_amb k' \<and> 3 \<notin> t_bset k'"
proof -
  let ?k = "\<lparr>t_bset = {3}, t_eff = {8}, t_perm = {8}, t_inh = {}, t_amb = {}\<rparr> :: thread_caps"
  have get: "sys_capget thread_kernel (hdr thread_object) (Arr2 zero_capData zero_capData) ?k =
      (0, hdr thread_object, Arr2 \<lparr>effective = 0x100, permitted = 0x100, inheritable = 0\<rparr> zero_capData)"
    by (simp add: thread_kernel_def)
  have le63: "(40 :: Cap) \<le> 63" by simp
  have bit8: "bit (effective (at0 (Arr2 \<lparr>effective = 0x100, permitted = 0x100, inheritable = 0\<rparr> zero_capData))) 8"
    by (simp add: bit_simps)
  obtain e1 k1 where r1: "run_drops thread_kernel (filter (\<lambda>i. i \<notin> cap_set (V3_Get thread_object) BOUNDING) [0..40]) ?k = (e1, k1)"
    by fastforce
  obtain e2 k2 where r2: "capset thread_kernel (hdr thread_object) (data thread_object) k1 = (e2, k2)" by fastforce
  have "e1 = None" and "e2 = None"
    using thread_kernel_drops [of "filter (\<lambda>i. i \<notin> cap_set (V3_Get thread_object) BOUNDING) [0..40]" ?k] r1 r2
    by (auto simp: capset_def thread_kernel_def err_of_def)
  then obtain c' k' where run: "V3_Apply thread_kernel 40 thread_object (CAPS OR BOUNDS OR AMBS) ?k = Inr (None, c', k')"
    using Apply_all_eq [OF get _ _ r1 r2] by (auto simp: bit_simps)
  have v: "thread_view k' =
      \<lparr>t_bset = t_bset (thread_view ?k) - {i. 0 \<le> i \<and> i \<le> 40 \<and> i \<notin> cap_set (V3_Get thread_object) BOUNDING},
       t_eff = cap_set (V3_Get thread_object) EFFECTIVE \<inter> {0..40}, t_perm = cap_set (V3_Get thread_object) PERMITTED \<inter> {0..40},
       t_inh = cap_set (V3_Get thread_object) INHERITABLE \<inter> {0..40},
       t_amb = {i. (if 0 \<le> i \<and> i \<le> 40 then i \<in> cap_set (V3_Get thread_object) AMBIENT else i \<in> t_amb (thread_view ?k)) \<and>
          i \<in> cap_set (V3_Get thread_object) PERMITTED \<inter> cap_set (V3_Get thread_object) INHERITABLE \<inter> {0..40}}\<rparr>"
    using Apply_all_effect [OF thread_kernel_docs le63 get bit8] run by (metis (no_types, lifting) Inr_inject prod.inject)
  have "13 \<in> cap_set (V3_Get thread_object) AMBIENT" "13 \<in> cap_set (V3_Get thread_object) PERMITTED"
    "13 \<in> cap_set (V3_Get thread_object) INHERITABLE" "14 \<notin> cap_set (V3_Get thread_object) PERMITTED"
    "3 \<notin> cap_set (V3_Get thread_object) BOUNDING"
    by (simp_all add: cap_set_def V3_Get_def thread_object_def zero_capsV3_def zero_capData_def
        capType_defs valid_cap_def cap_index_def cap_bit_def uint_of_int_def shl1_def)
  then have "13 \<in> t_amb (thread_view k') \<and> 14 \<notin> t_amb (thread_view k') \<and> 3 \<notin> t_bset (thread_view k')"
    unfolding v by simp
  then show ?thesis using run by (auto simp: thread_view_def)
qed

end
