(* ===== verification/CapStatus.thy ===== *)
theory CapStatus
  imports CapKernel
begin

text \<open>
  Writing and reading back: \<open>Apply\<close> of \<open>capability/capability_linux.go\<close> and then \<open>LoadOriginal\<close>
  into another object, on a kernel that reports the sets of the thread through \<open>capget\<close> and the status file.
\<close>

section \<open>The status file\<close>

text \<open>
  \<open>capget\<close> gives the effective, permitted and inheritable sets; the status file has one line for the bounding and
  a later one for the ambient set, each the mask of the capabilities, among the lines of other fields.
\<close>

definition mask_set :: "32 word arr2 \<Rightarrow> Cap set" where
  "mask_set a = {i. valid_cap i \<and> arr2_bit a i}"

definition status_text :: "string list \<Rightarrow> string list \<Rightarrow> string list \<Rightarrow> 32 word arr2 \<Rightarrow> 32 word arr2 \<Rightarrow> string" where
  "status_text pre mid post bs as = concat (map (\<lambda>l. l @ [CHR 0x0A])
     (pre @ [mask_line ''CapBnd:'' bs] @ mid @ [mask_line ''CapAmb:'' as] @ post))"

definition capget_doc :: "'k cap_sys \<Rightarrow> ('k \<Rightarrow> thread_caps) \<Rightarrow> bool" where
  "capget_doc sys view \<longleftrightarrow> (\<forall>h d k. \<exists>h' d'. sys_capget sys h d k = (0, h', d') \<and> pid h' = pid h \<and>
     caps_of effective d' = t_eff (view k) \<and> caps_of permitted d' = t_perm (view k) \<and> caps_of inheritable d' = t_inh (view k))"

definition status_doc :: "('k \<Rightarrow> string \<Rightarrow> errno + string \<times> errno option) \<Rightarrow> ('k \<Rightarrow> thread_caps) \<Rightarrow> 32 word \<Rightarrow> bool" where
  "status_doc open_status view p \<longleftrightarrow> (\<forall>k. \<exists>pre mid post bs as.
     list_all other_line (pre @ mid @ post) \<and> mask_set bs = t_bset (view k) \<and> mask_set as = t_amb (view k) \<and>
     open_status k (status_path p) = Inr (status_text pre mid post bs as, None))"

text \<open>The lines of the file and what each does to the object.\<close>

lemma status_text_lines:
  assumes "list_all other_line (pre @ mid @ post)"
  shows "fold load_status_line
     (map (\<lambda>l. l @ [CHR 0x0A]) (butlast (split_on (CHR 0x0A) (status_text pre mid post bs as)))) c =
   c\<lparr>bounds := bs, ambient := as\<rparr>"
proof -
  let ?ls = "pre @ [mask_line ''CapBnd:'' bs] @ mid @ [mask_line ''CapAmb:'' as] @ post"
  have "list_all (\<lambda>l. CHR 0x0A \<notin> set l) ?ls"
    using assms mask_line_newline [of "''CapBnd:''" bs] mask_line_newline [of "''CapAmb:''" as]
    by (auto simp: list_all_iff other_line_def)
  then have "butlast (split_on (CHR 0x0A) (status_text pre mid post bs as)) = ?ls"
    unfolding status_text_def by (simp only: split_on_lines butlast_snoc)
  then show ?thesis using assms by (simp add: load_other_lines load_mask_lines)
qed

text \<open>What an object holds after \<open>LoadOriginal\<close>: all five sets of the thread.\<close>

definition shows_caps :: "capsV3 \<Rightarrow> thread_caps \<Rightarrow> bool" where
  "shows_caps c v \<longleftrightarrow> cap_set (V3_Get c) EFFECTIVE = t_eff v \<and> cap_set (V3_Get c) PERMITTED = t_perm v \<and>
     cap_set (V3_Get c) INHERITABLE = t_inh v \<and> cap_set (V3_Get c) BOUNDING = t_bset v \<and>
     cap_set (V3_Get c) AMBIENT = t_amb v"

lemma cap_set_masks: "cap_set (V3_Get c) BOUNDING = mask_set (bounds c)" "cap_set (V3_Get c) AMBIENT = mask_set (ambient c)"
  by (simp_all add: V3_cap_set mask_set_def V3_getData_def single_kinds_def capType_defs)

lemma LoadOriginal_shows:
  assumes "capget_doc sys view" and "status_doc open_status view (pid (hdr c))"
  shows "\<exists>c'. V3_LoadOriginal sys (open_status k) c k = (None, c') \<and> shows_caps c' (view k)"
proof -
  obtain h d where g: "sys_capget sys (hdr c) (data c) k = (0, h, d)" "pid h = pid (hdr c)"
    "caps_of effective d = t_eff (view k)" "caps_of permitted d = t_perm (view k)" "caps_of inheritable d = t_inh (view k)"
    using assms(1) unfolding capget_doc_def by blast
  obtain pre mid post bs as where f: "list_all other_line (pre @ mid @ post)" "mask_set bs = t_bset (view k)"
    "mask_set as = t_amb (view k)" "open_status k (status_path (pid (hdr c))) = Inr (status_text pre mid post bs as, None)"
    using assms(2) unfolding status_doc_def by blast
  let ?c = "c\<lparr>hdr := h, data := d, bounds := bs, ambient := as\<rparr>"
  have "V3_LoadOriginal sys (open_status k) c k = (None, ?c)"
    using g f(4) by (simp add: V3_LoadOriginal_def capget_def err_of_def status_text_lines [OF f(1)])
  moreover have "shows_caps ?c (view k)"
    using g f caps_of_data [of ?c] by (simp add: shows_caps_def cap_set_masks)
  ultimately show ?thesis by blast
qed


section \<open>Witness\<close>

text \<open>The kernel of \<open>CapKernel\<close>, with the state cut to the capabilities 0 to 40 and its sets reported.\<close>

definition known40 :: "thread_caps \<Rightarrow> thread_caps" where
  "known40 k = \<lparr>t_bset = t_bset k \<inter> {0..40}, t_eff = t_eff k \<inter> {0..40}, t_perm = t_perm k \<inter> {0..40},
     t_inh = t_inh k \<inter> {0..40}, t_amb = t_amb k \<inter> {0..40}\<rparr>"

definition set_mask :: "Cap set \<Rightarrow> 32 word arr2" where
  "set_mask S = Arr2 (horner_sum of_bool 2 (map (\<lambda>i. int i \<in> S) [0..<32])) (horner_sum of_bool 2 (map (\<lambda>i. int i + 32 \<in> S) [0..<32]))"

lemma arr2_bit_set_mask: "valid_cap i \<Longrightarrow> arr2_bit (set_mask S) i \<longleftrightarrow> i \<in> S"
proof -
  assume v: "valid_cap i"
  have "i mod 32 + 32 = i" if "31 < i" using that v unfolding valid_cap_def by presburger
  then show ?thesis
    using v by (auto simp: set_mask_def arr2_bit_def valid_cap_def bit_horner_sum_bit_iff cap_bit_def uint_of_int_def)
qed

definition report_data :: "thread_caps \<Rightarrow> capData arr2" where
  "report_data v =
    Arr2 \<lparr>effective = at0 (set_mask (t_eff v)), permitted = at0 (set_mask (t_perm v)), inheritable = at0 (set_mask (t_inh v))\<rparr>
      \<lparr>effective = at1 (set_mask (t_eff v)), permitted = at1 (set_mask (t_perm v)), inheritable = at1 (set_mask (t_inh v))\<rparr>"

definition report_kernel :: "thread_caps cap_sys" where
  "report_kernel = thread_kernel
    \<lparr>sys_capget := (\<lambda>h d k. (0, h, report_data (known40 k))),
     sys_prctl := (\<lambda>opt a2 a3 a4 a5 k. sys_prctl thread_kernel opt a2 a3 a4 a5 (known40 k))\<rparr>"

definition report_status :: "thread_caps \<Rightarrow> string \<Rightarrow> errno + string \<times> errno option" where
  "report_status k p = Inr (status_text [''Name: sh''] [] [] (set_mask (t_bset (known40 k))) (set_mask (t_amb (known40 k))), None)"

lemma report_kernel_docs:
  "drop_doc report_kernel known40" "capset_doc report_kernel known40 {0..40}"
  "raise_doc report_kernel known40" "lower_doc report_kernel known40"
  by (auto simp: drop_doc_def capset_doc_def raise_doc_def lower_doc_def report_kernel_def thread_kernel_def known40_def
      valid_cap_def uint_of_int_def EINVAL_def PR_CAPBSET_DROP_def pr_CAP_AMBIENT_def pr_CAP_AMBIENT_RAISE_def
      pr_CAP_AMBIENT_LOWER_def intro!: thread_caps.equality)

lemma report_reads: "capget_doc report_kernel known40" "status_doc report_status known40 p"
proof -
  have m: "{i. valid_cap i \<and> arr2_bit (set_mask (S \<inter> {0..40})) i} = S \<inter> {0..40}" for S
    by (auto simp: arr2_bit_set_mask valid_cap_def)
  have "map_arr2 effective (report_data v) = set_mask (t_eff v)" "map_arr2 permitted (report_data v) = set_mask (t_perm v)"
    "map_arr2 inheritable (report_data v) = set_mask (t_inh v)" for v
    by (simp_all add: report_data_def set_mask_def)
  then show "capget_doc report_kernel known40"
    by (simp add: capget_doc_def report_kernel_def caps_of_def known40_def m)
  have "list_all other_line ([''Name: sh''] @ [] @ [])" by (simp add: other_line_def HasPrefix_def)
  then show "status_doc report_status known40 p"
    unfolding status_doc_def report_status_def
    by (intro allI exI [of _ "[''Name: sh'']"] exI [of _ "[]"] exI conjI) (simp_all add: mask_set_def known40_def m)
qed


end
