(* ===== verification/CapInit.thy ===== *)
theory CapInit
  imports CapProcess
begin

text \<open>
  The first use of the package by several goroutines at once: \<open>newPid\<close>, \<open>initialize\<close> and \<open>initLastCap\<close> of
  \<open>capability/capability_linux.go\<close> as steps that other calls may come between. The mutex makes the reading and the
  writing of \<open>pkgInitialized\<close> single steps and covers nothing else: calls that find the flag unset all initialise.
  A step reads or writes one variable of the package; words are read and written as a whole.
\<close>

section \<open>Steps\<close>

text \<open>
  Where a call is: at \<open>initializationCompleted\<close>; at \<open>capget\<close> and the store of the version it gave; in \<open>initLastCap\<close>
  at the test of \<open>capLastCap\<close>, the reading of the file and the \<open>Sscanf\<close> into \<open>capLastCap\<close>; at the
  store of \<open>CAP_LAST_CAP\<close>; at the test and the two stores of \<open>capUpperMask\<close>; at the store of the flag; at the \<open>switch\<close>
  of \<open>newPid\<close>; at the store of the version in the new object; back.
\<close>

datatype init_pc =
    AtCheck
  | AtVersion
  | AtStoreVersion "32 word"
  | AtTestLast
  | AtRead
  | AtScan string
  | AtLastCap
  | AtMaskTest
  | AtMaskHigh
  | AtMaskZero
  | AtComplete
  | AtSwitch
  | AtFill
  | AtDone "capsV3 option"

definition last_cap_buffer :: "string \<Rightarrow> string" where
  "last_cap_buffer content = take 11 content @ replicate (11 - length content) (CHR 0x00)"

text \<open>The steps of \<open>newPid\<close> itself, which only read the variables.\<close>

fun newPid_move :: "int \<Rightarrow> init_pc \<Rightarrow> capGlobals \<Rightarrow> init_pc" where
  "newPid_move p AtCheck g = (if pkgInitialized g then AtSwitch else AtVersion)"
| "newPid_move p AtSwitch g =
     (if capVers g = linuxCapVer2 \<or> capVers g = linuxCapVer3 then AtFill else AtDone None)"
| "newPid_move p AtFill g = AtDone (Some (zero_capsV3\<lparr>hdr := \<lparr>version = capVers g, pid = word_of_int p\<rparr>\<rparr>))"
| "newPid_move p pc g = pc"

text \<open>All steps: those of \<open>initialize\<close> and \<open>initLastCap\<close> write the variables.\<close>

fun init_move :: "'k cap_sys \<Rightarrow> 'k \<Rightarrow> string option \<Rightarrow> int \<Rightarrow> init_pc \<Rightarrow> capGlobals \<Rightarrow> init_pc \<times> capGlobals" where
  "init_move sys k proc_file p AtCheck g = (newPid_move p AtCheck g, g)"
| "init_move sys k proc_file p AtVersion g =
     (AtStoreVersion (version (snd (capget_nil sys \<lparr>version = 0, pid = 0\<rparr> k))), g)"
| "init_move sys k proc_file p (AtStoreVersion v) g = (AtTestLast, g\<lparr>capVers := v\<rparr>)"
| "init_move sys k proc_file p AtTestLast g = (if capLastCap g \<noteq> 0 then AtLastCap else AtRead, g)"
| "init_move sys k proc_file p AtRead g =
     (case proc_file of
        None \<Rightarrow> (AtComplete, g)
      | Some content \<Rightarrow> if content = [] then (AtComplete, g) else (AtScan (last_cap_buffer content), g))"
| "init_move sys k proc_file p (AtScan b) g =
     (case fst (sscanf [FInt] b) of
        [VInt n] \<Rightarrow> (AtLastCap, g\<lparr>capLastCap := n\<rparr>)
      | _ \<Rightarrow> (AtLastCap, g))"
| "init_move sys k proc_file p AtLastCap g = (AtMaskTest, g\<lparr>CAP_LAST_CAP := capLastCap g\<rparr>)"
| "init_move sys k proc_file p AtMaskTest g = (if capLastCap g > 31 then AtMaskHigh else AtMaskZero, g)"
| "init_move sys k proc_file p AtMaskHigh g = (AtComplete, g\<lparr>capUpperMask := shl1 (uint_of_int (capLastCap g) - 31) - 1\<rparr>)"
| "init_move sys k proc_file p AtMaskZero g = (AtComplete, g\<lparr>capUpperMask := 0\<rparr>)"
| "init_move sys k proc_file p AtComplete g = (AtSwitch, g\<lparr>pkgInitialized := True\<rparr>)"
| "init_move sys k proc_file p AtSwitch g = (newPid_move p AtSwitch g, g)"
| "init_move sys k proc_file p AtFill g = (newPid_move p AtFill g, g)"
| "init_move sys k proc_file p (AtDone r) g = (AtDone r, g)"

text \<open>Calls are numbered; the pid a call asks for is \<open>pids t\<close>. Any call that has not returned may go on.\<close>

inductive init_reach ::
  "'k cap_sys \<Rightarrow> 'k \<Rightarrow> string option \<Rightarrow> (nat \<Rightarrow> int) \<Rightarrow> capGlobals \<Rightarrow> capGlobals \<Rightarrow> (nat \<Rightarrow> init_pc) \<Rightarrow> bool"
  for sys k proc_file pids g0 where
    init_start: "init_reach sys k proc_file pids g0 g0 (\<lambda>_. AtCheck)"
  | init_go: "init_reach sys k proc_file pids g0 g pcs \<Longrightarrow> init_move sys k proc_file (pids t) (pcs t) g = (pc', g') \<Longrightarrow>
      init_reach sys k proc_file pids g0 g' (pcs(t := pc'))"

section \<open>What holds in between\<close>

text \<open>\<open>gT\<close> is what a single \<open>initialize\<close> leaves. Writes go toward it, and no variable is anything but the old or the new one.\<close>

definition toward :: "capGlobals \<Rightarrow> capGlobals \<Rightarrow> capGlobals \<Rightarrow> bool" where
  "toward gT g g' \<longleftrightarrow> capVers g' \<in> {capVers g, capVers gT} \<and> capLastCap g' \<in> {capLastCap g, capLastCap gT} \<and>
     CAP_LAST_CAP g' \<in> {CAP_LAST_CAP g, CAP_LAST_CAP gT} \<and> capUpperMask g' \<in> {capUpperMask g, capUpperMask gT} \<and>
     pkgInitialized g' \<in> {pkgInitialized g, pkgInitialized gT}"

lemma toward_refl [simp]: "toward gT g g"
  by (simp add: toward_def)

lemma one_of_two_trans: "b \<in> {a, t} \<Longrightarrow> c \<in> {b, t} \<Longrightarrow> c \<in> {a, t}"
  by auto

lemma toward_trans: "toward gT g g' \<Longrightarrow> toward gT g' g'' \<Longrightarrow> toward gT g g''"
  unfolding toward_def by (elim conjE, intro conjI; erule (1) one_of_two_trans)

lemma toward_end: "toward gT gT g \<Longrightarrow> g = gT"
  by (simp add: toward_def capGlobals.equality)

definition before_flag :: "capGlobals \<Rightarrow> capGlobals \<Rightarrow> bool" where
  "before_flag gT g \<longleftrightarrow> capVers g = capVers gT \<and> capLastCap g = capLastCap gT \<and> CAP_LAST_CAP g = CAP_LAST_CAP gT \<and>
     capUpperMask g = capUpperMask gT"

text \<open>What a call relies on at each place; \<open>ok\<close> is whether \<open>initLastCap\<close> returns no error and \<open>r\<close> what the call returns alone.\<close>

fun settled :: "string option \<Rightarrow> capGlobals \<Rightarrow> bool \<Rightarrow> capGlobals \<Rightarrow> capsV3 option \<Rightarrow> init_pc \<Rightarrow> capGlobals \<Rightarrow> bool" where
  "settled proc_file g0 ok gT r AtCheck g \<longleftrightarrow> True"
| "settled proc_file g0 ok gT r AtVersion g \<longleftrightarrow> True"
| "settled proc_file g0 ok gT r (AtStoreVersion v) g \<longleftrightarrow> v = capVers gT"
| "settled proc_file g0 ok gT r AtTestLast g \<longleftrightarrow> capVers g = capVers gT"
| "settled proc_file g0 ok gT r AtRead g \<longleftrightarrow> capVers g = capVers gT \<and> capLastCap g0 = 0"
| "settled proc_file g0 ok gT r (AtScan b) g \<longleftrightarrow> capVers g = capVers gT \<and> capLastCap g0 = 0 \<and>
     (\<exists>content. proc_file = Some content \<and> content \<noteq> [] \<and> b = last_cap_buffer content)"
| "settled proc_file g0 ok gT r AtLastCap g \<longleftrightarrow> capVers g = capVers gT \<and> capLastCap g = capLastCap gT \<and> ok"
| "settled proc_file g0 ok gT r AtMaskTest g \<longleftrightarrow> capVers g = capVers gT \<and> capLastCap g = capLastCap gT \<and>
     CAP_LAST_CAP g = CAP_LAST_CAP gT \<and> ok"
| "settled proc_file g0 ok gT r AtMaskHigh g \<longleftrightarrow> capVers g = capVers gT \<and> capLastCap g = capLastCap gT \<and>
     CAP_LAST_CAP g = CAP_LAST_CAP gT \<and> ok \<and> capLastCap gT > 31"
| "settled proc_file g0 ok gT r AtMaskZero g \<longleftrightarrow> capVers g = capVers gT \<and> capLastCap g = capLastCap gT \<and>
     CAP_LAST_CAP g = CAP_LAST_CAP gT \<and> ok \<and> \<not> capLastCap gT > 31"
| "settled proc_file g0 ok gT r AtComplete g \<longleftrightarrow> before_flag gT g"
| "settled proc_file g0 ok gT r AtSwitch g \<longleftrightarrow> g = gT"
| "settled proc_file g0 ok gT r AtFill g \<longleftrightarrow> g = gT \<and> (capVers gT = linuxCapVer2 \<or> capVers gT = linuxCapVer3)"
| "settled proc_file g0 ok gT r (AtDone r') g \<longleftrightarrow> g = gT \<and> r' = r"

lemma toward_keeps:
  "toward gT g g' \<Longrightarrow> capVers g = capVers gT \<Longrightarrow> capVers g' = capVers gT"
  "toward gT g g' \<Longrightarrow> capLastCap g = capLastCap gT \<Longrightarrow> capLastCap g' = capLastCap gT"
  "toward gT g g' \<Longrightarrow> CAP_LAST_CAP g = CAP_LAST_CAP gT \<Longrightarrow> CAP_LAST_CAP g' = CAP_LAST_CAP gT"
  "toward gT g g' \<Longrightarrow> capUpperMask g = capUpperMask gT \<Longrightarrow> capUpperMask g' = capUpperMask gT"
  by (simp_all add: toward_def)

lemma settled_stable:
  assumes "settled proc_file g0 ok gT r pc g" and "toward gT g g'"
  shows "settled proc_file g0 ok gT r pc g'"
proof -
  note keeps = toward_keeps [OF assms(2)]
  have e: "g = gT \<Longrightarrow> g' = gT" using assms(2) toward_end by blast
  show ?thesis using assms(1)
    by (cases pc) (simp_all only: settled.simps before_flag_def, simp_all add: keeps, (use e in blast)+)
qed

text \<open>The last capability a single call finds, and whether it finds one.\<close>

definition scanned_last :: "string option \<Rightarrow> Cap \<Rightarrow> Cap \<times> bool" where
  "scanned_last proc_file l0 =
    (if l0 \<noteq> 0 then (l0, True)
     else case proc_file of None \<Rightarrow> (l0, False) | Some content \<Rightarrow>
       if content = [] then (l0, False)
       else (case fst (sscanf [FInt] (last_cap_buffer content)) of [VInt n] \<Rightarrow> (n, True) | _ \<Rightarrow> (l0, True)))"

definition upper_mask :: "Cap \<Rightarrow> 32 word" where
  "upper_mask l = (if l > 31 then shl1 (uint_of_int l - 31) - 1 else 0)"

lemma initLastCap_scanned:
  "initLastCap proc_file g = (case scanned_last proc_file (capLastCap g) of (l, ok) \<Rightarrow> (g\<lparr>capLastCap := l\<rparr>, ok))"
  by (auto simp: initLastCap_def scanned_last_def last_cap_buffer_def Let_def split: option.split list.split scan_val.split)

lemma initialize_scanned:
  "initialize sys k proc_file g =
    (case scanned_last proc_file (capLastCap g) of (l, ok) \<Rightarrow>
      g\<lparr>capVers := version (snd (capget_nil sys \<lparr>version = 0, pid = 0\<rparr> k)), capLastCap := l,
        CAP_LAST_CAP := (if ok then l else CAP_LAST_CAP g), capUpperMask := (if ok then upper_mask l else capUpperMask g),
        pkgInitialized := True\<rparr>)"
  by (simp add: initialize_def initLastCap_scanned upper_mask_def Let_def split: prod.split)

lemma scanned_last_zero: "scanned_last proc_file l0 = (l, ok) \<Longrightarrow> l0 \<noteq> 0 \<Longrightarrow> l = l0 \<and> ok"
  "scanned_last proc_file l0 = (l, ok) \<Longrightarrow> l \<noteq> 0 \<Longrightarrow> ok"
  by (auto simp: scanned_last_def split: if_splits option.splits list.splits scan_val.splits)

text \<open>What a call finds at the test of \<open>capLastCap\<close>, and what it leaves when the file gives nothing.\<close>

lemma test_last_settled:
  assumes "toward gT g0 g" and sc: "scanned_last proc_file (capLastCap g0) = (capLastCap gT, ok)"
  shows "if capLastCap g \<noteq> 0 then capLastCap g = capLastCap gT \<and> ok else capLastCap g0 = 0"
proof (cases "capLastCap g = 0")
  case True
  have "capLastCap g0 = 0"
  proof (rule ccontr)
    assume l0: "capLastCap g0 \<noteq> 0"
    from this scanned_last_zero(1) [OF sc this] show False using True assms(1) by (simp add: toward_def)
  qed
  with True show ?thesis by simp
next
  case False
  then show ?thesis using assms(1) scanned_last_zero [OF sc] by (auto simp: toward_def)
qed

lemma read_nothing_settled:
  assumes "toward gT g0 g" and "scanned_last proc_file (capLastCap g0) = (l, ok)" and "capLastCap g0 = 0"
    and "proc_file = None \<or> proc_file = Some []" and "capVers g = capVers gT" and "capLastCap gT = l"
    and "CAP_LAST_CAP gT = (if ok then l else CAP_LAST_CAP g0)" and "capUpperMask gT = (if ok then upper_mask l else capUpperMask g0)"
  shows "before_flag gT g"
proof -
  have "l = 0" "\<not> ok" using assms(2-4) by (auto simp: scanned_last_def)
  then show ?thesis using assms(1,3,5-8) by (simp add: before_flag_def toward_def)
qed

text \<open>One step of one call.\<close>

lemma init_move_settled:
  assumes "\<not> pkgInitialized g0" and gT: "gT = initialize sys k proc_file g0"
    and sc: "scanned_last proc_file (capLastCap g0) = (l, ok)"
    and r: "r = (if capVers gT = linuxCapVer2 \<or> capVers gT = linuxCapVer3
       then Some (zero_capsV3\<lparr>hdr := \<lparr>version = capVers gT, pid = word_of_int p\<rparr>\<rparr>) else None)"
    and g: "toward gT g0 g" "pkgInitialized g \<longrightarrow> g = gT" and s: "settled proc_file g0 ok gT r pc g"
    and m: "init_move sys k proc_file p pc g = (pc', g')"
  shows "toward gT g g' \<and> (pkgInitialized g' \<longrightarrow> g' = gT) \<and> settled proc_file g0 ok gT r pc' g'"
proof -
  have f: "capVers gT = version (snd (capget_nil sys \<lparr>version = 0, pid = 0\<rparr> k))" "capLastCap gT = l"
    "CAP_LAST_CAP gT = (if ok then l else CAP_LAST_CAP g0)" "capUpperMask gT = (if ok then upper_mask l else capUpperMask g0)"
    "pkgInitialized gT"
    by (simp_all add: gT initialize_scanned sc)
  have flag: ?thesis if "toward gT g g'" "pkgInitialized g' = pkgInitialized g" "settled proc_file g0 ok gT r pc' g'"
    using that g(2) toward_end by blast
  note t = g(1) [unfolded toward_def]
  show ?thesis
  proof (cases pc)
    case AtTestLast
    from test_last_settled [OF g(1) sc [folded f(2)]] show ?thesis
      using s m AtTestLast by (intro flag) (auto simp: g(1) split: if_splits)
  next
    case AtRead
    then have l0: "capLastCap g0 = 0" and v: "capVers g = capVers gT" using s by simp_all
    show ?thesis
    proof (cases "proc_file = None \<or> proc_file = Some []")
      case True
      have "before_flag gT g" by (rule read_nothing_settled [OF g(1) sc l0 True v f(2-4)])
      then show ?thesis using True m g(2) AtRead by (intro flag) (auto simp: g(1))
    next
      case False
      then obtain y where "proc_file = Some y" "y \<noteq> []" by auto
      then show ?thesis using m l0 v AtRead by (intro flag) (auto simp: g(1))
    qed
  next
    case (AtScan b)
    have "capLastCap g \<in> {capLastCap g0, l}" using t by (simp add: f(2))
    then show ?thesis using s m sc AtScan f(2) by (intro flag)
      (auto simp: scanned_last_def toward_def split: list.splits scan_val.splits)
  next
    case AtComplete
    then have "g' = gT" using s m f by (auto simp: before_flag_def intro: capGlobals.equality)
    then show ?thesis using AtComplete s m by (auto simp: before_flag_def toward_def)
  next
    case AtCheck
    then show ?thesis using m g(2) by (intro flag) (auto split: if_splits)
  next
    case AtDone
    then show ?thesis using s m by (intro flag) auto
  next
    case AtSwitch
    then show ?thesis using s m r by (intro flag) (auto split: if_splits)
  next
    case AtFill
    then show ?thesis using s m r by (intro flag) auto
  next
    case AtMaskTest
    then show ?thesis using s m by (intro flag) (auto split: if_splits)
  qed (rule flag; use s m f in \<open>force simp: toward_def before_flag_def upper_mask_def\<close>)+
qed

section \<open>Every interleaving\<close>

lemma newPid_fresh:
  "\<not> pkgInitialized g0 \<Longrightarrow> newPid sys k proc_file p g0 =
    (let gT = initialize sys k proc_file g0
     in (gT, if capVers gT = linuxCapVer2 \<or> capVers gT = linuxCapVer3
        then Some (zero_capsV3\<lparr>hdr := \<lparr>version = capVers gT, pid = word_of_int p\<rparr>\<rparr>) else None))"
  by (simp add: newPid_def)

lemma init_reach_settled:
  assumes "\<not> pkgInitialized g0" and "init_reach sys k proc_file pids g0 g pcs"
    and sc: "scanned_last proc_file (capLastCap g0) = (l, ok)" and gT: "gT = initialize sys k proc_file g0"
  shows "toward gT g0 g \<and> (pkgInitialized g \<longrightarrow> g = gT) \<and>
    (\<forall>t. settled proc_file g0 ok gT (snd (newPid sys k proc_file (pids t) g0)) (pcs t) g)"
  using assms(2)
proof induction
  case init_start
  then show ?case using assms(1) by simp
next
  case (init_go g pcs t pc' g')
  have r: "snd (newPid sys k proc_file (pids t) g0) = (if capVers gT = linuxCapVer2 \<or> capVers gT = linuxCapVer3
      then Some (zero_capsV3\<lparr>hdr := \<lparr>version = capVers gT, pid = word_of_int (pids t)\<rparr>\<rparr>) else None)" for t
    by (simp add: newPid_fresh [OF assms(1)] gT)
  have m: "toward gT g g' \<and> (pkgInitialized g' \<longrightarrow> g' = gT) \<and>
      settled proc_file g0 ok gT (snd (newPid sys k proc_file (pids t) g0)) pc' g'"
    by (rule init_move_settled [OF assms(1) gT sc r]) (use init_go in auto)
  then have "settled proc_file g0 ok gT (snd (newPid sys k proc_file (pids u) g0)) (pcs u) g'" for u
    using init_go.IH settled_stable by blast
  then show ?case using m init_go.IH toward_trans by (metis fun_upd_apply)
qed

text \<open>
  C9. Any number of calls of \<open>newPid\<close>, for any pids, may initialise the package at the same time, without a lock between them:
  whatever the interleaving of their steps, a call that has returned gave what it gives alone, and from then on the
  variables of the package are those one initialisation leaves, although other calls may still be writing them.
\<close>

theorem newPid_interleaved:
  assumes "\<not> pkgInitialized g0" and "init_reach sys k proc_file pids g0 g pcs" and "pcs t = AtDone r"
  shows "newPid sys k proc_file (pids t) g0 = (g, r)"
proof -
  obtain l ok where sc: "scanned_last proc_file (capLastCap g0) = (l, ok)" by fastforce
  have "settled proc_file g0 ok (initialize sys k proc_file g0) (snd (newPid sys k proc_file (pids t) g0)) (pcs t) g"
    using init_reach_settled [OF assms(1,2) sc refl] by (elim conjE allE)
  then show ?thesis using assms(3) by (simp add: newPid_fresh [OF assms(1)] Let_def)
qed

text \<open>A schedule is the list of the calls in the order they step.\<close>

fun init_schedule ::
  "'k cap_sys \<Rightarrow> 'k \<Rightarrow> string option \<Rightarrow> (nat \<Rightarrow> int) \<Rightarrow> nat list \<Rightarrow> capGlobals \<times> (nat \<Rightarrow> init_pc) \<Rightarrow> capGlobals \<times> (nat \<Rightarrow> init_pc)" where
  "init_schedule sys k proc_file pids [] s = s"
| "init_schedule sys k proc_file pids (t # ts) (g, pcs) =
     (let (pc', g') = init_move sys k proc_file (pids t) (pcs t) g
      in init_schedule sys k proc_file pids ts (g', pcs(t := pc')))"

lemma init_schedule_reach:
  "init_reach sys k proc_file pids g0 g pcs \<Longrightarrow> init_schedule sys k proc_file pids ts (g, pcs) = (g', pcs') \<Longrightarrow>
   init_reach sys k proc_file pids g0 g' pcs'"
  by (induction ts arbitrary: g pcs) (auto split: prod.splits intro: init_go)

lemma demo_version: "snd (capget_nil (demo_kernel e) h k) = h\<lparr>version := linuxCapVer3\<rparr>"
  by (simp add: capget_nil_def demo_kernel_def)

lemma demo_scan: "fst (sscanf [FInt] (last_cap_buffer ''40'')) = [VInt 40]"
  by code_simp

theorem newPid_interleaved_witness:
  "\<exists>g pcs r. init_reach (demo_kernel 0) {} (Some ''40'') int globals0 g pcs \<and> pcs 1 = AtDone r \<and> pcs 0 = AtMaskHigh \<and>
    newPid (demo_kernel 0) {} (Some ''40'') 1 globals0 = (g, r)"
proof -
  let ?ts = "[0, 1, 0, 0, 1, 1, 0, 0, 1, 0, 0, 1, 1, 1, 0, 1, 1, 1, 1, 1] :: nat list"
  obtain g pcs where s: "init_schedule (demo_kernel 0) {} (Some ''40'') int ?ts (globals0, \<lambda>_. AtCheck) = (g, pcs)"
    by fastforce
  have "init_reach (demo_kernel 0) {} (Some ''40'') int globals0 g pcs"
    by (rule init_schedule_reach [OF init_start s])
  moreover obtain r where "pcs 1 = AtDone r" and "pcs 0 = AtMaskHigh"
    using s by (auto simp: demo_version globals0_def demo_scan linuxCapVer3_def simp del: sscanf.simps)
  ultimately show ?thesis
    using newPid_interleaved [of globals0 "demo_kernel 0" "{}" "Some ''40''" int g pcs 1 r] by (auto simp: globals0_def)
qed

end
