(* ===== verification/CapsFile.thy ===== *)
theory CapsFile
  imports CapVfs
begin

text \<open>
  The file capabilities \<open>capsFile\<close> of \<open>capability/capability_linux.go\<close>: the same
  interface over \<open>vfscapData\<close>, where version 1 has room for the capabilities up to 31 only.
  The interpretation of \<open>capabilities\<close> holds for loaded objects; the properties add what differs
  on fresh and on version 1 objects, and that \<open>Apply\<close> and \<open>Load\<close> go through the attribute.
\<close>

record capsFile =
  path :: string
  fdata :: vfscapData

definition newFile :: "string \<Rightarrow> capsFile" where
  "newFile p = \<lparr>path = p, fdata = zero_vfscapData\<rparr>"

section \<open>Operations\<close>

definition File_Get :: "capsFile \<Rightarrow> CapType \<Rightarrow> Cap \<Rightarrow> bool go" where
  "File_Get c which what =
    (if what > 31 \<and> vversion (fdata c) = 1 then Inr False
     else
       let i = cap_index what; m = shl1 (cap_bit what)
       in if which = EFFECTIVE then mapE (\<lambda>w. m AND w \<noteq> 0) (arr2_get (veffective (fdata c)) i)
          else if which = PERMITTED then mapE (\<lambda>p. m AND vpermitted p \<noteq> 0) (arr2_get (vdata (fdata c)) i)
          else if which = INHERITABLE then mapE (\<lambda>p. m AND vinheritable p \<noteq> 0) (arr2_get (vdata (fdata c)) i)
          else Inr False)"

definition File_getData :: "capsFile \<Rightarrow> CapType \<Rightarrow> 32 word arr2 \<Rightarrow> 32 word arr2" where
  "File_getData c which dest =
    (if which = EFFECTIVE then veffective (fdata c)
     else if which = PERMITTED then map_arr2 vpermitted (vdata (fdata c))
     else if which = INHERITABLE then map_arr2 vinheritable (vdata (fdata c))
     else dest)"

definition File_GetEffCaps :: "capsFile \<Rightarrow> 32 word arr2" where
  "File_GetEffCaps c = File_getData c EFFECTIVE (Arr2 0 0)"

definition File_SetEffCaps :: "capsFile \<Rightarrow> 32 word arr2 \<Rightarrow> capsFile" where
  "File_SetEffCaps c caps = c\<lparr>fdata := (fdata c)\<lparr>veffective := Arr2 (at0 caps) (at1 caps)\<rparr>\<rparr>"

definition File_Empty :: "capsFile \<Rightarrow> CapType \<Rightarrow> bool" where
  "File_Empty c which = (let d = File_getData c which (Arr2 0 0) in at0 d = 0 \<and> at1 d = 0)"

definition File_Full :: "32 word \<Rightarrow> capsFile \<Rightarrow> CapType \<Rightarrow> bool" where
  "File_Full capUpperMask c which =
    (let d = File_getData c which (Arr2 0 0)
     in if vversion (fdata c) = 0 then at0 d AND 0x7fffffff = 0x7fffffff
        else if at0 d AND 0xffffffff \<noteq> 0xffffffff then False
        else at1 d AND capUpperMask = capUpperMask)"

text \<open>The three guarded updates in the loop bodies of \<open>Set\<close> and \<open>Unset\<close>.\<close>

definition fupd_effective :: "nat \<Rightarrow> (32 word \<Rightarrow> 32 word) \<Rightarrow> vfscapData \<Rightarrow> vfscapData go" where
  "fupd_effective i f d = mapE (\<lambda>a. d\<lparr>veffective := a\<rparr>) (arr2_upd i f (veffective d))"

definition fupd_data :: "nat \<Rightarrow> (vfsPerm \<Rightarrow> vfsPerm) \<Rightarrow> vfscapData \<Rightarrow> vfscapData go" where
  "fupd_data i f d = mapE (\<lambda>a. d\<lparr>vdata := a\<rparr>) (arr2_upd i f (vdata d))"

definition File_update_sets :: "CapType \<Rightarrow> nat \<Rightarrow> (32 word \<Rightarrow> 32 word) \<Rightarrow> vfscapData \<Rightarrow> vfscapData go" where
  "File_update_sets which i f d0 =
    bindE (if which AND EFFECTIVE \<noteq> 0 then fupd_effective i f d0 else Inr d0) (\<lambda>d1.
    bindE (if which AND PERMITTED \<noteq> 0 then fupd_data i (vpermitted_update f) d1 else Inr d1) (\<lambda>d2.
    if which AND INHERITABLE \<noteq> 0 then fupd_data i (vinheritable_update f) d2 else Inr d2))"

text \<open>The loop body: version 1 skips (\<open>continue\<close>) a capability above 31.\<close>

definition File_step :: "CapType \<Rightarrow> (32 word \<Rightarrow> 32 word) \<Rightarrow> Cap \<Rightarrow> vfscapData \<Rightarrow> vfscapData go" where
  "File_step which f what d =
    (if what > 31 \<and> vversion d = 1 then Inr d else File_update_sets which (cap_index what) f d)"

definition File_Set :: "capsFile \<Rightarrow> CapType \<Rightarrow> Cap list \<Rightarrow> capsFile go" where
  "File_Set c which caps = mapE (\<lambda>d. c\<lparr>fdata := d\<rparr>)
     (foldE (\<lambda>what. File_step which (\<lambda>w. w OR shl1 (cap_bit what)) what) caps (fdata c))"

definition File_Unset :: "capsFile \<Rightarrow> CapType \<Rightarrow> Cap list \<Rightarrow> capsFile go" where
  "File_Unset c which caps = mapE (\<lambda>d. c\<lparr>fdata := d\<rparr>)
     (foldE (\<lambda>what. File_step which (\<lambda>w. w AND NOT (shl1 (cap_bit what))) what) caps (fdata c))"

text \<open>\<open>Fill\<close> and \<open>Clear\<close>: the lower words always, the upper words for version 2 only.\<close>

definition File_assign :: "32 word \<Rightarrow> vfscapData \<Rightarrow> vfscapData" where
  "File_assign w d =
    (let p = \<lparr>vpermitted = w, vinheritable = 0\<rparr>;
         d1 = d\<lparr>veffective := Arr2 w (at1 (veffective d)), vdata := Arr2 p (at1 (vdata d))\<rparr>
     in if vversion d = 2
        then d1\<lparr>veffective := Arr2 w w, vdata := Arr2 p p\<rparr> else d1)"

definition File_Fill :: "capsFile \<Rightarrow> CapType \<Rightarrow> capsFile" where
  "File_Fill c kind = (if kind AND CAPS = CAPS then c\<lparr>fdata := File_assign 0xffffffff (fdata c)\<rparr> else c)"

definition File_Clear :: "capsFile \<Rightarrow> CapType \<Rightarrow> capsFile" where
  "File_Clear c kind = (if kind AND CAPS = CAPS then c\<lparr>fdata := File_assign 0 (fdata c)\<rparr> else c)"

definition File_StringCap :: "Cap \<Rightarrow> capsFile \<Rightarrow> CapType \<Rightarrow> CapFormat \<Rightarrow> string go" where
  "File_StringCap last_cap c which format = mkStringCap (File_Get c) last_cap which format"

definition File_String :: "Cap \<Rightarrow> 32 word \<Rightarrow> capsFile \<Rightarrow> CapFormat \<Rightarrow> string go option" where
  "File_String last_cap capUpperMask c format =
     mkString (File_Empty c) (File_Full capUpperMask c) (\<lambda>i. File_StringCap last_cap c i format) INHERITABLE"

definition File_Load :: "(string \<Rightarrow> errno + 8 word list) \<Rightarrow> capsFile \<Rightarrow> errno option \<times> capsFile" where
  "File_Load getxattr c =
    (let (err, d) = getVfsCap getxattr (path c) (fdata c) in (err, c\<lparr>fdata := d\<rparr>))"

text \<open>\<open>NewFile\<close> creates and loads, \<open>NewFile2\<close> only creates; \<open>newFile\<close> never fails.\<close>

definition NewFile :: "(string \<Rightarrow> errno + 8 word list) \<Rightarrow> string \<Rightarrow> capsFile \<times> errno option" where
  "NewFile getxattr p = (let (err, c) = File_Load getxattr (newFile p) in (c, err))"

definition NewFile2 :: "string \<Rightarrow> capsFile" where
  "NewFile2 p = newFile p"

definition File_Apply ::
  "(string \<Rightarrow> 8 word list \<Rightarrow> 's \<Rightarrow> errno \<times> 's) \<Rightarrow> capsFile \<Rightarrow> CapType \<Rightarrow> 's \<Rightarrow> errno option \<times> capsFile \<times> 's" where
  "File_Apply setxattr c kind s =
    (if kind AND CAPS = CAPS
     then let (err, d, s') = setVfsCap setxattr (path c) (fdata c) s in (err, c\<lparr>fdata := d\<rparr>, s')
     else (None, c, s))"

section \<open>Operations as changes of capability sets\<close>

text \<open>The sets a file has, the capabilities it has room for, and a loaded object.\<close>

definition file_kinds :: "CapType set" where
  "file_kinds = {EFFECTIVE, PERMITTED, INHERITABLE}"

definition file_holds :: "capsFile \<Rightarrow> Cap \<Rightarrow> bool" where
  "file_holds c n \<longleftrightarrow> (vversion (fdata c) = 1 \<longrightarrow> n \<le> 31)"

abbreviation File_words :: "capsFile \<Rightarrow> CapType \<Rightarrow> 32 word arr2" where
  "File_words c k \<equiv> File_getData c k (Arr2 0 0)"

definition file_wf :: "capsFile \<Rightarrow> bool" where
  "file_wf c \<longleftrightarrow> vversion (fdata c) \<in> {1, 2} \<and>
    (vversion (fdata c) = 1 \<longrightarrow> (\<forall>k \<in> file_kinds. at1 (File_words c k) = 0))"

lemma file_kinds_single: "file_kinds \<subseteq> single_kinds"
  by (auto simp: file_kinds_def single_kinds_def)

lemma File_Get_words:
  "k \<in> file_kinds \<Longrightarrow> File_Get c k n = (if file_holds c n then word_test (File_words c k) n else Inr False)"
  by (auto simp: file_kinds_def File_Get_def File_getData_def word_test_def file_holds_def arr2_get_map
      mapE_mapE Let_def)

lemma File_Get_valid:
  "k \<in> file_kinds \<Longrightarrow> valid_cap n \<Longrightarrow> File_Get c k n = Inr (file_holds c n \<and> arr2_bit (File_words c k) n)"
  by (simp add: File_Get_words word_test_valid)

lemma File_cap_set:
  "k \<in> file_kinds \<Longrightarrow>
   cap_set (File_Get c) k = {n. valid_cap n \<and> file_holds c n \<and> arr2_bit (File_words c k) n}"
  by (auto simp: cap_set_def File_Get_valid)

lemma File_update_sets_words:
  assumes "i < 2"
  shows "\<exists>d. File_update_sets w i f (fdata c) = Inr d \<and> vversion d = vversion (fdata c) \<and>
    (\<forall>k \<in> file_kinds. File_words (c\<lparr>fdata := d\<rparr>) k =
      (if w AND k \<noteq> 0 then (if i = 0 then Arr2 (f (at0 (File_words c k))) (at1 (File_words c k))
                         else Arr2 (at0 (File_words c k)) (f (at1 (File_words c k))))
       else File_words c k))"
proof -
  consider "i = 0" | "i = 1" using assms by linarith
  then show ?thesis
    by cases (cases "vdata (fdata c)"; cases "veffective (fdata c)";
      simp add: File_update_sets_def fupd_data_def fupd_effective_def file_kinds_def File_getData_def)+
qed

text \<open>One round of the loops of \<open>Set\<close> and \<open>Unset\<close>, on the sets and on the upper words.\<close>

lemma File_round:
  assumes n: "valid_cap n"
  shows "\<exists>d'. File_step w (\<lambda>w. w OR shl1 (cap_bit n)) n d = Inr d' \<and> vversion d' = vversion d \<and>
      (\<forall>k \<in> file_kinds. cap_set (File_Get (c\<lparr>fdata := d'\<rparr>)) k =
        (if w AND k \<noteq> 0 then if vversion d = 1 \<longrightarrow> n \<le> 31 then insert n (cap_set (File_Get (c\<lparr>fdata := d\<rparr>)) k)
                            else cap_set (File_Get (c\<lparr>fdata := d\<rparr>)) k
         else cap_set (File_Get (c\<lparr>fdata := d\<rparr>)) k))"
    and "\<exists>d'. File_step w (\<lambda>w. w AND NOT (shl1 (cap_bit n))) n d = Inr d' \<and> vversion d' = vversion d \<and>
      (\<forall>k \<in> file_kinds. cap_set (File_Get (c\<lparr>fdata := d'\<rparr>)) k =
        (if w AND k \<noteq> 0 then cap_set (File_Get (c\<lparr>fdata := d\<rparr>)) k - {n}
         else cap_set (File_Get (c\<lparr>fdata := d\<rparr>)) k))"
    and "File_step w f n d = Inr d' \<Longrightarrow> file_wf (c\<lparr>fdata := d\<rparr>) \<Longrightarrow> file_wf (c\<lparr>fdata := d'\<rparr>)"
proof -
  have lt: "cap_index n < 2" using n by (simp add: cap_index_valid)
  note step = File_update_sets_words [OF lt, of w _ "c\<lparr>fdata := d\<rparr>", simplified]
  show "\<exists>d'. File_step w (\<lambda>w. w OR shl1 (cap_bit n)) n d = Inr d' \<and> vversion d' = vversion d \<and>
      (\<forall>k \<in> file_kinds. cap_set (File_Get (c\<lparr>fdata := d'\<rparr>)) k =
        (if w AND k \<noteq> 0 then if vversion d = 1 \<longrightarrow> n \<le> 31 then insert n (cap_set (File_Get (c\<lparr>fdata := d\<rparr>)) k)
                            else cap_set (File_Get (c\<lparr>fdata := d\<rparr>)) k
         else cap_set (File_Get (c\<lparr>fdata := d\<rparr>)) k))"
    using step [of "\<lambda>w. w OR shl1 (cap_bit n)"] n arr2_bit_update(1) [OF _ n]
    by (cases "n > 31 \<and> vversion d = 1") (auto simp: File_step_def File_cap_set file_holds_def)
  show "\<exists>d'. File_step w (\<lambda>w. w AND NOT (shl1 (cap_bit n))) n d = Inr d' \<and> vversion d' = vversion d \<and>
      (\<forall>k \<in> file_kinds. cap_set (File_Get (c\<lparr>fdata := d'\<rparr>)) k =
        (if w AND k \<noteq> 0 then cap_set (File_Get (c\<lparr>fdata := d\<rparr>)) k - {n}
         else cap_set (File_Get (c\<lparr>fdata := d\<rparr>)) k))"
    using step [of "\<lambda>w. w AND NOT (shl1 (cap_bit n))"] n arr2_bit_update(2) [OF _ n]
    by (cases "n > 31 \<and> vversion d = 1") (auto simp: File_step_def File_cap_set file_holds_def)
  show "File_step w f n d = Inr d' \<Longrightarrow> file_wf (c\<lparr>fdata := d\<rparr>) \<Longrightarrow> file_wf (c\<lparr>fdata := d'\<rparr>)"
    using step [of f] n by (cases "n > 31 \<and> vversion d = 1") (auto simp: File_step_def file_wf_def cap_index_valid)
qed

lemma File_loop_wf:
  assumes "foldE (\<lambda>what. File_step w (f what) what) ns d = Inr d'" and "list_all valid_cap ns"
    and "file_wf (c\<lparr>fdata := d\<rparr>)"
  shows "file_wf (c\<lparr>fdata := d'\<rparr>)"
  using assms(1,3)
proof (rule foldE_invariant)
  fix n d d' assume "n \<in> set ns" and "file_wf (c\<lparr>fdata := d\<rparr>)" and "File_step w (f n) n d = Inr d'"
  then show "file_wf (c\<lparr>fdata := d'\<rparr>)"
    using assms(2) File_round(3) by (auto simp: list_all_iff)
qed

lemma File_Set_sets:
  assumes "list_all valid_cap ns"
  shows "\<exists>c'. File_Set c w ns = Inr c' \<and> file_holds c' = file_holds c \<and> (file_wf c \<longrightarrow> file_wf c') \<and>
    (\<forall>k \<in> file_kinds. cap_set (File_Get c') k =
      (if w AND k \<noteq> 0 then cap_set (File_Get c) k \<union> {n \<in> set ns. file_holds c n} else cap_set (File_Get c) k))"
proof -
  let ?f = "\<lambda>what. File_step w (\<lambda>w. w OR shl1 (cap_bit what)) what"
  have "\<exists>d. foldE ?f ns (fdata c) = Inr d \<and> vversion d = vversion (fdata c) \<and>
      (\<forall>k \<in> file_kinds. cap_set (File_Get (c\<lparr>fdata := d\<rparr>)) k =
        (if w AND k \<noteq> 0 then fold (\<lambda>n X. if vversion (fdata c) = 1 \<longrightarrow> n \<le> 31 then insert n X else X) ns
                            (cap_set (File_Get (c\<lparr>fdata := fdata c\<rparr>)) k)
         else cap_set (File_Get (c\<lparr>fdata := fdata c\<rparr>)) k))"
    by (rule foldE_sets) (use File_round(1) assms in \<open>auto simp: list_all_iff\<close>)
  then obtain d where d: "foldE ?f ns (fdata c) = Inr d" "vversion d = vversion (fdata c)"
    and sets: "\<forall>k \<in> file_kinds. cap_set (File_Get (c\<lparr>fdata := d\<rparr>)) k =
      (if w AND k \<noteq> 0 then cap_set (File_Get c) k \<union> {n \<in> set ns. vversion (fdata c) = 1 \<longrightarrow> n \<le> 31}
       else cap_set (File_Get c) k)"
    by (auto simp: fold_add_caps)
  have "file_wf (c\<lparr>fdata := fdata c\<rparr>) \<Longrightarrow> file_wf (c\<lparr>fdata := d\<rparr>)"
    using File_loop_wf [OF d(1) assms] by simp
  then show ?thesis using d sets by (simp add: File_Set_def file_holds_def fun_eq_iff)
qed

lemma File_Unset_sets:
  assumes "list_all valid_cap ns"
  shows "\<exists>c'. File_Unset c w ns = Inr c' \<and> file_holds c' = file_holds c \<and> (file_wf c \<longrightarrow> file_wf c') \<and>
    (\<forall>k \<in> file_kinds. cap_set (File_Get c') k =
      (if w AND k \<noteq> 0 then cap_set (File_Get c) k - set ns else cap_set (File_Get c) k))"
proof -
  let ?f = "\<lambda>what. File_step w (\<lambda>w. w AND NOT (shl1 (cap_bit what))) what"
  have "\<exists>d. foldE ?f ns (fdata c) = Inr d \<and> vversion d = vversion (fdata c) \<and>
      (\<forall>k \<in> file_kinds. cap_set (File_Get (c\<lparr>fdata := d\<rparr>)) k =
        (if w AND k \<noteq> 0 then fold (\<lambda>n X. X - {n}) ns (cap_set (File_Get (c\<lparr>fdata := fdata c\<rparr>)) k)
         else cap_set (File_Get (c\<lparr>fdata := fdata c\<rparr>)) k))"
    by (rule foldE_sets) (use File_round(2) assms in \<open>auto simp: list_all_iff\<close>)
  then obtain d where d: "foldE ?f ns (fdata c) = Inr d" "vversion d = vversion (fdata c)"
    and sets: "\<forall>k \<in> file_kinds. cap_set (File_Get (c\<lparr>fdata := d\<rparr>)) k =
      (if w AND k \<noteq> 0 then cap_set (File_Get c) k - set ns else cap_set (File_Get c) k)"
    by (auto simp: fold_del_caps)
  have "file_wf (c\<lparr>fdata := fdata c\<rparr>) \<Longrightarrow> file_wf (c\<lparr>fdata := d\<rparr>)"
    using File_loop_wf [OF d(1) assms] by simp
  then show ?thesis using d sets by (simp add: File_Unset_def file_holds_def fun_eq_iff)
qed

lemma File_words_assign:
  "File_words (c\<lparr>fdata := File_assign w (fdata c)\<rparr>) EFFECTIVE =
     (if vversion (fdata c) = 2 then Arr2 w w else Arr2 w (at1 (File_words c EFFECTIVE)))"
  "File_words (c\<lparr>fdata := File_assign w (fdata c)\<rparr>) PERMITTED =
     (if vversion (fdata c) = 2 then Arr2 w w else Arr2 w (at1 (File_words c PERMITTED)))"
  "File_words (c\<lparr>fdata := File_assign w (fdata c)\<rparr>) INHERITABLE =
     (if vversion (fdata c) = 2 then Arr2 0 0 else Arr2 0 (at1 (File_words c INHERITABLE)))"
  "vversion (File_assign w d) = vversion d"
  by (simp_all add: File_assign_def File_getData_def Let_def)

lemma file_kinds_and_CAPS:
  assumes "k \<in> file_kinds"
  shows "k AND CAPS = k" and "w AND CAPS = CAPS \<Longrightarrow> w AND k = k" and "w AND CAPS = 0 \<Longrightarrow> w AND k \<noteq> k"
proof -
  show k: "k AND CAPS = k" using assms by (auto simp: file_kinds_def capType_defs)
  have c: "CAPS AND k = k" using k by (simp only: and.commute)
  moreover have "w AND k = (w AND CAPS) AND k" by (simp only: and.assoc c)
  moreover have "k \<noteq> 0" using assms file_kinds_single kinds_and(2) by blast
  ultimately show "w AND CAPS = CAPS \<Longrightarrow> w AND k = k" and "w AND CAPS = 0 \<Longrightarrow> w AND k \<noteq> k"
    by auto
qed

lemma arr2_bit_lower:
  "valid_cap n \<Longrightarrow> n \<le> 31 \<Longrightarrow> arr2_bit (Arr2 0xffffffff y) n"
  "n \<le> 31 \<Longrightarrow> \<not> arr2_bit (Arr2 0 y) n"
  using cap_bit_less [of n] by (simp_all add: arr2_bit_def ones_word)

lemma File_assign_sets:
  assumes "file_wf c" and "k \<in> file_kinds"
  shows "cap_set (File_Get (c\<lparr>fdata := File_assign 0xffffffff (fdata c)\<rparr>)) k =
      (if k = INHERITABLE then {} else {n. valid_cap n \<and> file_holds c n})"
    and "cap_set (File_Get (c\<lparr>fdata := File_assign 0 (fdata c)\<rparr>)) k = {}"
proof -
  show "cap_set (File_Get (c\<lparr>fdata := File_assign 0xffffffff (fdata c)\<rparr>)) k =
      (if k = INHERITABLE then {} else {n. valid_cap n \<and> file_holds c n})"
    using assms unfolding File_cap_set [OF assms(2)]
    by (cases "vversion (fdata c) = 1")
      (auto simp: file_kinds_def File_words_assign file_holds_def file_wf_def arr2_bit_const arr2_bit_lower)
  show "cap_set (File_Get (c\<lparr>fdata := File_assign 0 (fdata c)\<rparr>)) k = {}"
    using assms unfolding File_cap_set [OF assms(2)]
    by (cases "vversion (fdata c) = 1")
      (auto simp: file_kinds_def File_words_assign file_holds_def file_wf_def arr2_bit_const arr2_bit_lower)
qed

lemma File_assign_wf: "file_wf c \<Longrightarrow> file_wf (c\<lparr>fdata := File_assign w (fdata c)\<rparr>)"
  by (auto simp: file_wf_def file_kinds_def File_words_assign)

lemma file_holds_assign: "file_holds (c\<lparr>fdata := File_assign w (fdata c)\<rparr>) = file_holds c"
  by (simp add: file_holds_def fun_eq_iff File_words_assign)

text \<open>On a loaded object the words and the reported sets have the same content.\<close>

lemma File_wf_words:
  assumes "file_wf c" and "k \<in> file_kinds" and "valid_cap n"
  shows "n \<in> cap_set (File_Get c) k \<longleftrightarrow> arr2_bit (File_words c k) n"
proof -
  have "arr2_bit (File_words c k) n \<Longrightarrow> file_holds c n"
    using assms by (cases "n > 31") (auto simp: file_wf_def file_holds_def arr2_bit_def)
  then show ?thesis using assms by (auto simp: File_cap_set)
qed

lemma File_Empty_iff:
  assumes "file_wf c" and "k \<in> file_kinds"
  shows "File_Empty c k \<longleftrightarrow> cap_set (File_Get c) k = {}"
  using File_wf_words [OF assms] unfolding File_Empty_def Let_def arr2_zero_iff
  by (auto simp: cap_set_def)

lemma File_Full_iff:
  assumes "file_wf c" and "k \<in> file_kinds"
  shows "File_Full umask c k \<longleftrightarrow>
    (\<forall>n. valid_cap n \<and> (n > 31 \<longrightarrow> bit umask (nat n - 32)) \<longrightarrow> n \<in> cap_set (File_Get c) k)"
proof -
  have "vversion (fdata c) \<noteq> 0" using assms(1) by (auto simp: file_wf_def)
  then have "File_Full umask c k \<longleftrightarrow> (at0 (File_words c k) AND 0xffffffff = 0xffffffff \<and>
      at1 (File_words c k) AND umask = umask)" by (simp add: File_Full_def Let_def)
  then show ?thesis unfolding arr2_full_iff using File_wf_words [OF assms] by auto
qed

section \<open>A loaded capsFile implements the interface\<close>

interpretation fcaps: capabilities File_Get File_Set File_Unset File_Fill File_Clear File_Empty File_Full
  file_kinds file_holds file_wf "\<lambda>w. w AND CAPS = CAPS \<or> w AND CAPS = 0"
proof unfold_locales
  fix k n c assume "k \<in> file_kinds" and "valid_cap n"
  then show "File_Get c k n = Inr (n \<in> cap_set (File_Get c) k)"
    by (simp add: File_Get_valid File_cap_set)
next
  fix c w assume "file_wf c"
  then show "file_wf (File_Fill c w) \<and> file_holds (File_Fill c w) = file_holds c \<and>
      (\<forall>k \<in> file_kinds. cap_set (File_Get (File_Fill c w)) k =
         (if k AND CAPS = k then
            if w AND CAPS = CAPS then (if k = INHERITABLE then {} else {n. valid_cap n \<and> file_holds c n})
            else cap_set (File_Get c) k
          else if w AND k = k then {n. valid_cap n \<and> file_holds c n} else cap_set (File_Get c) k))"
    by (auto simp: File_Fill_def File_assign_sets File_assign_wf file_holds_assign file_kinds_and_CAPS)
next
  fix c w assume "file_wf c"
  then show "file_wf (File_Clear c w) \<and> file_holds (File_Clear c w) = file_holds c \<and>
      (w AND CAPS = CAPS \<or> w AND CAPS = 0 \<longrightarrow> (\<forall>k \<in> file_kinds. cap_set (File_Get (File_Clear c w)) k =
         (if w AND k = k then {} else cap_set (File_Get c) k)))"
    by (auto simp: File_Clear_def File_assign_sets File_assign_wf file_holds_assign file_kinds_and_CAPS)
qed (simp_all add: file_kinds_single File_Set_sets File_Unset_sets File_Empty_iff File_Full_iff split del: if_split)

section \<open>Properties\<close>

text \<open>
  \<open>Set\<close> on a file adds exactly the given capabilities it has room for to the sets the
  selector names; on a version 1 file a capability above 31 is skipped without an error.
\<close>

theorem File_Set_Get:
  assumes "list_all valid_cap ns" and "k \<in> file_kinds" and "valid_cap n"
  shows "\<exists>c'. File_Set c w ns = Inr c' \<and> File_Get c' k n =
    Inr (n \<in> cap_set (File_Get c) k \<or>
         w AND k \<noteq> 0 \<and> n \<in> set ns \<and> (vversion (fdata c) = 1 \<longrightarrow> n \<le> 31))"
  using fcaps.get_after_set [OF assms, of c w] by (simp add: file_holds_def)

theorem File_Set_Get_witness:
  "\<exists>c'. File_Set ((newFile ''f'')\<lparr>fdata := zero_vfscapData\<lparr>vversion := 1\<rparr>\<rparr>) CAPS [CAP_KILL, CAP_SYSLOG] = Inr c' \<and>
    File_Get c' PERMITTED CAP_SYSLOG = Inr False"
proof -
  have "list_all valid_cap [CAP_KILL, CAP_SYSLOG]" and "PERMITTED \<in> file_kinds" and "valid_cap CAP_SYSLOG"
    by (simp_all add: valid_cap_def cap_defs file_kinds_def)
  moreover have "cap_set (File_Get (newFile ''f''\<lparr>fdata := zero_vfscapData\<lparr>vversion := 1\<rparr>\<rparr>)) PERMITTED = {}"
    by (simp add: File_cap_set file_kinds_def File_getData_def zero_vfscapData_def arr2_bit_def)
  ultimately show ?thesis
    using File_Set_Get [of "[CAP_KILL, CAP_SYSLOG]" PERMITTED CAP_SYSLOG
        "newFile ''f''\<lparr>fdata := zero_vfscapData\<lparr>vversion := 1\<rparr>\<rparr>" CAPS]
    by (simp add: CAP_SYSLOG_def)
qed

text \<open>
  On a loaded file, \<open>Full\<close> holds after \<open>Fill(CAPS)\<close> for the effective and the
  permitted set exactly when the file is version 2 or the kernel has no capability above 31: a filled
  version 1 file is not full otherwise.
\<close>

theorem File_Full_after_Fill:
  assumes "file_wf c" and "k = EFFECTIVE \<or> k = PERMITTED"
  shows "File_Full umask (File_Fill c CAPS) k \<longleftrightarrow> vversion (fdata c) = 2 \<or> umask = 0"
proof -
  have k: "k \<in> file_kinds" "k \<noteq> INHERITABLE" using assms(2) by (auto simp: file_kinds_def)
  have v: "vversion (fdata c) = 1 \<or> vversion (fdata c) = 2" using assms(1) by (auto simp: file_wf_def)
  have "File_Full umask (File_Fill c CAPS) k \<longleftrightarrow>
      (\<forall>n. valid_cap n \<and> (n > 31 \<longrightarrow> bit umask (nat n - 32)) \<longrightarrow> file_holds c n)"
    using fcaps.fill_ok [OF assms(1), of CAPS] fcaps.full_ok [of "File_Fill c CAPS" k umask] k
    by (auto simp: file_kinds_and_CAPS)
  also have "\<dots> \<longleftrightarrow> vversion (fdata c) = 2 \<or> umask = 0"
  proof
    assume all: "\<forall>n. valid_cap n \<and> (n > 31 \<longrightarrow> bit umask (nat n - 32)) \<longrightarrow> file_holds c n"
    show "vversion (fdata c) = 2 \<or> umask = 0"
    proof (rule disjCI)
      assume "umask \<noteq> 0"
      then obtain i where "i < 32" "bit umask i" by (auto simp: word_zero_iff_no_bit)
      then show "vversion (fdata c) = 2"
        using all [rule_format, of "int i + 32"] v
        by (auto simp: valid_cap_def file_holds_def nat_add_distrib)
    qed
  next
    assume "vversion (fdata c) = 2 \<or> umask = 0"
    then show "\<forall>n. valid_cap n \<and> (n > 31 \<longrightarrow> bit umask (nat n - 32)) \<longrightarrow> file_holds c n"
      by (auto simp: file_holds_def)
  qed
  finally show ?thesis .
qed

theorem File_Full_after_Fill_witness:
  "\<not> File_Full 511 (File_Fill (newFile ''f''\<lparr>fdata := zero_vfscapData\<lparr>vversion := 1\<rparr>\<rparr>) CAPS) EFFECTIVE"
proof -
  have "file_wf (newFile ''f''\<lparr>fdata := zero_vfscapData\<lparr>vversion := 1\<rparr>\<rparr>)"
    by (simp add: file_wf_def file_kinds_def File_getData_def zero_vfscapData_def)
  then show ?thesis
    using File_Full_after_Fill [of "newFile ''f''\<lparr>fdata := zero_vfscapData\<lparr>vversion := 1\<rparr>\<rparr>" EFFECTIVE 511] by simp
qed



section \<open>Sequences of calls\<close>

definition File_run :: "cap_call list \<Rightarrow> capsFile \<Rightarrow> capsFile go" where
  "File_run = foldE (call_on File_Set File_Unset File_Fill File_Clear)"

definition file_call_ok :: "cap_call \<Rightarrow> bool" where
  "file_call_ok = call_ok (\<lambda>w. w AND CAPS = CAPS \<or> w AND CAPS = 0)"

text \<open>
  C2. A loaded file object refines three sets of the capabilities its version has room for: after any sequence
  of calls of \<open>Set\<close>, \<open>Unset\<close>, \<open>Fill\<close> and \<open>Clear\<close> with capabilities in 0..63, \<open>Clear\<close> with all three sets or with
  none, nothing panicked and \<open>Get\<close>, \<open>Empty\<close> and \<open>Full\<close> report what the calls do to the abstract sets.
\<close>

theorem File_refines_sets:
  assumes "file_wf c" and "list_all file_call_ok calls"
  shows "\<exists>c'. File_run calls c = Inr c' \<and>
    (\<forall>k \<in> file_kinds. let S = fold (spec_call {n. valid_cap n \<and> file_holds c n}) calls (cap_set (File_Get c)) k
       in (\<forall>n. valid_cap n \<longrightarrow> File_Get c' k n = Inr (n \<in> S)) \<and> (File_Empty c' k \<longleftrightarrow> S = {}) \<and>
          (File_Full umask c' k \<longleftrightarrow> (\<forall>n. valid_cap n \<and> (n > 31 \<longrightarrow> bit umask (nat n - 32)) \<longrightarrow> n \<in> S)))"
  using fcaps.run_observed [of c calls umask] assms unfolding File_run_def fcaps.room_def file_call_ok_def by blast

lemma file_v1_wf: "file_wf (newFile f\<lparr>fdata := zero_vfscapData\<lparr>vversion := 1\<rparr>\<rparr>)"
  by (simp add: file_wf_def file_kinds_def File_getData_def zero_vfscapData_def)

theorem File_refines_sets_witness:
  "\<exists>c'. File_run [CallFill CAPS, CallUnset PERMITTED [CAP_KILL]] (newFile ''f''\<lparr>fdata := zero_vfscapData\<lparr>vversion := 1\<rparr>\<rparr>) = Inr c' \<and>
    File_Get c' EFFECTIVE CAP_KILL = Inr True \<and> File_Get c' PERMITTED CAP_KILL = Inr False \<and> File_Get c' EFFECTIVE CAP_SYSLOG = Inr False"
proof -
  let ?c = "newFile ''f''\<lparr>fdata := zero_vfscapData\<lparr>vversion := 1\<rparr>\<rparr>"
  let ?calls = "[CallFill CAPS, CallUnset PERMITTED [CAP_KILL]]" and ?H = "{n. valid_cap n \<and> file_holds ?c n}"
  have v: "valid_cap CAP_KILL" "valid_cap CAP_SYSLOG" "file_holds ?c CAP_KILL" "\<not> file_holds ?c CAP_SYSLOG"
    by (simp_all add: valid_cap_def cap_defs file_holds_def)
  have sel: "EFFECTIVE \<in> file_kinds" "PERMITTED \<in> file_kinds" "EFFECTIVE AND CAPS = EFFECTIVE" "PERMITTED AND CAPS = PERMITTED"
    "PERMITTED AND EFFECTIVE = 0" "PERMITTED AND PERMITTED \<noteq> 0" "EFFECTIVE \<noteq> INHERITABLE" "PERMITTED \<noteq> INHERITABLE"
    by (simp_all add: file_kinds_def capType_defs)
  have "list_all file_call_ok ?calls" using v by (simp add: file_call_ok_def call_ok_def)
  from File_refines_sets [OF file_v1_wf this, where umask = 0] obtain c' where run: "File_run ?calls ?c = Inr c'"
    and S: "\<And>k. k \<in> file_kinds \<Longrightarrow> let S = fold (spec_call ?H) ?calls (cap_set (File_Get ?c)) k
       in (\<forall>n. valid_cap n \<longrightarrow> File_Get c' k n = Inr (n \<in> S)) \<and> (File_Empty c' k \<longleftrightarrow> S = {}) \<and>
          (File_Full 0 c' k \<longleftrightarrow> (\<forall>n. valid_cap n \<and> (n > 31 \<longrightarrow> bit (0 :: 32 word) (nat n - 32)) \<longrightarrow> n \<in> S))" by blast
  have E: "fold (spec_call ?H) ?calls (cap_set (File_Get ?c)) EFFECTIVE = ?H"
    and P: "fold (spec_call ?H) ?calls (cap_set (File_Get ?c)) PERMITTED = ?H - {CAP_KILL}"
    using sel by (simp_all add: spec_call_def)
  show ?thesis using run v S [OF sel(1)] S [OF sel(2)] unfolding E P Let_def by simp
qed

lemma file_version_eq:
  assumes "file_wf c" and "file_wf c'" and "file_holds c' = file_holds c"
  shows "vversion (fdata c') = vversion (fdata c)"
proof -
  have "file_holds c' 32 = file_holds c 32" using assms(3) by simp
  then show ?thesis using assms(1,2) by (auto simp: file_holds_def file_wf_def)
qed

text \<open>
  C31. The shape of a file object is kept: a loaded object is of version 1 or 2 and, in version 1, has nothing in
  the upper words; every sequence of calls of the interface with capabilities in 0..63 keeps it so and keeps the
  version, \<open>Clear\<close> with any selector included.
\<close>

theorem File_shape_preserved:
  assumes "file_wf c" and "list_all (call_ok (\<lambda>_. True)) calls"
  shows "\<exists>c'. File_run calls c = Inr c' \<and> file_wf c' \<and> vversion (fdata c') = vversion (fdata c)"
  using assms
proof (induction calls arbitrary: c)
  case (Cons call calls)
  have "\<exists>c1. call_on File_Set File_Unset File_Fill File_Clear call c = Inr c1 \<and> file_wf c1 \<and>
      vversion (fdata c1) = vversion (fdata c)"
  proof (cases call)
    case (CallSet w ns)
    then obtain c1 where c1: "File_Set c w ns = Inr c1" "file_wf c1" "file_holds c1 = file_holds c"
      using File_Set_sets [of ns c w] Cons.prems by (auto simp: call_ok_def)
    then show ?thesis using file_version_eq [OF Cons.prems(1)] CallSet by (simp add: call_on_def)
  next
    case (CallUnset w ns)
    then obtain c1 where c1: "File_Unset c w ns = Inr c1" "file_wf c1" "file_holds c1 = file_holds c"
      using File_Unset_sets [of ns c w] Cons.prems by (auto simp: call_ok_def)
    then show ?thesis using file_version_eq [OF Cons.prems(1)] CallUnset by (simp add: call_on_def)
  next
    case (CallFill w)
    then show ?thesis using Cons.prems(1) by (simp add: call_on_def File_Fill_def File_assign_wf File_words_assign)
  next
    case (CallClear w)
    then show ?thesis using Cons.prems(1) by (simp add: call_on_def File_Clear_def File_assign_wf File_words_assign)
  qed
  then obtain c1 where c1: "call_on File_Set File_Unset File_Fill File_Clear call c = Inr c1" "file_wf c1"
      "vversion (fdata c1) = vversion (fdata c)" by blast
  then show ?case using Cons.IH [OF c1(2)] Cons.prems by (simp add: File_run_def)
qed (simp add: File_run_def)

theorem File_shape_preserved_witness:
  "\<exists>c'. File_run [CallSet CAPS [CAP_SYSLOG], CallClear EFFECTIVE] (newFile ''f''\<lparr>fdata := zero_vfscapData\<lparr>vversion := 1\<rparr>\<rparr>) = Inr c' \<and> file_wf c'"
  using File_shape_preserved [OF file_v1_wf, of "[CallSet CAPS [CAP_SYSLOG], CallClear EFFECTIVE]" "''f''"]
  by (auto simp: call_ok_def valid_cap_def CAP_SYSLOG_def)

end
