(* ===== verification/MonitorTable.thy ===== *)
theory MonitorTable
  imports Prelude
begin

text \<open>
  What the process monitor (\<open>pidmonitor\<close>) and the file monitor (\<open>fileMonitor\<close>) share: the
  outcome of \<open>os.Stat\<close>, a table of watched keys with insertion and removal, and the account that
  both monitors keep between registrations and reports. The locale \<open>watch_table\<close> states what a
  table promises; each monitor interprets it on its own operations.
\<close>

section \<open>Existence checks\<close>

text \<open>What \<open>os.Stat\<close> returns: no error, an error for which \<open>os.IsNotExist\<close> holds, another error.\<close>

datatype 'e stat_result = StatOk | StatNotExist | StatErr 'e

text \<open>The body of \<open>pidExists\<close> and \<open>checkFileExists\<close> on the result of the call.\<close>

definition exists_of_stat :: "'e stat_result \<Rightarrow> bool \<times> 'e option" where
  "exists_of_stat r = (case r of StatOk \<Rightarrow> (True, None) | StatNotExist \<Rightarrow> (False, None) | StatErr e \<Rightarrow> (False, Some e))"

lemma exists_of_stat_alive: "fst (exists_of_stat r) \<and> snd (exists_of_stat r) = None \<longleftrightarrow> r = StatOk"
  by (cases r) (simp_all add: exists_of_stat_def)

section \<open>Tables of watched keys\<close>

text \<open>
  The account between registrations and reports: with \<open>W\<close> the watched keys, \<open>pend\<close> the keys that
  have been reported and are about to be removed, every report, and every key still to be reported,
  is covered by a registration of its own.
\<close>

definition covered :: "'k set \<Rightarrow> 'k list \<Rightarrow> ('k \<Rightarrow> nat) \<Rightarrow> ('k \<Rightarrow> nat) \<Rightarrow> bool" where
  "covered W pend reports added \<longleftrightarrow>
     (\<forall>k. reports k + (if k \<in> W \<and> k \<notin> set pend then 1 else 0) \<le> added k)"

lemma covered_le: "covered W pend reports added \<Longrightarrow> reports k \<le> added k"
  unfolding covered_def by (metis add_leD1)

lemma coveredI:
  "(\<And>k. k \<in> W \<Longrightarrow> k \<notin> set pend \<Longrightarrow> Suc (r k) \<le> a k) \<Longrightarrow> (\<And>k. r k \<le> a k) \<Longrightarrow> covered W pend r a"
  by (simp add: covered_def)

lemma covered_open: "covered W pend r a \<Longrightarrow> k \<in> W \<Longrightarrow> k \<notin> set pend \<Longrightarrow> Suc (r k) \<le> a k"
  unfolding covered_def by (metis (mono_tags, lifting) Suc_eq_plus1)

lemma count_list_distinct: "distinct ks \<Longrightarrow> count_list ks k = (if k \<in> set ks then 1 else 0)"
  by (induction ks) auto

lemma count_list_append_fun: "count_list (xs @ ys) = (\<lambda>k. count_list xs k + count_list ys k)"
  by (simp add: fun_eq_iff)

locale watch_table =
  fixes add :: "'k \<Rightarrow> 't \<Rightarrow> 't"
    and rm :: "'k \<Rightarrow> 't \<Rightarrow> 't"
    and watched :: "'t \<Rightarrow> 'k set"
  assumes watched_add: "watched (add k t) = insert k (watched t)"
    and watched_rm: "watched (rm k t) = watched t - {k}"
begin

lemma watched_fold_add: "watched (fold add ks t) = watched t \<union> set ks"
  by (induction ks arbitrary: t) (auto simp: watched_add)

lemma watched_fold_rm: "watched (fold rm ks t) = watched t - set ks"
  by (induction ks arbitrary: t) (auto simp: watched_rm)

text \<open>The account is kept by registering, by removing, by a scan that reports, and by the clean-up.\<close>

lemma covered_add:
  "covered (watched t) pend r a \<Longrightarrow> covered (watched (add k t)) pend r (a(k := Suc (a k)))"
  by (rule coveredI) (auto simp: watched_add intro: le_SucI covered_le dest: covered_open)

lemma covered_rm: "covered (watched t) pend r a \<Longrightarrow> covered (watched (rm k t)) pend r a"
  by (rule coveredI) (auto simp: watched_rm dest: covered_open covered_le)

lemma covered_scan:
  assumes "covered (watched t) [] r a" and "distinct ks" and "set ks \<subseteq> watched t"
  shows "covered (watched t) ks (\<lambda>k. r k + count_list ks k) a"
proof (rule coveredI)
  fix k
  have "r k \<le> a k" and "k \<in> watched t \<Longrightarrow> Suc (r k) \<le> a k"
    using covered_le [OF assms(1)] covered_open [OF assms(1)] by auto
  then show "r k + count_list ks k \<le> a k" and "k \<in> watched t \<Longrightarrow> k \<notin> set ks \<Longrightarrow> Suc (r k + count_list ks k) \<le> a k"
    using assms(2,3) by (auto simp: count_list_distinct)
qed

lemma covered_cleanup:
  "covered (watched t) pend r a \<Longrightarrow> covered (watched (fold rm pend t)) [] r a"
  by (rule coveredI) (auto simp: watched_fold_rm dest: covered_open covered_le)

end

end
