(* ===== verification/MonitorSpec.thy ===== *)
theory MonitorSpec
  imports MonitorTable
begin

text \<open>
  The abstract monitor that both \<open>pidmonitor\<close> and \<open>fileMonitor\<close> implement: a set of watched keys, of which some
  are reported together and then forgotten together, with registrations and removals at any time, also in between. What is
  promised to a client is proved here once; the locale \<open>simulation\<close> carries it over to an implementation.
\<close>

section \<open>The abstract monitor\<close>

text \<open>
  \<open>sp_pending\<close> are the keys that were reported and not yet forgotten, \<open>sp_reported\<close> all reports in their order and
  \<open>sp_added\<close> the number of registrations, both since the start.
\<close>

record 'k monitor_spec =
  sp_watched :: "'k set"
  sp_pending :: "'k list"
  sp_reported :: "'k list"
  sp_added :: "'k \<Rightarrow> nat"

definition spec_init :: "'k monitor_spec" where
  "spec_init = \<lparr>sp_watched = {}, sp_pending = [], sp_reported = [], sp_added = (\<lambda>_. 0)\<rparr>"

inductive spec_step :: "'k monitor_spec \<Rightarrow> 'k monitor_spec \<Rightarrow> bool" where
  sp_register: "spec_step S (S\<lparr>sp_watched := insert k (sp_watched S), sp_added := (sp_added S)(k := Suc (sp_added S k))\<rparr>)"
| sp_unregister: "spec_step S (S\<lparr>sp_watched := sp_watched S - {k}\<rparr>)"
| sp_report: "sp_pending S = [] \<Longrightarrow> distinct ks \<Longrightarrow> set ks \<subseteq> sp_watched S \<Longrightarrow>
    spec_step S (S\<lparr>sp_pending := ks, sp_reported := sp_reported S @ ks\<rparr>)"
| sp_forget: "spec_step S (S\<lparr>sp_watched := sp_watched S - set (sp_pending S), sp_pending := []\<rparr>)"

definition spec_reach :: "'k monitor_spec \<Rightarrow> bool" where
  "spec_reach S \<longleftrightarrow> spec_step\<^sup>*\<^sup>* spec_init S"

lemma spec_reach_init [intro]: "spec_reach spec_init"
  by (simp add: spec_reach_def)

lemma spec_reach_step: "spec_reach S \<Longrightarrow> spec_step\<^sup>=\<^sup>= S T \<Longrightarrow> spec_reach T"
  unfolding spec_reach_def by (auto intro: rtranclp.rtrancl_into_rtrancl)

section \<open>What it promises\<close>

text \<open>
  The table of the abstract monitor is the set itself, so the account of \<open>watch_table\<close> applies to it.
\<close>

interpretation spec: watch_table insert "\<lambda>k W. W - {k}" "\<lambda>W. W"
  by unfold_locales auto

lemma fold_remove: "fold (\<lambda>k W. W - {k}) ks W = W - set ks"
  by (induction ks arbitrary: W) auto

definition spec_account :: "'k monitor_spec \<Rightarrow> bool" where
  "spec_account S \<longleftrightarrow> distinct (sp_pending S) \<and>
     covered (sp_watched S) (sp_pending S) (count_list (sp_reported S)) (sp_added S)"

lemma spec_account_step: "spec_step S T \<Longrightarrow> spec_account S \<Longrightarrow> spec_account T"
proof (induction rule: spec_step.induct)
  case (sp_report S ks)
  then show ?case
    using spec.covered_scan [of "sp_watched S" "count_list (sp_reported S)" "sp_added S" ks]
    by (simp add: spec_account_def count_list_append_fun)
next
  case (sp_forget S)
  then show ?case
    using spec.covered_cleanup [of "sp_watched S" "sp_pending S"] by (simp add: spec_account_def fold_remove)
qed (simp_all add: spec_account_def spec.covered_add spec.covered_rm)

lemma spec_reach_account: "spec_reach S \<Longrightarrow> spec_account S"
  unfolding spec_reach_def
  by (induction rule: rtranclp_induct) (auto simp: spec_account_step, simp add: spec_account_def spec_init_def covered_def)

lemma spec_reports_bounded:
  assumes "spec_reach S" shows "count_list (sp_reported S) k \<le> sp_added S k"
proof -
  have "covered (sp_watched S) (sp_pending S) (count_list (sp_reported S)) (sp_added S)"
    using spec_reach_account [OF assms] by (simp add: spec_account_def)
  then show ?thesis by (rule covered_le)
qed

section \<open>Simulations\<close>

text \<open>
  An implementation with the states \<open>reach\<close> and the steps \<open>step\<close>, seen through \<open>view\<close>: every step is one of the abstract
  monitor or is not visible.
\<close>

locale monitor_simulation =
  fixes init :: "'s \<Rightarrow> bool"
    and step :: "'s \<Rightarrow> 's \<Rightarrow> bool"
    and inv :: "'s \<Rightarrow> bool"
    and view :: "'s \<Rightarrow> 'k monitor_spec"
  assumes init_inv: "init s \<Longrightarrow> inv s"
    and init_abs: "init s \<Longrightarrow> view s = spec_init"
    and step_inv: "inv s \<Longrightarrow> step s t \<Longrightarrow> inv t"
    and step_abs: "inv s \<Longrightarrow> step s t \<Longrightarrow> spec_step\<^sup>=\<^sup>= (view s) (view t)"
begin

lemma run_simulated:
  assumes "step\<^sup>*\<^sup>* s t" and "init s"
  shows "inv t \<and> spec_reach (view t)"
  using assms
proof (induction rule: rtranclp_induct)
  case base
  then show ?case by (simp add: init_inv init_abs spec_reach_init)
next
  case (step t u)
  then have "inv t" and "spec_reach (view t)" by simp_all
  from step_inv [OF this(1) step(2)] spec_reach_step [OF this(2) step_abs [OF this(1) step(2)]] show ?case ..
qed

lemma reports_bounded:
  "step\<^sup>*\<^sup>* s t \<Longrightarrow> init s \<Longrightarrow> count_list (sp_reported (view t)) k \<le> sp_added (view t) k"
  by (rule spec_reports_bounded) (simp add: run_simulated)

end

end
