(* ===== verification/PidMon.thy ===== *)
theory PidMon
  imports MonitorSpec GoStrings
begin

text \<open>
  The process monitor of \<open>pidmonitor/\<close>: the event table and its operations (\<open>utils.go\<close>), the
  calls of the client (\<open>pidmon.go\<close>) and the monitor thread (\<open>monitor.go\<close>), as a step relation whose
  steps are the critical sections and channel operations of the code.
\<close>

section \<open>Events and the event table\<close>

type_synonym Pid = "32 word"
type_synonym evect = "64 word"

text \<open>\<open>type cmd int\<close> has the one value \<open>stop\<close>.\<close>

datatype pm_cmd = pm_stop

definition pmExit :: evect where "pmExit = 0x1"
definition pmPollMin :: int where "pmPollMin = 1"
definition pmPollMax :: int where "pmPollMax = 1000"

record 'e PidEvent =
  Pid :: Pid
  Event :: evect
  Err :: "'e option"

type_synonym eventTable = "Pid \<rightharpoonup> evect"

text \<open>The configuration check; the argument is \<open>cfg.Poll\<close>.\<close>

definition pm_validateCfg :: "int \<Rightarrow> bool" where
  "pm_validateCfg poll \<longleftrightarrow> \<not> (poll < pmPollMin \<or> poll > pmPollMax)"

definition validateEvent :: "evect \<Rightarrow> bool" where
  "validateEvent event \<longleftrightarrow> event = pmExit"

definition eventSet :: "evect \<Rightarrow> evect \<Rightarrow> evect" where "eventSet ev etype = ev OR etype"
definition eventClear :: "evect \<Rightarrow> evect \<Rightarrow> evect" where "eventClear ev etype = ev AND NOT etype"
definition eventIsSet :: "evect \<Rightarrow> evect \<Rightarrow> bool" where "eventIsSet ev etype \<longleftrightarrow> ev AND etype = etype"

definition eventTableAdd :: "eventTable \<Rightarrow> 'e PidEvent \<Rightarrow> eventTable" where
  "eventTableAdd t e = (case t (Pid e) of
      None \<Rightarrow> t(Pid e \<mapsto> Event e)
    | Some ev \<Rightarrow> t(Pid e \<mapsto> eventSet ev (Event e)))"

definition eventTableRm :: "eventTable \<Rightarrow> 'e PidEvent \<Rightarrow> eventTable" where
  "eventTableRm t e = (case t (Pid e) of
      None \<Rightarrow> t
    | Some ev \<Rightarrow>
        let ev = eventClear ev (Event e)
        in if ev = 0 then t(Pid e := None) else t(Pid e \<mapsto> ev))"

text \<open>
  \<open>AddEvent\<close> and \<open>RemoveEvent\<close> stop at the first event that is not valid; the flag is false when
  an error is returned. Each round of the loop is a critical section of its own.
\<close>

fun AddEvent :: "'e PidEvent list \<Rightarrow> eventTable \<Rightarrow> bool \<times> eventTable" where
  "AddEvent [] t = (True, t)"
| "AddEvent (e # es) t =
     (if \<not> validateEvent (Event e) then (False, t) else AddEvent es (eventTableAdd t e))"

fun RemoveEvent :: "'e PidEvent list \<Rightarrow> eventTable \<Rightarrow> bool \<times> eventTable" where
  "RemoveEvent [] t = (True, t)"
| "RemoveEvent (e # es) t =
     (if \<not> validateEvent (Event e) then (False, t) else RemoveEvent es (eventTableRm t e))"

section \<open>The scan\<close>

definition pidExists :: "(string \<Rightarrow> 'e stat_result) \<Rightarrow> Pid \<Rightarrow> bool \<times> 'e option" where
  "pidExists stat p = exists_of_stat (stat (''/proc/'' @ show_nat (unat p)))"

text \<open>
  The loop over the table, for the order \<open>ps\<close> in which Go happens to visit the keys: the event
  list and the list of events to remove.
\<close>

fun pm_scan ::
  "(string \<Rightarrow> 'e stat_result) \<Rightarrow> eventTable \<Rightarrow> Pid list \<Rightarrow> 'e PidEvent list \<Rightarrow> 'e PidEvent list \<Rightarrow>
   'e PidEvent list \<times> 'e PidEvent list" where
  "pm_scan stat t [] eventList rmList = (eventList, rmList)"
| "pm_scan stat t (p # ps) eventList rmList =
     (case t p of
        None \<Rightarrow> pm_scan stat t ps eventList rmList
      | Some ev \<Rightarrow>
          if eventIsSet ev pmExit then
            let (alive, err) = pidExists stat p
            in if err \<noteq> None \<or> \<not> alive
               then pm_scan stat t ps (eventList @ [\<lparr>Pid = p, Event = pmExit, Err = err\<rparr>])
                      (rmList @ [\<lparr>Pid = p, Event = pmExit, Err = None\<rparr>])
               else pm_scan stat t ps eventList rmList
          else pm_scan stat t ps eventList rmList)"

text \<open>The clean-up loop.\<close>

definition pm_cleanup :: "'e PidEvent list \<Rightarrow> eventTable \<Rightarrow> eventTable" where
  "pm_cleanup rmList t = foldl eventTableRm t rmList"

section \<open>The monitor and its clients\<close>

text \<open>
  Where the monitor thread is: before the \<open>select\<close>, before the scan, sending a batch, about to
  remove, asleep, sending the last batch, ended.
\<close>

datatype 'e pm_pc =
    PmTop
  | PmScan
  | PmSend "'e PidEvent list" "'e PidEvent list"
  | PmRemove "'e PidEvent list"
  | PmSleep
  | PmStop
  | PmDone

text \<open>
  \<open>closing\<close> is the number of callers blocked in \<open>Close\<close>. The last two components are
  history: the batches \<open>WaitEvent\<close> returned and how often each pid was registered.
\<close>

record 'e pidmon =
  evTable :: eventTable
  eventCh :: "'e PidEvent list list"
  pmPc :: "'e pm_pc"
  closing :: nat
  received :: "'e PidEvent list list"
  added :: "Pid \<Rightarrow> nat"

definition eventChCap :: nat where "eventChCap = 100"

text \<open>\<open>New\<close>: \<open>None\<close> is the configuration error.\<close>

definition pm_New :: "int \<Rightarrow> 'e pidmon option" where
  "pm_New poll = (if \<not> pm_validateCfg poll then None
     else Some \<lparr>evTable = (\<lambda>_. None), eventCh = [], pmPc = PmTop, closing = 0,
                received = [], added = (\<lambda>_. 0)\<rparr>)"

text \<open>
  \<open>WaitEvent\<close> returns the oldest batch of the channel (\<open>None\<close> while it waits for one), which is also
  noted in \<open>received\<close>. \<open>Close\<close> offers the command \<open>stop\<close> on an unbuffered channel and returns when the thread has taken it; the
  calls that are still waiting are counted in \<open>closing\<close>.
\<close>

definition WaitEvent :: "'e pidmon \<Rightarrow> ('e PidEvent list \<times> 'e pidmon) option" where
  "WaitEvent s = (case eventCh s of [] \<Rightarrow> None
     | eventList # q \<Rightarrow> Some (eventList, s\<lparr>eventCh := q, received := received s @ [eventList]\<rparr>))"

definition pm_Close :: "'e pidmon \<Rightarrow> 'e pidmon" where
  "pm_Close s = s\<lparr>closing := Suc (closing s)\<rparr>"

lemma WaitEvent_Some [simp]:
  "WaitEvent s = Some (b, t) \<longleftrightarrow> (\<exists>q. eventCh s = b # q \<and> t = s\<lparr>eventCh := q, received := received s @ [b]\<rparr>)"
  by (auto simp: WaitEvent_def split: list.splits)

text \<open>
  The steps of clients (\<open>pm_add\<close>, \<open>pm_rm\<close>, \<open>pm_wait\<close>, \<open>pm_close\<close>) and of the thread. In a scan each
  path is looked up once, so \<open>stat\<close> stands for whatever the kernel answered at those moments, and
  \<open>ps\<close> for the order of the visit. A send on the channel waits for room in its buffer.
\<close>

inductive pm_step :: "'e pidmon \<Rightarrow> 'e pidmon \<Rightarrow> bool" where
  pm_add: "validateEvent (Event (e :: 'e PidEvent)) \<Longrightarrow>
    pm_step s (s\<lparr>evTable := eventTableAdd (evTable s) e, added := (added s)(Pid e := Suc (added s (Pid e)))\<rparr>)"
| pm_rm: "validateEvent (Event (e :: 'e PidEvent)) \<Longrightarrow> pm_step s (s\<lparr>evTable := eventTableRm (evTable s) e\<rparr>)"
| pm_wait: "WaitEvent s = Some (b, t) \<Longrightarrow> pm_step s t"
| pm_close: "pm_step s (pm_Close s)"
| pm_take_stop: "pmPc s = PmTop \<Longrightarrow> closing s = Suc n \<Longrightarrow> pm_step s (s\<lparr>pmPc := PmStop, closing := n\<rparr>)"
| pm_default: "pmPc s = PmTop \<Longrightarrow> closing s = 0 \<Longrightarrow> pm_step s (s\<lparr>pmPc := PmScan\<rparr>)"
| pm_do_scan: "pmPc s = PmScan \<Longrightarrow> distinct ps \<Longrightarrow> set ps = dom (evTable s) \<Longrightarrow>
    pm_scan stat (evTable s) ps [] [] = (evs, rms) \<Longrightarrow>
    pm_step s (s\<lparr>pmPc := (if length evs > 0 then PmSend evs rms else PmRemove rms)\<rparr>)"
| pm_send: "pmPc s = PmSend evs rms \<Longrightarrow> length (eventCh s) < eventChCap \<Longrightarrow>
    pm_step s (s\<lparr>eventCh := eventCh s @ [evs], pmPc := PmRemove rms\<rparr>)"
| pm_do_rm: "pmPc s = PmRemove rms \<Longrightarrow> pm_step s (s\<lparr>evTable := pm_cleanup rms (evTable s), pmPc := PmSleep\<rparr>)"
| pm_wake: "pmPc s = PmSleep \<Longrightarrow> pm_step s (s\<lparr>pmPc := PmTop\<rparr>)"
| pm_last: "pmPc s = PmStop \<Longrightarrow> length (eventCh s) < eventChCap \<Longrightarrow>
    pm_step s (s\<lparr>eventCh := eventCh s @ [[]], pmPc := PmDone\<rparr>)"

inductive pm_reach :: "'e pidmon \<Rightarrow> bool" where
  pm_init: "pm_New poll = Some s \<Longrightarrow> pm_reach s"
| pm_more: "pm_reach s \<Longrightarrow> pm_step s t \<Longrightarrow> pm_reach t"

lemmas pm_step_intros = pm_add pm_rm pm_wait pm_close pm_take_stop pm_default pm_do_scan pm_send pm_do_rm pm_wake pm_last

inductive_cases pm_stepE: "pm_step s t"

declare pm_Close_def [simp]

section \<open>The table as a set of watched processes\<close>

definition pm_watched :: "eventTable \<Rightarrow> Pid set" where
  "pm_watched t = {p. \<exists>ev. t p = Some ev \<and> eventIsSet ev pmExit}"

definition exit_event :: "Pid \<Rightarrow> 'e PidEvent" where
  "exit_event p = \<lparr>Pid = p, Event = pmExit, Err = None\<rparr>"

lemma exit_event_simps [simp]:
  "Pid (exit_event p) = p" "Event (exit_event p) = pmExit" "Err (exit_event p) = None"
  by (simp_all add: exit_event_def)

lemma exit_bits: "(ev OR pmExit) AND pmExit = pmExit" "(ev AND NOT pmExit) AND pmExit \<noteq> pmExit"
proof -
  show "(ev OR pmExit) AND pmExit = pmExit" by (rule bit_word_eqI) (auto simp: bit_simps)
  have "\<not> bit ((ev AND NOT pmExit) AND pmExit) 0" and "bit pmExit 0"
    by (simp_all add: bit_simps pmExit_def)
  then show "(ev AND NOT pmExit) AND pmExit \<noteq> pmExit" by metis
qed

lemma eventTable_cong:
  "validateEvent (Event e) \<Longrightarrow> eventTableAdd t e = eventTableAdd t (exit_event (Pid e) :: 'e PidEvent)"
  "validateEvent (Event e) \<Longrightarrow> eventTableRm t e = eventTableRm t (exit_event (Pid e) :: 'e PidEvent)"
  for e :: "'e PidEvent"
  by (simp_all add: eventTableAdd_def eventTableRm_def validateEvent_def Let_def split: option.split)

interpretation pm: watch_table
  "\<lambda>p t. eventTableAdd t (exit_event p :: 'e PidEvent)" "\<lambda>p t. eventTableRm t (exit_event p :: 'e PidEvent)" pm_watched
proof
  fix p :: Pid and t
  show "pm_watched (eventTableAdd t (exit_event p)) = insert p (pm_watched t)"
    by (auto simp: pm_watched_def eventTableAdd_def eventIsSet_def eventSet_def exit_bits
        split: option.splits if_splits)
  show "pm_watched (eventTableRm t (exit_event p)) = pm_watched t - {p}"
    by (auto simp: pm_watched_def eventTableRm_def eventIsSet_def eventClear_def exit_bits Let_def
        split: option.splits if_splits)
qed

lemma watched_dom: "pm_watched t \<subseteq> dom t"
  by (auto simp: pm_watched_def)

text \<open>What one call of \<open>AddEvent\<close> and \<open>RemoveEvent\<close> does.\<close>

lemma AddEvent_eq:
  "AddEvent es t = (list_all (\<lambda>e. validateEvent (Event e)) es,
     fold (\<lambda>p t. eventTableAdd t (exit_event p :: 'e PidEvent)) (map Pid (takeWhile (\<lambda>e. validateEvent (Event e)) es)) t)"
  for es :: "'e PidEvent list"
  by (induction es t rule: AddEvent.induct) (auto simp: eventTable_cong [of "e :: 'e PidEvent" for e])

lemma RemoveEvent_eq:
  "RemoveEvent es t = (list_all (\<lambda>e. validateEvent (Event e)) es,
     fold (\<lambda>p t. eventTableRm t (exit_event p :: 'e PidEvent)) (map Pid (takeWhile (\<lambda>e. validateEvent (Event e)) es)) t)"
  for es :: "'e PidEvent list"
  by (induction es t rule: RemoveEvent.induct) (auto simp: eventTable_cong [of "e :: 'e PidEvent" for e])

lemma pm_cleanup_eq:
  "list_all (\<lambda>e. validateEvent (Event e)) es \<Longrightarrow>
   pm_cleanup es t = fold (\<lambda>p t. eventTableRm t (exit_event p :: 'e PidEvent)) (map Pid es) t"
  for es :: "'e PidEvent list"
  unfolding pm_cleanup_def by (induction es arbitrary: t) (simp_all add: eventTable_cong)

section \<open>The scan as a filter\<close>

definition pid_stat :: "(string \<Rightarrow> 'e stat_result) \<Rightarrow> Pid \<Rightarrow> 'e stat_result" where
  "pid_stat stat p = stat (''/proc/'' @ show_nat (unat p))"

definition pm_gone :: "(string \<Rightarrow> 'e stat_result) \<Rightarrow> eventTable \<Rightarrow> Pid \<Rightarrow> bool" where
  "pm_gone stat t p \<longleftrightarrow> p \<in> pm_watched t \<and> pid_stat stat p \<noteq> StatOk"

lemma pm_scan_eq:
  "pm_scan stat t ps evs rms =
    (evs @ map (\<lambda>p. \<lparr>Pid = p, Event = pmExit, Err = snd (exists_of_stat (pid_stat stat p))\<rparr>) (filter (pm_gone stat t) ps),
     rms @ map exit_event (filter (pm_gone stat t) ps))"
proof (induction ps arbitrary: evs rms)
  case (Cons p ps)
  have "pm_gone stat t p \<longleftrightarrow> (\<exists>ev. t p = Some ev \<and> eventIsSet ev pmExit) \<and>
      (snd (pidExists stat p) \<noteq> None \<or> \<not> fst (pidExists stat p))"
    using exists_of_stat_alive [of "pid_stat stat p"]
    by (auto simp: pm_gone_def pm_watched_def pidExists_def pid_stat_def)
  then show ?case
    using Cons by (auto simp: exit_event_def pidExists_def pid_stat_def Let_def split: option.split prod.split)
qed simp

text \<open>
  C21. A scan of the process monitor reports every watched process that \<open>Stat\<close> does not find, and no
  other, exactly once, with the error of the call when there was one, and schedules exactly the
  reported processes for removal, whatever the order in which the map is visited.
\<close>

theorem pm_scan_exact:
  assumes "distinct ps" and "set ps = dom t" and "pm_scan stat t ps [] [] = (evs, rms)"
  shows "distinct (map Pid evs) \<and>
    set (map Pid evs) = {p \<in> pm_watched t. stat (''/proc/'' @ show_nat (unat p)) \<noteq> StatOk} \<and>
    map Pid rms = map Pid evs \<and>
    list_all (\<lambda>e. Event e = pmExit \<and> Err e = snd (exists_of_stat (stat (''/proc/'' @ show_nat (unat (Pid e)))))) evs"
proof -
  have evs: "map Pid evs = filter (pm_gone stat t) ps" and "map Pid rms = filter (pm_gone stat t) ps"
    using assms(3) by (auto simp: pm_scan_eq comp_def)
  moreover have "set (filter (pm_gone stat t) ps) = {p \<in> pm_watched t. pid_stat stat p \<noteq> StatOk}"
    using assms(2) watched_dom [of t] by (auto simp: pm_gone_def)
  moreover have "list_all (\<lambda>e. Event e = pmExit \<and> Err e = snd (exists_of_stat (pid_stat stat (Pid e)))) evs"
    using assms(3) by (auto simp: pm_scan_eq list_all_iff)
  ultimately show ?thesis using assms(1) unfolding evs pid_stat_def by simp
qed

theorem pm_scan_exact_witness:
  "set (map Pid (fst (pm_scan (\<lambda>p. if p = ''/proc/7'' then StatNotExist else (StatOk :: unit stat_result))
     [7 \<mapsto> pmExit, 8 \<mapsto> pmExit] [7, 8] [] []))) = {7}"
proof -
  let ?stat = "\<lambda>p. if p = ''/proc/7'' then StatNotExist else (StatOk :: unit stat_result)"
  let ?t = "[7 \<mapsto> pmExit, 8 \<mapsto> pmExit] :: eventTable"
  have "show_nat 7 = ''7''" and "show_nat 8 = ''8''"
    by (simp_all add: show_nat.simps digit_char_def char_of_def bit_simps)
  then have "{p \<in> pm_watched ?t. ?stat (''/proc/'' @ show_nat (unat p)) \<noteq> StatOk} = {7}"
    by (auto simp: pm_watched_def eventIsSet_def)
  moreover have "distinct [7, 8 :: Pid]" and "set [7, 8] = dom ?t" by auto
  ultimately show ?thesis
    using pm_scan_exact [of "[7, 8]" ?t ?stat, OF _ _ surjective_pairing] by simp
qed

section \<open>Invariants of the monitor\<close>

text \<open>The batch in flight, the events about to be removed, and the pids reported so far.\<close>

definition pm_sending :: "'e pidmon \<Rightarrow> 'e PidEvent list" where
  "pm_sending s = (case pmPc s of PmSend evs rms \<Rightarrow> evs | _ \<Rightarrow> [])"

definition pm_pending :: "'e pidmon \<Rightarrow> 'e PidEvent list" where
  "pm_pending s = (case pmPc s of PmSend evs rms \<Rightarrow> rms | PmRemove rms \<Rightarrow> rms | _ \<Rightarrow> [])"

definition pm_reported :: "'e pidmon \<Rightarrow> Pid list" where
  "pm_reported s = map Pid (concat (received s @ eventCh s) @ pm_sending s)"

text \<open>What the monitor is as an abstract one.\<close>

definition pm_view :: "'e pidmon \<Rightarrow> Pid monitor_spec" where
  "pm_view s = \<lparr>sp_watched = pm_watched (evTable s), sp_pending = map Pid (pm_pending s),
     sp_reported = pm_reported s, sp_added = added s\<rparr>"

definition pm_valid :: "'e pidmon \<Rightarrow> bool" where
  "pm_valid s \<longleftrightarrow> list_all (\<lambda>e. validateEvent (Event e)) (pm_pending s)"

definition pm_batches :: "'e pidmon \<Rightarrow> bool" where
  "pm_batches s \<longleftrightarrow> length (eventCh s) \<le> eventChCap \<and> (\<forall>rms. pmPc s \<noteq> PmSend [] rms) \<and>
     (\<exists>bs. list_all (\<lambda>b. b \<noteq> []) bs \<and> received s @ eventCh s = bs @ (if pmPc s = PmDone then [[]] else []))"

lemmas pm_views = pm_sending_def pm_pending_def pm_reported_def

lemma pm_New_inv: "pm_New poll = Some s \<Longrightarrow> pm_valid s \<and> pm_batches s \<and> pm_view s = spec_init"
  by (auto simp: pm_New_def pm_valid_def pm_batches_def pm_view_def pm_views spec_init_def pm_watched_def split: if_splits)

lemma pm_valid_step: "pm_step s t \<Longrightarrow> pm_valid s \<Longrightarrow> pm_valid t"
  by (cases rule: pm_step.cases) (auto simp: pm_valid_def pm_views pm_scan_eq validateEvent_def list_all_iff split: if_splits)

lemma pm_view_step:
  assumes "pm_step s t" and "pm_valid s" shows "spec_step\<^sup>=\<^sup>= (pm_view s) (pm_view t)"
  using assms
proof (cases rule: pm_step.cases)
  case (pm_add e)
  then have "pm_view t = (pm_view s)\<lparr>sp_watched := insert (Pid e) (sp_watched (pm_view s)),
      sp_added := (sp_added (pm_view s))(Pid e := Suc (sp_added (pm_view s) (Pid e)))\<rparr>"
    by (simp add: pm_view_def pm_views eventTable_cong pm.watched_add)
  then show ?thesis by (simp add: sp_register)
next
  case (pm_rm e)
  then have "pm_view t = (pm_view s)\<lparr>sp_watched := sp_watched (pm_view s) - {Pid e}\<rparr>"
    by (simp add: pm_view_def pm_views eventTable_cong pm.watched_rm)
  then show ?thesis by (simp add: sp_unregister)
next
  case (pm_do_scan ps stat evs rms)
  let ?g = "filter (pm_gone stat (evTable s)) ps"
  have "map Pid evs = ?g" and "rms = map exit_event ?g" and g: "set ?g \<subseteq> sp_watched (pm_view s)" "distinct ?g"
    using pm_do_scan(3,5) by (auto simp: pm_scan_eq pm_gone_def pm_view_def comp_def)
  then have "pm_view t = (pm_view s)\<lparr>sp_pending := ?g, sp_reported := sp_reported (pm_view s) @ ?g\<rparr>"
    using pm_do_scan(1,2) by (auto simp: pm_view_def pm_views comp_def)
  moreover have "sp_pending (pm_view s) = []" using pm_do_scan(2) by (simp add: pm_view_def pm_views)
  ultimately show ?thesis using sp_report [OF _ g(2,1)] by simp
next
  case (pm_do_rm rms)
  then have "pm_view t = (pm_view s)\<lparr>sp_watched := sp_watched (pm_view s) - set (sp_pending (pm_view s)), sp_pending := []\<rparr>"
    using assms(2) by (simp add: pm_view_def pm_views pm_valid_def pm_cleanup_eq pm.watched_fold_rm)
  then show ?thesis by (simp add: sp_forget)
next
  case (pm_wait b)
  then show ?thesis by (auto simp: pm_view_def pm_views)
qed (simp_all add: pm_view_def pm_views)

lemma pm_batches_step:
  assumes "pm_step s t" and "pm_batches s" shows "pm_batches t"
  using assms
proof (cases rule: pm_step.cases)
  case (pm_send evs rms)
  then show ?thesis using assms(2)
    by (auto simp: pm_batches_def intro: exI [of _ "received s @ eventCh s @ [evs]"])
next
  case pm_last
  then show ?thesis using assms(2)
    by (auto simp: pm_batches_def intro: exI [of _ "received s @ eventCh s"])
qed (auto simp: pm_batches_def split: if_splits)

interpretation pm_sim: monitor_simulation
  "\<lambda>s :: 'e pidmon. \<exists>poll. pm_New poll = Some s" pm_step "\<lambda>s. pm_valid s \<and> pm_batches s" pm_view
  by unfold_locales (auto dest: pm_New_inv pm_valid_step pm_batches_step pm_view_step [simplified])

lemma pm_reach_run: "pm_reach s \<Longrightarrow> \<exists>s0 poll. pm_New poll = Some s0 \<and> pm_step\<^sup>*\<^sup>* s0 s"
  by (induction rule: pm_reach.induct) (blast intro: rtranclp.rtrancl_into_rtrancl)+

lemma pm_reach_inv: "pm_reach s \<Longrightarrow> pm_valid s \<and> pm_batches s \<and> spec_reach (pm_view s)"
  using pm_reach_run pm_sim.run_simulated by blast

text \<open>
  C5. In every run of the process monitor, with any interleaving of its clients, a process is never
  reported more often than it was registered: each registration leads to at most one exit event.
\<close>

theorem pm_reports_bounded:
  assumes "pm_reach s"
  shows "count_list (pm_reported s) p \<le> added s p"
proof -
  have "spec_reach (pm_view s)" using pm_reach_inv [OF assms] by simp
  from spec_reports_bounded [OF this] show ?thesis by (simp add: pm_view_def)
qed

text \<open>
  C3. The process monitor implements the abstract monitor: it starts as the empty one, and every step of a
  client or of the thread, in every interleaving, is a step of the abstract monitor or invisible in it. What is
  reported is what \<open>WaitEvent\<close> has returned, followed by what is in the channel and what is being sent.
\<close>

theorem pm_refines_spec:
  assumes "pm_New poll = Some s0" and "pm_step\<^sup>*\<^sup>* s0 s"
  shows "pm_view s0 = spec_init \<and> spec_reach (pm_view s) \<and> (\<forall>t. pm_step s t \<longrightarrow> spec_step\<^sup>=\<^sup>= (pm_view s) (pm_view t)) \<and>
    (\<exists>ps. sp_reported (pm_view s) = map Pid (concat (received s)) @ ps)"
proof -
  have "pm_valid s \<and> pm_batches s \<and> spec_reach (pm_view s)"
    using pm_sim.run_simulated [OF assms(2)] assms(1) by blast
  moreover have "sp_reported (pm_view s) = map Pid (concat (received s)) @ map Pid (concat (eventCh s) @ pm_sending s)"
    by (simp add: pm_view_def pm_reported_def)
  ultimately show ?thesis using pm_New_inv [OF assms(1)] pm_view_step [of s] by blast
qed

text \<open>
  \<open>WaitEvent\<close> returns an empty batch only as the last batch of all, sent when a \<open>Close\<close> has
  stopped the monitor thread, and the buffer of the event channel is never exceeded.
\<close>

theorem pm_empty_batch_last:
  assumes "pm_reach s"
  shows "length (eventCh s) \<le> 100 \<and>
    (\<exists>bs. list_all (\<lambda>b. b \<noteq> []) bs \<and> received s @ eventCh s = bs @ (if pmPc s = PmDone then [[]] else []))"
  using pm_reach_inv [OF assms] by (simp add: pm_batches_def eventChCap_def)

section \<open>Shutting down\<close>

lemma pm_via: "pm_step s u \<Longrightarrow> \<exists>t. pm_step\<^sup>*\<^sup>* u t \<and> P t \<Longrightarrow> \<exists>t. pm_step\<^sup>*\<^sup>* s t \<and> P t"
  by (blast intro: converse_rtranclp_into_rtranclp)

lemma pm_via_run: "pm_step\<^sup>*\<^sup>* s u \<Longrightarrow> \<exists>t. pm_step\<^sup>*\<^sup>* u t \<and> P t \<Longrightarrow> \<exists>t. pm_step\<^sup>*\<^sup>* s t \<and> P t"
  by (blast intro: rtranclp_trans)

lemma pm_drain:
  "\<exists>t. pm_step\<^sup>*\<^sup>* s t \<and> eventCh t = [] \<and> pmPc t = pmPc s \<and> closing t = closing s \<and> evTable t = evTable s"
proof (induction "eventCh s" arbitrary: s)
  case (Cons b q)
  let ?s = "s\<lparr>eventCh := q, received := received s @ [b]\<rparr>"
  have "pm_step s ?s" using Cons.hyps(2) [symmetric] by (intro pm_wait [of _ b]) simp
  from pm_via [OF this] show ?case using Cons.hyps(1) [of ?s] by simp
qed auto

lemma pm_stop_done:
  assumes "pmPc s = PmStop" shows "\<exists>t. pm_step\<^sup>*\<^sup>* s t \<and> pmPc t = PmDone"
proof -
  obtain u where "pm_step\<^sup>*\<^sup>* s u" "eventCh u = []" "pmPc u = PmStop" using pm_drain [of s] assms by auto
  moreover from this have "pm_step u (u\<lparr>eventCh := eventCh u @ [[]], pmPc := PmDone\<rparr>)"
    by (intro pm_last) (simp_all add: eventChCap_def)
  then have "\<exists>t. pm_step\<^sup>*\<^sup>* u t \<and> pmPc t = PmDone"
    by (rule pm_via, intro exI [of _ "u\<lparr>eventCh := eventCh u @ [[]], pmPc := PmDone\<rparr>"]) simp
  ultimately show ?thesis by (intro pm_via_run [of s u])
qed

lemma pm_top_done:
  assumes "pmPc s = PmTop" and "closing s > 0" shows "\<exists>t. pm_step\<^sup>*\<^sup>* s t \<and> pmPc t = PmDone"
proof -
  obtain n where "closing s = Suc n" using assms(2) gr0_implies_Suc by blast
  then have "pm_step s (s\<lparr>pmPc := PmStop, closing := n\<rparr>)" using assms(1) by (intro pm_take_stop)
  from pm_via [OF this] show ?thesis by (simp add: pm_stop_done)
qed

lemma pm_remove_done:
  assumes "pmPc s = PmRemove rms" and "closing s > 0" shows "\<exists>t. pm_step\<^sup>*\<^sup>* s t \<and> pmPc t = PmDone"
proof -
  let ?u = "s\<lparr>evTable := pm_cleanup rms (evTable s), pmPc := PmSleep\<rparr>"
  have "pm_step s ?u" and "pm_step ?u (?u\<lparr>pmPc := PmTop\<rparr>)"
    using assms(1) by (intro pm_do_rm pm_wake; simp)+
  then show ?thesis
    using pm_top_done [of "?u\<lparr>pmPc := PmTop\<rparr>"] assms(2) by (intro pm_via [of s ?u] pm_via [of ?u]) simp_all
qed

lemma pm_send_done:
  assumes "pmPc s = PmSend evs rms" and "closing s > 0" shows "\<exists>t. pm_step\<^sup>*\<^sup>* s t \<and> pmPc t = PmDone"
proof -
  obtain u where u: "pm_step\<^sup>*\<^sup>* s u" "eventCh u = []" "pmPc u = PmSend evs rms" "closing u > 0"
    using pm_drain [of s] assms by auto
  let ?v = "u\<lparr>eventCh := eventCh u @ [evs], pmPc := PmRemove rms\<rparr>"
  have st: "pm_step u ?v" using u by (intro pm_send) (simp_all add: eventChCap_def)
  have "\<exists>t. pm_step\<^sup>*\<^sup>* ?v t \<and> pmPc t = PmDone" using pm_remove_done [of ?v rms] u by simp
  from pm_via_run [OF u(1) pm_via [OF st this]] show ?thesis .
qed

text \<open>
  Once a client is in \<open>Close\<close>, the monitor can always be brought to its end, wherever its thread
  is, provided the client keeps reading events: no state of the monitor is stuck before it has answered a \<open>Close\<close>.
\<close>

theorem pm_close_completes:
  fixes s :: "'e pidmon"
  assumes "closing s > 0" and "pmPc s \<noteq> PmDone"
  shows "\<exists>t. pm_step\<^sup>*\<^sup>* s t \<and> pmPc t = PmDone"
proof (cases "pmPc s")
  case PmScan
  obtain ps where ps: "distinct ps" "set ps = dom (evTable s)" using finite_distinct_list [of "dom (evTable s)"] by auto
  obtain evs rms where sc: "pm_scan (\<lambda>_. StatOk :: 'e stat_result) (evTable s) ps [] [] = (evs, rms)"
    by fastforce
  let ?u = "s\<lparr>pmPc := (if length evs > 0 then PmSend evs rms else PmRemove rms)\<rparr>"
  have "pm_step s ?u" by (rule pm_do_scan [OF PmScan ps sc])
  moreover have "\<exists>t. pm_step\<^sup>*\<^sup>* ?u t \<and> pmPc t = PmDone"
    using pm_send_done [of ?u evs rms] pm_remove_done [of ?u rms] assms(1) by (cases "length evs > 0") simp_all
  ultimately show ?thesis by (rule pm_via)
next
  case PmSleep
  then have "pm_step s (s\<lparr>pmPc := PmTop\<rparr>)" by (rule pm_wake)
  from pm_via [OF this] show ?thesis using pm_top_done [of "s\<lparr>pmPc := PmTop\<rparr>"] assms(1) by simp
qed (use assms pm_top_done pm_stop_done pm_send_done pm_remove_done in auto)

text \<open>After the end nothing more is sent, and a further caller of \<open>Close\<close> is never answered.\<close>

lemma pm_done_step:
  "pm_step s t \<Longrightarrow> pmPc s = PmDone \<Longrightarrow>
   pmPc t = PmDone \<and> closing s \<le> closing t \<and> received t @ eventCh t = received s @ eventCh s"
  by (auto elim: pm_stepE)

lemma pm_done_forever:
  "pm_step\<^sup>*\<^sup>* s t \<Longrightarrow> pmPc s = PmDone \<Longrightarrow>
   pmPc t = PmDone \<and> closing s \<le> closing t \<and> received t @ eventCh t = received s @ eventCh s"
  by (induction rule: rtranclp_induct) (auto dest!: pm_done_step)

text \<open>
  A second \<open>Close\<close> never returns: once the monitor has ended, no run ever takes a pending stop
  command, and \<open>WaitEvent\<close> gets nothing but what was already in the channel.
\<close>

theorem pm_second_close_blocks:
  assumes "pmPc s = PmDone" and "pm_step\<^sup>*\<^sup>* (s\<lparr>closing := Suc (closing s)\<rparr>) t"
  shows "closing t > closing s \<and> received t @ eventCh t = received s @ eventCh s"
  using pm_done_forever [OF assms(2)] assms(1) by simp

section \<open>A registration that is lost\<close>

text \<open>
  C40. The monitor drops the lock between the scan and the removal so that events can be added in
  between; but a process registered again in that window is removed without being watched or reported:
  in every reachable state where the removal of \<open>p\<close> is pending, adding \<open>p\<close> and letting the thread go
  on leaves \<open>p\<close> unwatched, with no report more than before the registration.
\<close>

theorem pm_registration_lost:
  fixes s :: "'e pidmon"
  assumes "pm_reach s" and "pmPc s = PmRemove rms" and "p \<in> Pid ` set rms"
  shows "\<exists>u t. pm_step s u \<and> added u p = Suc (added s p) \<and> p \<in> pm_watched (evTable u) \<and>
    pm_step u t \<and> pmPc t = PmSleep \<and> p \<notin> pm_watched (evTable t) \<and> pm_reported t = pm_reported s"
proof -
  let ?u = "s\<lparr>evTable := eventTableAdd (evTable s) (exit_event p :: 'e PidEvent), added := (added s)(p := Suc (added s p))\<rparr>"
  let ?t = "?u\<lparr>evTable := pm_cleanup rms (evTable ?u), pmPc := PmSleep\<rparr>"
  have "list_all (\<lambda>e. validateEvent (Event e)) rms"
    using pm_reach_inv [OF assms(1)] assms(2) by (simp add: pm_valid_def pm_views)
  then have "p \<notin> pm_watched (evTable ?t)" using assms(3) by (auto simp: pm_cleanup_eq pm.watched_fold_rm)
  moreover have "p \<in> pm_watched (evTable ?u)" by (simp add: pm.watched_add)
  moreover have "pm_step s ?u" using pm_add [of "exit_event p :: 'e PidEvent" s] by (simp add: validateEvent_def)
  moreover have "pm_step ?u ?t" using assms(2) by (intro pm_do_rm) simp
  moreover have "pm_reported ?t = pm_reported s" using assms(2) by (simp add: pm_views)
  ultimately show ?thesis by (intro exI [of _ ?u] exI [of _ ?t]) simp
qed

section \<open>A run for the witnesses\<close>

text \<open>Process 7 is registered, found gone, and its event is in the channel.\<close>

definition pm_demo :: "unit pidmon" where
  "pm_demo = \<lparr>evTable = [7 \<mapsto> pmExit], eventCh = [[exit_event 7]], pmPc = PmRemove [exit_event 7],
     closing = 0, received = [], added = (\<lambda>_. 0)(7 := 1)\<rparr>"

lemma pm_demo_reach: "pm_reach pm_demo"
proof -
  let ?s0 = "\<lparr>evTable = (\<lambda>_. None), eventCh = [], pmPc = PmTop, closing = 0, received = [], added = (\<lambda>_. 0)\<rparr> :: unit pidmon"
  let ?s1 = "?s0\<lparr>evTable := [7 \<mapsto> pmExit], added := (\<lambda>_. 0)(7 := 1)\<rparr>"
  let ?s3 = "?s1\<lparr>pmPc := PmSend [exit_event 7] [exit_event 7]\<rparr>"
  have "pm_reach ?s0" by (rule pm_init [of 5]) (simp add: pm_New_def pm_validateCfg_def pmPollMin_def pmPollMax_def)
  moreover have "pm_step ?s0 ?s1"
    using pm_add [of "exit_event 7" ?s0] by (simp add: validateEvent_def eventTableAdd_def)
  moreover have "pm_step ?s1 (?s1\<lparr>pmPc := PmScan\<rparr>)" by (rule pm_default) simp_all
  moreover have "pm_gone (\<lambda>_. StatNotExist :: unit stat_result) [7 \<mapsto> pmExit] 7"
    by (simp add: pm_gone_def pm_watched_def eventIsSet_def pid_stat_def)
  then have "pm_step (?s1\<lparr>pmPc := PmScan\<rparr>) ?s3"
    using pm_do_scan [of "?s1\<lparr>pmPc := PmScan\<rparr>" "[7]" "\<lambda>_. StatNotExist" "[exit_event 7]" "[exit_event 7]"]
    by (simp add: pm_scan_eq exit_event_def exists_of_stat_def pid_stat_def)
  moreover have "pm_step ?s3 pm_demo"
    using pm_send [of ?s3 "[exit_event 7]" "[exit_event 7]"] by (simp add: eventChCap_def pm_demo_def)
  ultimately show ?thesis by (blast intro: pm_more)
qed

theorem pm_reports_bounded_witness: "count_list (pm_reported pm_demo) 7 \<le> added pm_demo 7"
  using pm_reports_bounded [OF pm_demo_reach] by simp

theorem pm_refines_spec_witness:
  "\<exists>poll s0. pm_New poll = Some (s0 :: unit pidmon) \<and> pm_view s0 = spec_init \<and> spec_reach (pm_view pm_demo)"
proof -
  obtain s0 poll where "pm_New poll = Some s0" "pm_step\<^sup>*\<^sup>* s0 pm_demo" using pm_reach_run [OF pm_demo_reach] by blast
  with pm_refines_spec [OF this] show ?thesis by blast
qed

theorem pm_empty_batch_last_witness:
  "\<exists>bs. list_all (\<lambda>b. b \<noteq> []) bs \<and> [[exit_event 7 :: unit PidEvent]] = bs"
  using pm_empty_batch_last [OF pm_demo_reach] by (simp add: pm_demo_def)

theorem pm_close_completes_witness: "\<exists>t. pm_step\<^sup>*\<^sup>* (pm_demo\<lparr>closing := 1\<rparr>) t \<and> pmPc t = PmDone"
  using pm_close_completes [of "pm_demo\<lparr>closing := 1\<rparr>"] by (simp add: pm_demo_def)

theorem pm_second_close_blocks_witness:
  "closing (pm_demo\<lparr>pmPc := PmDone, closing := 1\<rparr>) > 0"
  using pm_second_close_blocks [of "pm_demo\<lparr>pmPc := PmDone\<rparr>" "pm_demo\<lparr>pmPc := PmDone, closing := 1\<rparr>"]
  by (simp add: pm_demo_def)

theorem pm_registration_lost_witness:
  "\<exists>u t. pm_step pm_demo u \<and> added u 7 = 2 \<and> 7 \<in> pm_watched (evTable u) \<and>
    pm_step u t \<and> pmPc t = PmSleep \<and> 7 \<notin> pm_watched (evTable t) \<and> pm_reported t = pm_reported pm_demo"
proof -
  have "pmPc pm_demo = PmRemove [exit_event 7]" and "Suc (added pm_demo 7) = 2" by (simp_all add: pm_demo_def)
  then show ?thesis using pm_registration_lost [OF pm_demo_reach, of "[exit_event 7]" 7] by (simp add: numeral_2_eq_2)
qed

end
