(* ===== verification/FileMon.thy ===== *)
theory FileMon
  imports MonitorSpec GoStrings
begin

text \<open>
  The file monitor of \<open>fileMonitor/\<close>: configuration check, \<open>New\<close>, \<open>Add\<close>, \<open>Remove\<close>,
  \<open>Close\<close> (\<open>fileMon.go\<close>) and the monitor thread with its deferred function (\<open>monitor.go\<close>) as a
  step relation. Unlike the process monitor the thread ends when its table is empty and \<open>Add\<close>
  starts it again.
\<close>

section \<open>Configuration and state\<close>

text \<open>Durations are \<open>int64\<close> nanoseconds.\<close>

record fmCfg =
  EventBufSize :: int
  PollInterval :: int

definition fmPollMin :: int where "fmPollMin = 1 * 1000000"
definition fmPollMax :: int where "fmPollMax = 10000 * 1000000"

definition fm_validateCfg :: "fmCfg \<Rightarrow> bool" where
  "fm_validateCfg cfg \<longleftrightarrow> \<not> (PollInterval cfg < fmPollMin \<or> PollInterval cfg > fmPollMax)"

record 'e fmEvent =
  Filename :: string
  fmErr :: "'e option"

text \<open>
  Where the monitor thread is: not there, in the \<open>select\<close>, about to scan, sending a batch, about to
  remove, before the test for an empty table, sending the last batch, before the deferred function.
\<close>

datatype 'e fm_pc =
    FmIdle
  | FmSelect
  | FmScan
  | FmSend "'e fmEvent list" "string list"
  | FmRemove "string list"
  | FmCheck
  | FmStop
  | FmExit

text \<open>\<open>fmReceived\<close> and \<open>fmAdded\<close> are history: the batches read and how often each file was added.\<close>

record 'e filemon =
  fmCap :: nat
  fileTable :: "string \<rightharpoonup> bool"
  fmQueue :: "'e fmEvent list list"
  fmRunning :: bool
  fmStopped :: bool
  fmPc :: "'e fm_pc"
  fmReceived :: "'e fmEvent list list"
  fmAdded :: "string \<Rightarrow> nat"

text \<open>\<open>New\<close>: \<open>None\<close> is the configuration error; a negative buffer size panics in \<open>make\<close>.\<close>

definition fm_New :: "fmCfg \<Rightarrow> 'e filemon option go" where
  "fm_New cfg =
    (if \<not> fm_validateCfg cfg then Inr None
     else if EventBufSize cfg < 0 then Inl MakeChanSize
     else Inr (Some \<lparr>fmCap = nat (EventBufSize cfg), fileTable = (\<lambda>_. None), fmQueue = [], fmRunning = False,
            fmStopped = False, fmPc = FmIdle, fmReceived = [], fmAdded = (\<lambda>_. 0)\<rparr>))"

definition fm_Add :: "string \<Rightarrow> 'e filemon \<Rightarrow> 'e filemon" where
  "fm_Add f s =
    (let s1 = s\<lparr>fileTable := (fileTable s)(f \<mapsto> True), fmAdded := (fmAdded s)(f := Suc (fmAdded s f))\<rparr>
     in if \<not> fmRunning s then s1\<lparr>fmRunning := True, fmPc := FmSelect\<rparr> else s1)"

definition fm_Remove :: "string \<Rightarrow> 'e filemon \<Rightarrow> 'e filemon" where
  "fm_Remove f s = s\<lparr>fileTable := (fileTable s)(f := None)\<rparr>"

text \<open>\<open>Events\<close> gives the channel of the batches, for reading.\<close>

definition fm_Events :: "'e filemon \<Rightarrow> 'e fmEvent list list" where
  [simp]: "fm_Events s = fmQueue s"

text \<open>Closing a channel twice panics.\<close>

definition fm_Close :: "'e filemon \<Rightarrow> 'e filemon go" where
  "fm_Close s = (if fmStopped s then Inl CloseOfClosedChannel else Inr (s\<lparr>fmStopped := True\<rparr>))"

section \<open>The thread\<close>

definition checkFileExists :: "(string \<Rightarrow> 'e stat_result) \<Rightarrow> string \<Rightarrow> bool \<times> 'e option" where
  "checkFileExists stat path = exists_of_stat (stat path)"

text \<open>The loop of \<open>checkFiles\<close> over the table in the order \<open>fs\<close> of the visit.\<close>

fun fm_scan :: "(string \<Rightarrow> 'e stat_result) \<Rightarrow> string list \<Rightarrow> 'e fmEvent list \<Rightarrow> string list \<Rightarrow> 'e fmEvent list \<times> string list" where
  "fm_scan stat [] eventList rmList = (eventList, rmList)"
| "fm_scan stat (f # fs) eventList rmList =
     (let (exists, err) = checkFileExists stat f
      in if err \<noteq> None \<or> \<not> exists
         then fm_scan stat fs (eventList @ [\<lparr>Filename = f, fmErr = err\<rparr>]) (rmList @ [f])
         else fm_scan stat fs eventList rmList)"

definition fm_cleanup :: "string list \<Rightarrow> (string \<rightharpoonup> bool) \<Rightarrow> (string \<rightharpoonup> bool)" where
  "fm_cleanup rmList t = foldl (\<lambda>t f. t(f := None)) t rmList"

text \<open>
  \<open>fm_send\<close> and \<open>fm_last\<close> put a batch into the buffer of the channel, the two hand-over steps give it to
  a reader that waits at an empty channel, which is the only way out of an unbuffered one. When the
  stop channel is closed and the ticker has fired the \<open>select\<close> takes either. \<open>checkFiles\<close> appends to its own
  copy of the event list, so the list sent at the stop is the empty one the thread started with.
\<close>

inductive fm_step :: "'e filemon \<Rightarrow> 'e filemon \<Rightarrow> bool" where
  fm_add: "fm_step s (fm_Add f s)"
| fm_remove: "fm_step s (fm_Remove f s)"
| fm_close: "fm_Close s = Inr t \<Longrightarrow> fm_step s t"
| fm_read: "fm_Events s = b # q \<Longrightarrow> fm_step s (s\<lparr>fmQueue := q, fmReceived := fmReceived s @ [b]\<rparr>)"
| fm_select_stop: "fmPc s = FmSelect \<Longrightarrow> fmStopped s \<Longrightarrow> fm_step s (s\<lparr>fmPc := FmStop\<rparr>)"
| fm_select_tick: "fmPc s = FmSelect \<Longrightarrow> fm_step s (s\<lparr>fmPc := FmScan\<rparr>)"
| fm_do_scan: "fmPc s = FmScan \<Longrightarrow> distinct fs \<Longrightarrow> set fs = dom (fileTable s) \<Longrightarrow>
    fm_scan stat fs [] [] = (evs, rms) \<Longrightarrow>
    fm_step s (s\<lparr>fmPc := (if length evs > 0 then FmSend evs rms else FmRemove rms)\<rparr>)"
| fm_send: "fmPc s = FmSend evs rms \<Longrightarrow> length (fmQueue s) < fmCap s \<Longrightarrow>
    fm_step s (s\<lparr>fmQueue := fmQueue s @ [evs], fmPc := FmRemove rms\<rparr>)"
| fm_hand_over: "fmPc s = FmSend evs rms \<Longrightarrow> fmQueue s = [] \<Longrightarrow>
    fm_step s (s\<lparr>fmReceived := fmReceived s @ [evs], fmPc := FmRemove rms\<rparr>)"
| fm_do_rm: "fmPc s = FmRemove rms \<Longrightarrow> fm_step s (s\<lparr>fileTable := fm_cleanup rms (fileTable s), fmPc := FmCheck\<rparr>)"
| fm_check: "fmPc s = FmCheck \<Longrightarrow>
    fm_step s (s\<lparr>fmPc := (if dom (fileTable s) = {} then FmExit else FmSelect)\<rparr>)"
| fm_last: "fmPc s = FmStop \<Longrightarrow> length (fmQueue s) < fmCap s \<Longrightarrow>
    fm_step s (s\<lparr>fmQueue := fmQueue s @ [[]], fmPc := FmExit\<rparr>)"
| fm_last_hand_over: "fmPc s = FmStop \<Longrightarrow> fmQueue s = [] \<Longrightarrow>
    fm_step s (s\<lparr>fmReceived := fmReceived s @ [[]], fmPc := FmExit\<rparr>)"
| fm_deferred: "fmPc s = FmExit \<Longrightarrow> fm_step s (s\<lparr>fmRunning := False, fmPc := FmIdle\<rparr>)"

inductive fm_reach :: "'e filemon \<Rightarrow> bool" where
  fm_init: "fm_New cfg = Inr (Some s) \<Longrightarrow> fm_reach s"
| fm_more: "fm_reach s \<Longrightarrow> fm_step s t \<Longrightarrow> fm_reach t"

inductive_cases fm_stepE: "fm_step s t"

section \<open>The table and the scan\<close>

interpretation fm: watch_table "\<lambda>f t. t(f \<mapsto> True)" "\<lambda>f t. t(f := None)" "dom :: (string \<rightharpoonup> bool) \<Rightarrow> string set"
  by unfold_locales auto

lemma fm_cleanup_eq: "fm_cleanup rms t = fold (\<lambda>f t. t(f := None)) rms t"
  by (simp add: fm_cleanup_def foldl_conv_fold)

lemma fm_scan_eq:
  "fm_scan stat fs evs rms =
    (evs @ map (\<lambda>f. \<lparr>Filename = f, fmErr = snd (exists_of_stat (stat f))\<rparr>) (filter (\<lambda>f. stat f \<noteq> StatOk) fs),
     rms @ filter (\<lambda>f. stat f \<noteq> StatOk) fs)"
proof (induction fs arbitrary: evs rms)
  case (Cons f fs)
  then show ?case
    using exists_of_stat_alive [of "stat f"] by (auto simp: checkFileExists_def Let_def split: prod.split)
qed simp

section \<open>Invariants\<close>

definition fm_sending :: "'e filemon \<Rightarrow> 'e fmEvent list" where
  "fm_sending s = (case fmPc s of FmSend evs rms \<Rightarrow> evs | _ \<Rightarrow> [])"

definition fm_pending :: "'e filemon \<Rightarrow> string list" where
  "fm_pending s = (case fmPc s of FmSend evs rms \<Rightarrow> rms | FmRemove rms \<Rightarrow> rms | _ \<Rightarrow> [])"

definition fm_reported :: "'e filemon \<Rightarrow> string list" where
  "fm_reported s = map Filename (concat (fmReceived s @ fmQueue s) @ fm_sending s)"

text \<open>What the monitor is as an abstract one.\<close>

definition fm_view :: "'e filemon \<Rightarrow> string monitor_spec" where
  "fm_view s = \<lparr>sp_watched = dom (fileTable s), sp_pending = fm_pending s, sp_reported = fm_reported s, sp_added = fmAdded s\<rparr>"

definition fm_thread :: "'e filemon \<Rightarrow> bool" where
  "fm_thread s \<longleftrightarrow> (fmRunning s \<longleftrightarrow> fmPc s \<noteq> FmIdle) \<and> length (fmQueue s) \<le> fmCap s \<and>
     (fmStopped s \<or> fmPc s \<noteq> FmStop \<and> (\<forall>rms. fmPc s \<noteq> FmSend [] rms) \<and> [] \<notin> set (fmReceived s @ fmQueue s))"

lemmas fm_views = fm_sending_def fm_pending_def fm_reported_def

lemma fm_New_inv: "fm_New cfg = Inr (Some s) \<Longrightarrow> fm_thread s \<and> fm_view s = spec_init"
  by (auto simp: fm_New_def fm_thread_def fm_view_def fm_views spec_init_def split: if_splits)

lemma fm_Add_views:
  assumes "fm_thread s"
  shows "fm_reported (fm_Add f s) = fm_reported s" and "fm_pending (fm_Add f s) = fm_pending s"
  using assms by (auto simp: fm_Add_def fm_thread_def fm_views Let_def)

lemma fm_view_step:
  assumes "fm_step s t" and "fm_thread s" shows "spec_step\<^sup>=\<^sup>= (fm_view s) (fm_view t)"
  using assms(1)
proof (cases rule: fm_step.cases)
  case (fm_add f)
  have "fileTable t = (fileTable s)(f \<mapsto> True)" and "fmAdded t = (fmAdded s)(f := Suc (fmAdded s f))"
    using fm_add by (simp_all add: fm_Add_def Let_def)
  then have "fm_view t = (fm_view s)\<lparr>sp_watched := insert f (sp_watched (fm_view s)),
      sp_added := (sp_added (fm_view s))(f := Suc (sp_added (fm_view s) f))\<rparr>"
    using fm_add by (simp add: fm_view_def fm_Add_views [OF assms(2)])
  then show ?thesis by (simp add: sp_register)
next
  case (fm_remove f)
  then have "fm_view t = (fm_view s)\<lparr>sp_watched := sp_watched (fm_view s) - {f}\<rparr>"
    by (simp add: fm_view_def fm_views fm_Remove_def)
  then show ?thesis by (simp add: sp_unregister)
next
  case (fm_do_scan fs stat evs rms)
  let ?g = "filter (\<lambda>f. stat f \<noteq> StatOk) fs"
  have "map Filename evs = ?g" and "rms = ?g" and g: "set ?g \<subseteq> sp_watched (fm_view s)" "distinct ?g"
    using fm_do_scan(3,4,5) by (auto simp: fm_scan_eq fm_view_def comp_def)
  then have "fm_view t = (fm_view s)\<lparr>sp_pending := ?g, sp_reported := sp_reported (fm_view s) @ ?g\<rparr>"
    using fm_do_scan(1,2) by (auto simp: fm_view_def fm_views)
  moreover have "sp_pending (fm_view s) = []" using fm_do_scan(2) by (simp add: fm_view_def fm_views)
  ultimately show ?thesis using sp_report [OF _ g(2,1)] by simp
next
  case (fm_do_rm rms)
  then have "fm_view t = (fm_view s)\<lparr>sp_watched := sp_watched (fm_view s) - set (sp_pending (fm_view s)), sp_pending := []\<rparr>"
    by (simp add: fm_view_def fm_views fm_cleanup_eq fm.watched_fold_rm)
  then show ?thesis by (simp add: sp_forget)
qed (auto simp: fm_view_def fm_views fm_Close_def split: if_splits)

lemma fm_thread_step:
  assumes "fm_step s t" and "fm_thread s" shows "fm_thread t"
  using assms
  by (cases rule: fm_step.cases) (auto simp: fm_thread_def fm_Add_def fm_Remove_def fm_Close_def Let_def split: if_splits)

interpretation fm_sim: monitor_simulation
  "\<lambda>s :: 'e filemon. \<exists>cfg. fm_New cfg = Inr (Some s)" fm_step fm_thread fm_view
  by unfold_locales (auto dest: fm_New_inv fm_thread_step fm_view_step [simplified])

lemma fm_reach_run: "fm_reach s \<Longrightarrow> \<exists>s0 cfg. fm_New cfg = Inr (Some s0) \<and> fm_step\<^sup>*\<^sup>* s0 s"
  by (induction rule: fm_reach.induct) (blast intro: rtranclp.rtrancl_into_rtrancl)+

lemma fm_reach_inv: "fm_reach s \<Longrightarrow> fm_thread s \<and> spec_reach (fm_view s)"
  using fm_reach_run fm_sim.run_simulated by blast

section \<open>Properties\<close>

text \<open>
  C18. In every run of the file monitor a file is never reported more often than it was added, the
  thread is there exactly while \<open>running\<close> is set (so there is never a second one), the buffer is never
  exceeded, and before a \<open>Close\<close> no batch is empty.
\<close>

theorem fm_monitor_invariant:
  assumes "fm_reach s"
  shows "count_list (fm_reported s) f \<le> fmAdded s f \<and> (fmRunning s \<longleftrightarrow> fmPc s \<noteq> FmIdle) \<and>
    length (fmQueue s) \<le> fmCap s \<and> (fmStopped s \<or> [] \<notin> set (fmReceived s @ fmQueue s))"
proof -
  have "spec_reach (fm_view s)" and "fm_thread s" using fm_reach_inv [OF assms] by simp_all
  with spec_reports_bounded [of "fm_view s" f] show ?thesis by (auto simp: fm_view_def fm_thread_def)
qed

text \<open>
  C19. The file monitor implements the same abstract monitor as the process monitor: it starts as the empty one, and every step
  of a client or of the thread, in every interleaving and with any number of starts of the thread, is a step of the abstract
  monitor or invisible in it.
\<close>

theorem fm_refines_spec:
  assumes "fm_New cfg = Inr (Some s0)" and "fm_step\<^sup>*\<^sup>* s0 s"
  shows "fm_view s0 = spec_init \<and> spec_reach (fm_view s) \<and> (\<forall>t. fm_step s t \<longrightarrow> spec_step\<^sup>=\<^sup>= (fm_view s) (fm_view t)) \<and>
    (\<exists>fs. sp_reported (fm_view s) = map Filename (concat (fmReceived s)) @ fs)"
proof -
  have "fm_thread s \<and> spec_reach (fm_view s)" using fm_sim.run_simulated [OF assms(2)] assms(1) by blast
  moreover have "sp_reported (fm_view s) = map Filename (concat (fmReceived s)) @ map Filename (concat (fmQueue s) @ fm_sending s)"
    by (simp add: fm_view_def fm_reported_def)
  ultimately show ?thesis using fm_New_inv [OF assms(1)] fm_view_step [of s] by blast
qed

text \<open>
  A file added between the thread's test for an empty table and its deferred function is
  not monitored: \<open>Add\<close> sees \<open>running\<close> still set and starts no thread, the thread ends, and the file
  stays in the table; from then on, until the next \<open>Add\<close>, no step starts a thread or reports a file.
\<close>

theorem fm_add_lost:
  assumes "fm_reach s" and "fmPc s = FmExit"
  shows "\<exists>t. fm_step s (fm_Add f s) \<and> fm_step (fm_Add f s) t \<and>
    fileTable t f = Some True \<and> fmPc t = FmIdle \<and> \<not> fmRunning t \<and> fmAdded t f = Suc (fmAdded s f) \<and>
    fm_reported t = fm_reported s \<and>
    (\<forall>u. fm_step t u \<and> fmAdded u = fmAdded t \<longrightarrow> fmPc u = FmIdle \<and> fm_reported u = fm_reported t)"
proof -
  have run: "fmRunning s" using fm_reach_inv [OF assms(1)] assms(2) by (simp add: fm_thread_def)
  let ?u = "fm_Add f s"
  let ?t = "?u\<lparr>fmRunning := False, fmPc := FmIdle\<rparr>"
  have u: "?u = s\<lparr>fileTable := (fileTable s)(f \<mapsto> True), fmAdded := (fmAdded s)(f := Suc (fmAdded s f))\<rparr>"
    using run by (simp add: fm_Add_def Let_def)
  have "fmPc w = FmIdle \<and> fm_reported w = fm_reported ?t" if "fm_step ?t w" "fmAdded w = fmAdded ?t" for w
    using that(1)
  proof (cases rule: fm_step.cases)
    case (fm_add g)
    then have "fmAdded w g = Suc (fmAdded ?t g)" by (simp add: fm_Add_def Let_def)
    then show ?thesis using that(2) by simp
  qed (auto simp: fm_views fm_Remove_def fm_Close_def split: if_splits)
  moreover have "fm_step ?u ?t" by (rule fm_deferred) (simp add: u assms(2))
  moreover have "fm_reported ?t = fm_reported s" using assms(2) by (simp add: u fm_views)
  ultimately show ?thesis using fm_step.fm_add [of s f] by (intro exI [of _ ?t]) (simp add: u)
qed

text \<open>
  \<open>New\<close> accepts exactly the intervals from 1 ms to 10 s, counted in nanoseconds, and then
  panics exactly when the buffer size is negative. An interval given as a plain number of milliseconds, as
  the comment on the field says, is refused.
\<close>

theorem fm_New_cases:
  "(fm_New cfg = Inr (None :: 'e filemon option) \<longleftrightarrow> PollInterval cfg < 1000000 \<or> PollInterval cfg > 10000000000) \<and>
   (fm_New cfg = (Inl MakeChanSize :: 'e filemon option go) \<longleftrightarrow>
      1000000 \<le> PollInterval cfg \<and> PollInterval cfg \<le> 10000000000 \<and> EventBufSize cfg < 0) \<and>
   fm_New \<lparr>EventBufSize = 10, PollInterval = 100\<rparr> = Inr (None :: 'e filemon option)"
  by (auto simp: fm_New_def fm_validateCfg_def fmPollMin_def fmPollMax_def)

section \<open>A run for the witnesses\<close>

text \<open>The only file added has been found gone and reported; the thread is about to end.\<close>

definition fm_demo :: "unit filemon" where
  "fm_demo = \<lparr>fmCap = 1, fileTable = (\<lambda>_. None), fmQueue = [[\<lparr>Filename = ''a'', fmErr = None\<rparr>]], fmRunning = True,
     fmStopped = False, fmPc = FmExit, fmReceived = [], fmAdded = (\<lambda>_. 0)(''a'' := 1)\<rparr>"

lemma fm_demo_reach: "fm_reach fm_demo"
proof -
  let ?e = "\<lparr>Filename = ''a'', fmErr = None\<rparr> :: unit fmEvent"
  let ?s0 = "\<lparr>fmCap = 1, fileTable = (\<lambda>_. None), fmQueue = [], fmRunning = False,
     fmStopped = False, fmPc = FmIdle, fmReceived = [], fmAdded = (\<lambda>_. 0)\<rparr> :: unit filemon"
  let ?s1 = "?s0\<lparr>fileTable := [''a'' \<mapsto> True], fmAdded := (\<lambda>_. 0)(''a'' := 1), fmRunning := True, fmPc := FmSelect\<rparr>"
  let ?s3 = "?s1\<lparr>fmPc := FmSend [?e] [''a'']\<rparr>"
  let ?s4 = "?s1\<lparr>fmQueue := [[?e]], fmPc := FmRemove [''a'']\<rparr>"
  let ?s5 = "?s4\<lparr>fileTable := (\<lambda>_. None), fmPc := FmCheck\<rparr>"
  have r0: "fm_reach ?s0"
    by (rule fm_init [of "\<lparr>EventBufSize = 1, PollInterval = 1000000\<rparr>"])
      (simp add: fm_New_def fm_validateCfg_def fmPollMin_def fmPollMax_def)
  have a1: "fm_step ?s0 ?s1" using fm_add [of ?s0 "''a''"] by (simp add: fm_Add_def Let_def)
  have a2: "fm_step ?s1 (?s1\<lparr>fmPc := FmScan\<rparr>)" by (rule fm_select_tick) simp
  have a3: "fm_step (?s1\<lparr>fmPc := FmScan\<rparr>) ?s3"
    using fm_do_scan [of "?s1\<lparr>fmPc := FmScan\<rparr>" "[''a'']" "\<lambda>_. StatNotExist" "[?e]" "[''a'']"]
    by (simp add: fm_scan_eq exists_of_stat_def)
  have a4: "fm_step ?s3 ?s4" using fm_send [of ?s3 "[?e]" "[''a'']"] by simp
  have a5: "fm_step ?s4 ?s5" using fm_do_rm [of ?s4 "[''a'']"] by (simp add: fm_cleanup_def fun_upd_idem)
  have a6: "fm_step ?s5 fm_demo" using fm_check [of ?s5] by (simp add: fm_demo_def)
  show ?thesis
    by (rule fm_more [OF fm_more [OF fm_more [OF fm_more [OF fm_more [OF fm_more [OF r0 a1] a2] a3] a4] a5] a6])
qed

theorem fm_monitor_invariant_witness: "count_list (fm_reported fm_demo) ''a'' \<le> fmAdded fm_demo ''a''"
  using fm_monitor_invariant [OF fm_demo_reach] by simp

theorem fm_refines_spec_witness:
  "\<exists>cfg s0. fm_New cfg = Inr (Some (s0 :: unit filemon)) \<and> fm_view s0 = spec_init \<and> spec_reach (fm_view fm_demo)"
proof -
  obtain s0 cfg where "fm_New cfg = Inr (Some s0)" "fm_step\<^sup>*\<^sup>* s0 fm_demo" using fm_reach_run [OF fm_demo_reach] by blast
  with fm_refines_spec [OF this] show ?thesis by blast
qed

theorem fm_add_lost_witness:
  "\<exists>t. fm_step (fm_Add ''b'' fm_demo) t \<and> fileTable t ''b'' = Some True \<and> fmPc t = FmIdle \<and> \<not> fmRunning t"
proof -
  have "fmPc fm_demo = FmExit" by (simp add: fm_demo_def)
  then show ?thesis using fm_add_lost [OF fm_demo_reach, of "''b''"] by blast
qed

end
