(* ===== verification/FairRun.thy ===== *)
theory FairRun
  imports Main "HOL-Library.Sublist"
begin

text \<open>
  Fair runs and what they lead to. A run is an infinite sequence of states; an action is a relation between a state and the next
  one. The locale \<open>channel_thread\<close> is a thread that hands batches to its clients over a bounded channel: if its own steps and the
  receives of the clients are weakly fair, it is never blocked for ever and all it has sent is received.
\<close>

section \<open>Fairness\<close>

text \<open>
  Weakly fair: an action that is possible for ever from some time on is taken after it. Strongly fair: an action that is possible
  again and again is taken.
\<close>

definition weakly_fair :: "('s \<Rightarrow> 's \<Rightarrow> bool) \<Rightarrow> (nat \<Rightarrow> 's) \<Rightarrow> bool" where
  "weakly_fair A f \<longleftrightarrow> (\<forall>i. (\<forall>j\<ge>i. \<exists>t. A (f j) t) \<longrightarrow> (\<exists>j\<ge>i. A (f j) (f (Suc j))))"

definition strongly_fair :: "('s \<Rightarrow> 's \<Rightarrow> bool) \<Rightarrow> (nat \<Rightarrow> 's) \<Rightarrow> bool" where
  "strongly_fair A f \<longleftrightarrow> (\<forall>i. (\<forall>j\<ge>i. \<exists>k\<ge>j. \<exists>t. A (f k) t) \<longrightarrow> (\<exists>j\<ge>i. A (f j) (f (Suc j))))"

lemma weakly_fairD:
  assumes "weakly_fair A f" and "\<And>j. i \<le> j \<Longrightarrow> \<exists>t. A (f j) t"
  shows "\<exists>j\<ge>i. A (f j) (f (Suc j))"
  using assms unfolding weakly_fair_def by blast

lemma strongly_fairD:
  assumes "strongly_fair A f" and "\<And>j. i \<le> j \<Longrightarrow> \<exists>k\<ge>j. \<exists>t. A (f k) t"
  shows "\<exists>j\<ge>i. A (f j) (f (Suc j))"
  using assms unfolding strongly_fair_def by blast

lemma weakly_fairI:
  assumes "\<And>i. \<exists>j\<ge>i. (\<nexists>t. A (f j) t) \<or> A (f j) (f (Suc j))"
  shows "weakly_fair A f"
  using assms unfolding weakly_fair_def by blast

lemma strongly_fairI:
  assumes "\<And>j. n \<le> j \<Longrightarrow> \<nexists>t. A (f j) t"
  shows "strongly_fair A f"
proof (unfold strongly_fair_def, intro allI impI)
  fix i assume again: "\<forall>j\<ge>i. \<exists>k\<ge>j. \<exists>t. A (f k) t"
  have "i \<le> max i n" by simp
  then obtain k t where k: "max i n \<le> k" and a: "A (f k) t" using again by blast
  from k have "n \<le> k" by simp
  from assms [OF this] a show "\<exists>j\<ge>i. A (f j) (f (Suc j))" by blast
qed

section \<open>Reaching a goal\<close>

text \<open>
  A rank that no step raises and that steps of one kind lower leads to the goal, if such steps come again and again.
\<close>

lemma rank_reaches:
  fixes r :: "'s \<Rightarrow> nat"
  assumes start: "I (f n)"
    and keep: "\<And>i. I (f i) \<Longrightarrow> \<not> G (f i) \<Longrightarrow> \<not> G (f (Suc i)) \<Longrightarrow> I (f (Suc i)) \<and> r (f (Suc i)) \<le> r (f i)"
    and lower: "\<And>i. I (f i) \<Longrightarrow> \<not> G (f i) \<Longrightarrow> \<not> G (f (Suc i)) \<Longrightarrow> moves (f i) (f (Suc i)) \<Longrightarrow> r (f (Suc i)) < r (f i)"
    and again: "\<And>i. I (f i) \<Longrightarrow> \<not> G (f i) \<Longrightarrow> \<exists>j\<ge>i. moves (f j) (f (Suc j))"
  shows "\<exists>j\<ge>n. G (f j)"
proof (rule ccontr)
  assume "\<not> (\<exists>j\<ge>n. G (f j))"
  then have ng: "\<not> G (f j)" if "n \<le> j" for j using that by blast
  have inv: "I (f i)" if "n \<le> i" for i
    using that
  proof (induction rule: dec_induct)
    case (step k)
    then show ?case using keep [of k] ng [of k] ng [of "Suc k"] by simp
  qed (rule start)
  have le: "r (f j) \<le> r (f i)" if "i \<le> j" "n \<le> i" for i j
    using that(1)
  proof (induction rule: dec_induct)
    case (step k)
    then show ?case using keep [of k] inv [of k] ng [of k] ng [of "Suc k"] that(2) by simp
  qed simp
  have "False" if "r (f i) = m" "n \<le> i" for m i
    using that
  proof (induction m arbitrary: i rule: less_induct)
    case (less m)
    obtain j where j: "i \<le> j" "moves (f j) (f (Suc j))" using again [of i] inv [of i] ng [of i] less.prems by blast
    then have n: "n \<le> j" using less.prems by simp
    have "r (f (Suc j)) < r (f j)" using lower [of j] inv [of j] ng [of j] ng [of "Suc j"] j(2) n by simp
    also have "\<dots> \<le> m" using le [OF j(1)] less.prems by simp
    finally have lt: "r (f (Suc j)) < m" .
    from less.IH [OF lt refl] n show ?case by simp
  qed
  then show False by blast
qed

section \<open>Channels\<close>

lemma prefix_run:
  assumes "\<And>i. prefix (h i) (h (Suc i))" and "i \<le> j"
  shows "prefix (h i) (h j)"
  using assms(2) by (induction rule: dec_induct) (use assms(1) prefix_order.trans in blast)+

text \<open>
  A buffered channel on a run: \<open>r i\<close> are the batches received, \<open>q i\<close> those in the buffer. Batches are only appended, and read
  in order; if reading goes on while the buffer is not empty, all that is in it at one time is received in the end.
\<close>

lemma channel_drains:
  fixes r q :: "nat \<Rightarrow> 'b list"
  assumes app: "\<And>i. prefix (r i @ q i) (r (Suc i) @ q (Suc i))" and recv: "\<And>i. prefix (r i) (r (Suc i))"
    and fair: "\<And>i. q i \<noteq> [] \<Longrightarrow> \<exists>k\<ge>i. length (r k) < length (r (Suc k))"
  shows "\<exists>k\<ge>j. prefix (r j @ q j) (r k)"
proof -
  have app': "prefix (r i @ q i) (r k @ q k)" if "i \<le> k" for i k
    using prefix_run [where h = "\<lambda>i. r i @ q i", OF app that] .
  have recv': "length (r i) \<le> length (r k)" if "i \<le> k" for i k
    using prefix_run [where h = r, OF recv that] by (rule prefix_length_le)
  have "\<exists>k\<ge>j. n \<le> length (r k)" if "n \<le> length (r j @ q j)" for n
    using that
  proof (induction n)
    case (Suc n)
    then obtain k where k: "j \<le> k" "n \<le> length (r k)" by auto
    show ?case
    proof (cases "Suc n \<le> length (r k)")
      case False
      have "length (r j @ q j) \<le> length (r k @ q k)" by (rule prefix_length_le [OF app' [OF k(1)]])
      then have "q k \<noteq> []" using False Suc.prems by auto
      then obtain m where m: "k \<le> m" "length (r m) < length (r (Suc m))" using fair by blast
      have "Suc n \<le> length (r (Suc m))" using k(2) recv' [OF m(1)] m(2) by linarith
      then show ?thesis using k(1) m(1) by (intro exI [of _ "Suc m"]) simp
    qed (use k in blast)
  qed auto
  then obtain k where k: "j \<le> k" "length (r j @ q j) \<le> length (r k)" by blast
  then have "prefix (r j @ q j) (r k)"
    using prefix_length_prefix [OF app' [of j k], of "r k"] by simp
  with k(1) show ?thesis by blast
qed

lemma count_prefix: "prefix xs ys \<Longrightarrow> count_list (map g (concat xs)) x \<le> count_list (map g (concat ys)) x"
  by (auto elim!: prefixE)

text \<open>
  A thread at \<open>pc s\<close>, with the channel \<open>q s\<close> of at most \<open>cap s\<close> batches and the batches \<open>r s\<close> received from it. The steps
  \<open>moves\<close> are those of the thread, \<open>reads\<close> the receives of its clients. Where it does not rest, it can move whenever the channel
  has room; an empty channel has, since a receiver can take the batch from the thread directly.
\<close>

locale channel_thread =
  fixes step :: "'s \<Rightarrow> 's \<Rightarrow> bool" and inv :: "'s \<Rightarrow> bool"
    and pc :: "'s \<Rightarrow> 'p" and rests :: "'p \<Rightarrow> bool"
    and moves reads :: "'s \<Rightarrow> 's \<Rightarrow> bool"
    and q r :: "'s \<Rightarrow> 'b list" and cap :: "'s \<Rightarrow> nat"
  assumes inv_step: "inv s \<Longrightarrow> step s t \<Longrightarrow> inv t"
    and moves_pc: "moves s t \<Longrightarrow> pc t \<noteq> pc s"
    and appends: "step s t \<Longrightarrow> prefix (r s @ q s) (r t @ q t) \<and> prefix (r s) (r t)"
    and within: "inv s \<Longrightarrow> length (q s) \<le> cap s"
    and can_read: "q s \<noteq> [] \<Longrightarrow> \<exists>t. reads s t"
    and reads: "reads s t \<Longrightarrow> pc t = pc s \<and> cap t = cap s \<and> length (q t) < length (q s) \<and> length (r s) < length (r t)"
    and stays: "step s t \<Longrightarrow> \<not> reads s t \<Longrightarrow> q s \<noteq> [] \<Longrightarrow> q t \<noteq> []"
    and client: "step s t \<Longrightarrow> pc t = pc s \<Longrightarrow> length (q t) \<le> length (q s) \<and> cap t = cap s"
    and can_move: "inv s \<Longrightarrow> \<not> rests (pc s) \<Longrightarrow> q s = [] \<or> length (q s) < cap s \<Longrightarrow> \<exists>t. moves s t"
begin

lemma run_inv:
  assumes "inv (f 0)" and "\<And>i. step (f i) (f (Suc i))"
  shows "inv (f i)"
  by (induction i) (use assms inv_step in blast)+

lemma read_again:
  assumes run: "\<And>i. step (f i) (f (Suc i))" and wf: "weakly_fair reads f" and ne: "q (f i) \<noteq> []"
  shows "\<exists>j\<ge>i. reads (f j) (f (Suc j))"
proof (rule ccontr)
  assume none: "\<not> (\<exists>j\<ge>i. reads (f j) (f (Suc j)))"
  have "q (f j) \<noteq> []" if "i \<le> j" for j
    using that
  proof (induction rule: dec_induct)
    case (step k)
    then show ?case using stays [OF run [of k]] none by blast
  qed (rule ne)
  then have "\<exists>t. reads (f j) t" if "i \<le> j" for j using that can_read by blast
  from weakly_fairD [OF wf this] none show False by blast
qed

text \<open>All that is in the channel is received.\<close>

lemma drains:
  assumes run: "\<And>i. step (f i) (f (Suc i))" and wf: "weakly_fair reads f"
  shows "\<exists>k\<ge>j. prefix (r (f j) @ q (f j)) (r (f k))"
proof (rule channel_drains [where r = "\<lambda>i. r (f i)" and q = "\<lambda>i. q (f i)"])
  show "\<exists>k\<ge>i. length (r (f k)) < length (r (f (Suc k)))" if "q (f i) \<noteq> []" for i
    using read_again [OF run wf that] reads by blast
qed (use appends [OF run] in blast)+

text \<open>
  The thread goes on: while it waits for room in the channel nothing is appended, so one receive is enough for it to stay able to
  move.
\<close>

lemma moves_again:
  assumes init: "inv (f 0)" and run: "\<And>i. step (f i) (f (Suc i))"
    and wf: "weakly_fair moves f" "weakly_fair reads f" and busy: "\<not> rests (pc (f i))"
  shows "\<exists>j\<ge>i. pc (f (Suc j)) \<noteq> pc (f j)"
proof (rule ccontr)
  assume "\<not> (\<exists>j\<ge>i. pc (f (Suc j)) \<noteq> pc (f j))"
  then have still: "pc (f (Suc j)) = pc (f j)" if "i \<le> j" for j using that by blast
  have same: "pc (f j) = pc (f i) \<and> cap (f j) = cap (f i)" if "i \<le> j" for j
    using that
  proof (induction rule: dec_induct)
    case (step k)
    then show ?case using client [OF run still, of k] still [of k] by simp
  qed simp
  have shrinks: "length (q (f k)) \<le> length (q (f j))" if "j \<le> k" "i \<le> j" for j k
    using that(1)
  proof (induction rule: dec_induct)
    case (step m)
    then show ?case using client [OF run still, of m] that(2) by simp
  qed simp
  have blocked: "\<not> (\<forall>k\<ge>j. q (f k) = [] \<or> length (q (f k)) < cap (f i))" if ij: "i \<le> j" for j
  proof
    assume room: "\<forall>k\<ge>j. q (f k) = [] \<or> length (q (f k)) < cap (f i)"
    have "\<exists>t. moves (f k) t" if k: "j \<le> k" for k
    proof (rule can_move [OF run_inv [OF init run]])
      have "i \<le> k" using ij k by simp
      from same [OF this] show "\<not> rests (pc (f k))" and "q (f k) = [] \<or> length (q (f k)) < cap (f k)"
        using busy room k by simp_all
    qed
    from weakly_fairD [OF wf(1) this] obtain k where "j \<le> k" "moves (f k) (f (Suc k))" by blast
    then show False using moves_pc [of "f k" "f (Suc k)"] still [of k] ij by simp
  qed
  obtain k where k: "i \<le> k" "q (f k) \<noteq> []" using blocked [of i] by blast
  obtain j where j: "k \<le> j" "reads (f j) (f (Suc j))" using read_again [OF run wf(2) k(2)] by blast
  have ij: "i \<le> j" using k(1) j(1) by simp
  have "length (q (f (Suc j))) < cap (f i)"
    using reads [OF j(2)] within [OF run_inv [OF init run], of j] same [OF ij] by simp
  then have "length (q (f m)) < cap (f i)" if "Suc j \<le> m" for m
    using shrinks [OF that] ij by simp
  then show False using blocked [of "Suc j"] ij by simp
qed

end

end
