(* ===== verification/MonitorLive.thy ===== *)
theory MonitorLive
  imports PidMon FileMon FairRun
begin

text \<open>
  Liveness of the two monitors on infinite runs. The hypotheses on the scheduler are weak fairness of the thread's steps and of
  the receives of the clients, and for the end of the file monitor strong fairness of the stop branch of its \<open>select\<close>: Go takes
  one of the ready cases at random. A step of the thread is one that changes where the thread is; the steps of clients do not.
\<close>

section \<open>Processes\<close>

definition pm_moves :: "'e pidmon \<Rightarrow> 'e pidmon \<Rightarrow> bool" where
  "pm_moves s t \<longleftrightarrow> pm_step s t \<and> pmPc t \<noteq> pmPc s"

definition pm_reads :: "'e pidmon \<Rightarrow> 'e pidmon \<Rightarrow> bool" where
  "pm_reads s t \<longleftrightarrow> (\<exists>b. WaitEvent s = Some (b, t))"

lemma pm_step_channel:
  "pm_step s t \<Longrightarrow> prefix (received s @ eventCh s) (received t @ eventCh t) \<and> prefix (received s) (received t)"
  by (cases rule: pm_step.cases) auto

text \<open>The thread can move everywhere but at a full channel: the table is finite, so the scan can be made.\<close>

lemma pm_can_move:
  fixes s :: "'e pidmon"
  assumes "pmPc s \<noteq> PmDone" and "eventCh s = [] \<or> length (eventCh s) < eventChCap"
  shows "\<exists>t. pm_moves s t"
proof -
  have room: "length (eventCh s) < eventChCap" using assms(2) by (auto simp: eventChCap_def)
  show ?thesis
  proof (cases "pmPc s")
    case PmTop
    then show ?thesis
      using pm_take_stop [OF PmTop] pm_default [OF PmTop] by (cases "closing s") (fastforce simp: pm_moves_def)+
  next
    case PmScan
    obtain ps where ps: "distinct ps" "set ps = dom (evTable s)" using finite_distinct_list [of "dom (evTable s)"] by auto
    obtain evs rms where sc: "pm_scan (\<lambda>_. StatOk :: 'e stat_result) (evTable s) ps [] [] = (evs, rms)" by fastforce
    from pm_do_scan [OF PmScan ps sc] PmScan show ?thesis
      by (intro exI [of _ "s\<lparr>pmPc := (if length evs > 0 then PmSend evs rms else PmRemove rms)\<rparr>"]) (simp add: pm_moves_def)
  next
    case (PmSend evs rms)
    with pm_send [OF PmSend room] show ?thesis by (fastforce simp: pm_moves_def)
  next
    case (PmRemove rms)
    with pm_do_rm [OF PmRemove] show ?thesis by (fastforce simp: pm_moves_def)
  next
    case PmSleep
    with pm_wake [OF PmSleep] show ?thesis by (fastforce simp: pm_moves_def)
  next
    case PmStop
    with pm_last [OF PmStop room] show ?thesis by (fastforce simp: pm_moves_def)
  qed (use assms(1) in simp)
qed

interpretation pm_live: channel_thread
  pm_step pm_reach pmPc "\<lambda>p. p = PmDone" pm_moves pm_reads eventCh received "\<lambda>_. eventChCap"
proof
  fix s t :: "'e pidmon"
  show "pm_step s t \<Longrightarrow> \<not> pm_reads s t \<Longrightarrow> eventCh s \<noteq> [] \<Longrightarrow> eventCh t \<noteq> []"
    by (cases rule: pm_step.cases) (auto simp: pm_reads_def)
  show "pm_step s t \<Longrightarrow> pmPc t = pmPc s \<Longrightarrow> length (eventCh t) \<le> length (eventCh s) \<and> eventChCap = eventChCap"
    by (cases rule: pm_step.cases) auto
  show "eventCh s \<noteq> [] \<Longrightarrow> \<exists>t. pm_reads s t" by (cases "eventCh s") (auto simp: pm_reads_def)
  show "pm_reach s \<Longrightarrow> length (eventCh s) \<le> eventChCap" using pm_reach_inv by (auto simp: pm_batches_def)
  show "pmPc s \<noteq> PmDone \<Longrightarrow> eventCh s = [] \<or> length (eventCh s) < eventChCap \<Longrightarrow> \<exists>t. pm_moves s t" by (rule pm_can_move)
qed (auto simp: pm_reads_def pm_moves_def intro: pm_more dest: pm_step_channel)

definition pm_delivered :: "'e pidmon \<Rightarrow> Pid \<Rightarrow> nat" where
  "pm_delivered s p = count_list (map Pid (concat (received s @ eventCh s))) p"

text \<open>A scan that does not find \<open>p\<close>.\<close>

definition pm_misses :: "Pid \<Rightarrow> 'e pidmon \<Rightarrow> 'e pidmon \<Rightarrow> bool" where
  "pm_misses p s t \<longleftrightarrow> (\<exists>stat ps evs rms. distinct ps \<and> set ps = dom (evTable s) \<and>
     pm_scan stat (evTable s) ps [] [] = (evs, rms) \<and> pid_stat stat p \<noteq> StatOk \<and>
     t = s\<lparr>pmPc := (if length evs > 0 then PmSend evs rms else PmRemove rms)\<rparr>)"

text \<open>Waiting for the scan, or sending the batch with \<open>p\<close>.\<close>

definition pm_waiting :: "Pid \<Rightarrow> nat \<Rightarrow> 'e pidmon \<Rightarrow> bool" where
  "pm_waiting p c s \<longleftrightarrow> c \<le> pm_delivered s p \<and> pm_valid s \<and>
     (p \<in> pm_watched (evTable s) \<and> p \<notin> set (map Pid (pm_pending s)) \<and> pmPc s \<noteq> PmStop \<and> pmPc s \<noteq> PmDone \<or>
      p \<in> set (map Pid (pm_sending s)))"

definition pm_rank :: "Pid \<Rightarrow> 'e pidmon \<Rightarrow> nat" where
  "pm_rank p s = (case pmPc s of
     PmSend evs rms \<Rightarrow> if p \<in> set (map Pid evs) then 0 else 5
   | PmRemove rms \<Rightarrow> 4 | PmSleep \<Rightarrow> 3 | PmTop \<Rightarrow> 2 | PmScan \<Rightarrow> 1 | _ \<Rightarrow> 0)"

text \<open>A step of a client, a scan, and any step of the thread, for a process that is waited for.\<close>

lemma pm_waiting_client:
  assumes "pm_step s t" and "pm_waiting p c s" and pc: "pmPc t = pmPc s"
    and "p \<in> pm_watched (evTable s) \<Longrightarrow> p \<in> pm_watched (evTable t)"
  shows "pm_waiting p c t \<and> pm_rank p t = pm_rank p s"
proof -
  have "pm_delivered t p = pm_delivered s p"
    using assms(1) pc by (cases rule: pm_step.cases) (auto simp: pm_delivered_def split: if_splits)
  moreover have "pm_valid t" using pm_valid_step [OF assms(1)] assms(2) by (simp add: pm_waiting_def)
  ultimately show ?thesis using assms(2,4) pc by (auto simp: pm_waiting_def pm_views pm_rank_def)
qed

lemma pm_waiting_scan:
  assumes "pm_misses p s t" and "pm_waiting p c s" and pc: "pmPc s = PmScan" and "pm_valid t"
  shows "pm_waiting p c t \<and> pm_rank p t < pm_rank p s"
proof -
  obtain stat ps evs rms where m: "distinct ps" "set ps = dom (evTable s)"
    "pm_scan stat (evTable s) ps [] [] = (evs, rms)" "pid_stat stat p \<noteq> StatOk"
    "t = s\<lparr>pmPc := (if length evs > 0 then PmSend evs rms else PmRemove rms)\<rparr>"
    using assms(1) unfolding pm_misses_def by blast
  have "p \<in> pm_watched (evTable s)" using assms(2) pc by (simp add: pm_waiting_def pm_views)
  moreover have "map Pid evs = filter (pm_gone stat (evTable s)) ps" using m(3) by (auto simp: pm_scan_eq comp_def)
  ultimately have p: "p \<in> set (map Pid evs)" using m(2,4) watched_dom [of "evTable s"] by (auto simp: pm_gone_def)
  then have "length evs > 0" by (cases evs) auto
  then have "pmPc t = PmSend evs rms" using m(5) by simp
  moreover have "pm_delivered t p = pm_delivered s p" using m(5) by (simp add: pm_delivered_def)
  ultimately show ?thesis using p assms(2,4) pc by (simp add: pm_waiting_def pm_views pm_rank_def)
qed

lemma pm_waiting_thread:
  assumes "pm_step s t" and "pm_waiting p c s" and "\<not> c < pm_delivered t p" and "closing s = 0" and pc: "pmPc t \<noteq> pmPc s"
    and scan: "pmPc s = PmScan \<Longrightarrow> pm_misses p s t"
  shows "pm_waiting p c t \<and> pm_rank p t < pm_rank p s"
proof -
  have v: "pm_valid t" using pm_valid_step [OF assms(1)] assms(2) by (simp add: pm_waiting_def)
  show ?thesis using assms(1)
  proof (cases rule: pm_step.cases)
    case (pm_do_scan ps stat evs rms)
    from pm_waiting_scan [OF scan [OF pm_do_scan(2)] assms(2) pm_do_scan(2) v] show ?thesis .
  next
    case (pm_send evs rms)
    have "pm_delivered t p = pm_delivered s p + count_list (map Pid evs) p"
      using pm_send by (simp add: pm_delivered_def)
    then have "count_list (map Pid evs) p = 0" using assms(2,3) by (simp add: pm_waiting_def)
    then have "p \<notin> set (map Pid evs)" by (simp only: count_list_0_iff not_False_eq_True)
    then show ?thesis using pm_send assms(2) v by (auto simp: pm_waiting_def pm_views pm_rank_def pm_delivered_def)
  next
    case (pm_do_rm rms)
    have r: "list_all (\<lambda>e. validateEvent (Event e)) rms" and w: "p \<in> pm_watched (evTable s)" "p \<notin> set (map Pid rms)"
      using assms(2) pm_do_rm(2) by (auto simp: pm_waiting_def pm_valid_def pm_views)
    have "pm_watched (pm_cleanup rms (evTable s)) = pm_watched (evTable s) - set (map Pid rms)"
      unfolding pm_cleanup_eq [OF r] by (rule pm.watched_fold_rm)
    with w have "p \<in> pm_watched (evTable t)" using pm_do_rm(1) by simp
    then show ?thesis using pm_do_rm assms(2) v by (simp add: pm_waiting_def pm_views pm_rank_def pm_delivered_def)
  qed (use assms(2,4) pc v in \<open>auto simp: pm_waiting_def pm_views pm_rank_def pm_delivered_def\<close>)
qed

lemma pm_waiting_step:
  assumes "pm_step s t" and "pm_waiting p c s" and "\<not> c < pm_delivered t p" and "closing s = 0"
    and "pmPc t = pmPc s \<Longrightarrow> p \<in> pm_watched (evTable s) \<Longrightarrow> p \<in> pm_watched (evTable t)"
    and "pmPc s = PmScan \<Longrightarrow> pmPc t \<noteq> PmScan \<Longrightarrow> pm_misses p s t"
  shows "pm_waiting p c t \<and> pm_rank p t \<le> pm_rank p s \<and> (pmPc t \<noteq> pmPc s \<longrightarrow> pm_rank p t < pm_rank p s)"
proof (cases "pmPc t = pmPc s")
  case True
  from pm_waiting_client [OF assms(1,2) True assms(5) [OF True]] True show ?thesis by simp
next
  case False
  with assms(6) have "pmPc s = PmScan \<Longrightarrow> pm_misses p s t" by simp
  from pm_waiting_thread [OF assms(1-4) False this] show ?thesis by simp
qed

lemma pm_exit_delivered:
  fixes f :: "nat \<Rightarrow> 'e pidmon"
  assumes "pm_reach (f 0)" and "\<And>i. pm_step (f i) (f (Suc i))"
    and "p \<in> pm_watched (evTable (f 0))" and "p \<notin> set (map Pid (pm_pending (f 0)))"
    and "pmPc (f 0) \<noteq> PmStop" and "pmPc (f 0) \<noteq> PmDone" and "\<And>i. closing (f i) = 0"
    and "\<And>i. pmPc (f (Suc i)) = pmPc (f i) \<Longrightarrow> p \<in> pm_watched (evTable (f i)) \<Longrightarrow> p \<in> pm_watched (evTable (f (Suc i)))"
    and "\<And>i. pmPc (f i) = PmScan \<Longrightarrow> pmPc (f (Suc i)) \<noteq> PmScan \<Longrightarrow> pm_misses p (f i) (f (Suc i))"
    and "weakly_fair pm_moves f" and "weakly_fair pm_reads f"
  shows "\<exists>j. pm_delivered (f j) p > pm_delivered (f 0) p"
proof -
  have "pm_valid (f 0)" using pm_reach_inv [OF assms(1)] by simp
  then have start: "pm_waiting p (pm_delivered (f 0) p) (f 0)" using assms(3-6) by (simp add: pm_waiting_def)
  have step: "pm_waiting p c (f (Suc i)) \<and> pm_rank p (f (Suc i)) \<le> pm_rank p (f i) \<and>
      (pmPc (f (Suc i)) \<noteq> pmPc (f i) \<longrightarrow> pm_rank p (f (Suc i)) < pm_rank p (f i))"
    if "pm_waiting p c (f i)" "\<not> c < pm_delivered (f (Suc i)) p" for c i
    by (rule pm_waiting_step [OF assms(2) that assms(7) assms(8,9)])
  have again: "\<exists>j\<ge>i. pmPc (f (Suc j)) \<noteq> pmPc (f j)" if "pm_waiting p c (f i)" for c i
  proof (rule pm_live.moves_again [OF assms(1,2,10,11)])
    show "pmPc (f i) \<noteq> PmDone" using that by (auto simp: pm_waiting_def pm_views)
  qed
  have "\<exists>j\<ge>0. pm_delivered (f j) p > pm_delivered (f 0) p"
    by (rule rank_reaches [where f = f and I = "pm_waiting p (pm_delivered (f 0) p)" and G = "\<lambda>s. pm_delivered s p > pm_delivered (f 0) p"
        and r = "pm_rank p" and moves = "\<lambda>s t. pmPc t \<noteq> pmPc s"])
      (use start step again in blast)+
  then show ?thesis by blast
qed

text \<open>
  C4. A process that exits is reported to who waits. In every run in which the monitor is not closed, the steps of the thread and the
  calls of \<open>WaitEvent\<close> are weakly fair, the client does not remove \<open>p\<close>, and no scan finds \<open>p\<close> any more, for a
  watched \<open>p\<close> whose removal is not pending a call of \<open>WaitEvent\<close> returns \<open>p\<close> after finitely many steps.
\<close>

theorem pm_exit_received:
  fixes f :: "nat \<Rightarrow> 'e pidmon"
  assumes "pm_reach (f 0)" and "\<And>i. pm_step (f i) (f (Suc i))"
    and "p \<in> pm_watched (evTable (f 0))" and "p \<notin> set (map Pid (pm_pending (f 0)))"
    and "pmPc (f 0) \<noteq> PmStop" and "pmPc (f 0) \<noteq> PmDone" and "\<And>i. closing (f i) = 0"
    and "\<And>i. pmPc (f (Suc i)) = pmPc (f i) \<Longrightarrow> p \<in> pm_watched (evTable (f i)) \<Longrightarrow> p \<in> pm_watched (evTable (f (Suc i)))"
    and "\<And>i. pmPc (f i) = PmScan \<Longrightarrow> pmPc (f (Suc i)) \<noteq> PmScan \<Longrightarrow> pm_misses p (f i) (f (Suc i))"
    and "weakly_fair pm_moves f" and "weakly_fair pm_reads f"
  shows "\<exists>j. count_list (map Pid (concat (received (f j)))) p > count_list (map Pid (concat (received (f 0)))) p"
proof -
  obtain j where j: "pm_delivered (f j) p > pm_delivered (f 0) p"
    using pm_exit_delivered [OF assms] by blast
  obtain k where "prefix (received (f j) @ eventCh (f j)) (received (f k))"
    using pm_live.drains [OF assms(2,11)] by blast
  from count_prefix [OF this, of Pid p] j show ?thesis
    by (intro exI [of _ k]) (simp add: pm_delivered_def)
qed

text \<open>Closing: the thread takes the stop instead of another round, and what is left of its round is finite.\<close>

definition pm_close_rank :: "'e pidmon \<Rightarrow> nat" where
  "pm_close_rank s = (case pmPc s of
     PmScan \<Rightarrow> 6 | PmSend evs rms \<Rightarrow> 5 | PmRemove rms \<Rightarrow> 4 | PmSleep \<Rightarrow> 3 | PmTop \<Rightarrow> 2 | PmStop \<Rightarrow> 1 | PmDone \<Rightarrow> 0)"

definition pm_ends :: "'e pidmon \<Rightarrow> bool" where
  "pm_ends s \<longleftrightarrow> closing s > 0 \<or> pmPc s = PmStop \<or> pmPc s = PmDone"

lemma pm_ends_step:
  "pm_step s t \<Longrightarrow> pm_ends s \<Longrightarrow>
   pm_ends t \<and> pm_close_rank t \<le> pm_close_rank s \<and> (pmPc t \<noteq> pmPc s \<longrightarrow> pm_close_rank t < pm_close_rank s)"
  by (cases rule: pm_step.cases) (auto simp: pm_ends_def pm_close_rank_def)

lemma pm_done_run:
  assumes "\<And>i. pm_step (f i) (f (Suc i))" and "pmPc (f j) = PmDone" and "j \<le> k"
  shows "pmPc (f k) = PmDone \<and> received (f k) @ eventCh (f k) = received (f j) @ eventCh (f j)"
  using assms(3)
proof (induction rule: dec_induct)
  case (step n)
  then show ?case using pm_done_step [OF assms(1) [of n]] by simp
qed (use assms(2) in simp)

text \<open>
  C22. A \<open>Close\<close> is answered and seen. In every run in which a client has called \<open>Close\<close>, and the steps of the thread and the calls
  of \<open>WaitEvent\<close> are weakly fair, the thread ends and \<open>WaitEvent\<close> returns the empty list, once, after every list of events there was.
\<close>

theorem pm_close_received:
  fixes f :: "nat \<Rightarrow> 'e pidmon"
  assumes "pm_reach (f 0)" and "\<And>i. pm_step (f i) (f (Suc i))" and "closing (f 0) > 0"
    and "weakly_fair pm_moves f" and "weakly_fair pm_reads f"
  shows "\<exists>j bs. pmPc (f j) = PmDone \<and> received (f j) = bs @ [[]] \<and> list_all (\<lambda>b. b \<noteq> []) bs"
proof -
  have "pm_ends (f 0)" using assms(3) by (simp add: pm_ends_def)
  then obtain j where j: "pmPc (f j) = PmDone"
    using rank_reaches [where f = f and n = 0 and I = pm_ends and G = "\<lambda>s. pmPc s = PmDone" and r = pm_close_rank and
        moves = "\<lambda>s t. pmPc t \<noteq> pmPc s"] pm_ends_step [OF assms(2)] pm_live.moves_again [OF assms(1,2,4,5)] by blast
  obtain k where k: "j \<le> k" "prefix (received (f j) @ eventCh (f j)) (received (f k))"
    using pm_live.drains [OF assms(2,5)] by blast
  have "pm_batches (f k)" using pm_live.run_inv [OF assms(1,2)] pm_reach_inv by blast
  moreover have d: "pmPc (f k) = PmDone" "received (f k) @ eventCh (f k) = received (f j) @ eventCh (f j)"
    using pm_done_run [where f = f, OF assms(2) j k(1)] by simp_all
  moreover have "eventCh (f k) = []" using k(2) unfolding d(2) [symmetric] by (auto simp: prefix_def)
  ultimately show ?thesis unfolding pm_batches_def by auto
qed

section \<open>Files\<close>

definition fm_moves :: "'e filemon \<Rightarrow> 'e filemon \<Rightarrow> bool" where
  "fm_moves s t \<longleftrightarrow> fm_step s t \<and> fmPc t \<noteq> fmPc s \<and> fmPc s \<noteq> FmIdle"

definition fm_reads :: "'e filemon \<Rightarrow> 'e filemon \<Rightarrow> bool" where
  "fm_reads s t \<longleftrightarrow> (\<exists>b q. fm_Events s = b # q \<and> t = s\<lparr>fmQueue := q, fmReceived := fmReceived s @ [b]\<rparr>)"

lemma fm_step_channel:
  "fm_step s t \<Longrightarrow> prefix (fmReceived s @ fmQueue s) (fmReceived t @ fmQueue t) \<and> prefix (fmReceived s) (fmReceived t)"
  by (cases rule: fm_step.cases) (auto simp: fm_Add_def fm_Remove_def fm_Close_def Let_def split: if_splits)

lemma fm_reach_finite: "fm_reach s \<Longrightarrow> finite (dom (fileTable s))"
proof (induction rule: fm_reach.induct)
  case (fm_init cfg s)
  then show ?case by (auto simp: fm_New_def split: if_splits)
next
  case (fm_more s t)
  have "dom (fm_cleanup rms (fileTable s)) = dom (fileTable s) - set rms" for rms
    unfolding fm_cleanup_eq by (rule fm.watched_fold_rm)
  with fm_more(3) have "finite (dom (fm_cleanup rms (fileTable s)))" for rms by simp
  from fm_more(2,3) this show ?case
    by (cases rule: fm_step.cases) (auto simp: fm_Add_def fm_Remove_def fm_Close_def Let_def simp del: fun_upd_apply split: if_splits)
qed

lemma fm_can_move:
  fixes s :: "'e filemon"
  assumes "fm_reach s" and "fmPc s \<noteq> FmIdle" and "fmQueue s = [] \<or> length (fmQueue s) < fmCap s"
  shows "\<exists>t. fm_moves s t"
proof (cases "fmPc s")
  case FmSelect
  with fm_select_tick [OF FmSelect] show ?thesis by (fastforce simp: fm_moves_def)
next
  case FmScan
  obtain fs where fs: "distinct fs" "set fs = dom (fileTable s)"
    using finite_distinct_list [OF fm_reach_finite [OF assms(1)]] by auto
  obtain evs rms where sc: "fm_scan (\<lambda>_. StatOk :: 'e stat_result) fs [] [] = (evs, rms)" by fastforce
  from fm_do_scan [OF FmScan fs sc] FmScan show ?thesis
    by (intro exI [of _ "s\<lparr>fmPc := (if length evs > 0 then FmSend evs rms else FmRemove rms)\<rparr>"]) (simp add: fm_moves_def)
next
  case (FmSend evs rms)
  with assms(3) fm_send [OF FmSend] fm_hand_over [OF FmSend] show ?thesis by (fastforce simp: fm_moves_def)
next
  case (FmRemove rms)
  with fm_do_rm [OF FmRemove] show ?thesis by (fastforce simp: fm_moves_def)
next
  case FmCheck
  with fm_check [OF FmCheck] show ?thesis
    by (intro exI [of _ "s\<lparr>fmPc := (if dom (fileTable s) = {} then FmExit else FmSelect)\<rparr>"]) (simp add: fm_moves_def)
next
  case FmStop
  with assms(3) fm_last [OF FmStop] fm_last_hand_over [OF FmStop] show ?thesis by (fastforce simp: fm_moves_def)
next
  case FmExit
  with fm_deferred [OF FmExit] show ?thesis by (fastforce simp: fm_moves_def)
qed (use assms(2) in simp)

interpretation fm_live: channel_thread
  fm_step fm_reach fmPc "\<lambda>p. p = FmIdle" fm_moves fm_reads fmQueue fmReceived fmCap
proof
  fix s t :: "'e filemon"
  show "fm_step s t \<Longrightarrow> \<not> fm_reads s t \<Longrightarrow> fmQueue s \<noteq> [] \<Longrightarrow> fmQueue t \<noteq> []"
    by (cases rule: fm_step.cases) (auto simp: fm_reads_def fm_Add_def fm_Remove_def fm_Close_def Let_def split: if_splits)
  show "fm_step s t \<Longrightarrow> fmPc t = fmPc s \<Longrightarrow> length (fmQueue t) \<le> length (fmQueue s) \<and> fmCap t = fmCap s"
    by (cases rule: fm_step.cases) (auto simp: fm_Add_def fm_Remove_def fm_Close_def Let_def split: if_splits)
  show "fmQueue s \<noteq> [] \<Longrightarrow> \<exists>t. fm_reads s t" by (cases "fmQueue s") (auto simp: fm_reads_def)
  show "fm_reach s \<Longrightarrow> length (fmQueue s) \<le> fmCap s" using fm_reach_inv by (auto simp: fm_thread_def)
  show "fm_reach s \<Longrightarrow> fmPc s \<noteq> FmIdle \<Longrightarrow> fmQueue s = [] \<or> length (fmQueue s) < fmCap s \<Longrightarrow> \<exists>t. fm_moves s t" by (rule fm_can_move)
qed (auto simp: fm_reads_def fm_moves_def intro: fm_more dest: fm_step_channel)

definition fm_delivered :: "'e filemon \<Rightarrow> string \<Rightarrow> nat" where
  "fm_delivered s f = count_list (map Filename (concat (fmReceived s @ fmQueue s))) f"

definition fm_misses :: "string \<Rightarrow> 'e filemon \<Rightarrow> 'e filemon \<Rightarrow> bool" where
  "fm_misses f s t \<longleftrightarrow> (\<exists>stat fs evs rms. distinct fs \<and> set fs = dom (fileTable s) \<and>
     fm_scan stat fs [] [] = (evs, rms) \<and> stat f \<noteq> StatOk \<and>
     t = s\<lparr>fmPc := (if length evs > 0 then FmSend evs rms else FmRemove rms)\<rparr>)"

definition fm_waiting :: "string \<Rightarrow> nat \<Rightarrow> 'e filemon \<Rightarrow> bool" where
  "fm_waiting f c s \<longleftrightarrow> c \<le> fm_delivered s f \<and> fm_thread s \<and>
     (f \<in> dom (fileTable s) \<and> f \<notin> set (fm_pending s) \<and> fmPc s \<notin> {FmIdle, FmExit, FmStop} \<or>
      f \<in> set (map Filename (fm_sending s)))"

definition fm_rank :: "string \<Rightarrow> 'e filemon \<Rightarrow> nat" where
  "fm_rank f s = (case fmPc s of
     FmSend evs rms \<Rightarrow> if f \<in> set (map Filename evs) then 0 else 5
   | FmRemove rms \<Rightarrow> 4 | FmCheck \<Rightarrow> 3 | FmSelect \<Rightarrow> 2 | FmScan \<Rightarrow> 1 | _ \<Rightarrow> 0)"

lemma fm_sent:
  assumes "fm_waiting f c s" and "\<not> c < fm_delivered t f"
    and "fm_delivered t f = fm_delivered s f + count_list (map Filename evs) f"
  shows "f \<notin> set (map Filename evs)"
proof -
  have "count_list (map Filename evs) f = 0" using assms by (simp add: fm_waiting_def)
  then show ?thesis by (simp only: count_list_0_iff not_False_eq_True)
qed

lemma fm_waiting_client:
  assumes "fm_step s t" and "fm_waiting f c s" and pc: "fmPc t = fmPc s"
    and "f \<in> dom (fileTable s) \<Longrightarrow> f \<in> dom (fileTable t)"
  shows "fm_waiting f c t \<and> fm_rank f t = fm_rank f s"
proof -
  have "fm_delivered t f = fm_delivered s f"
    using assms(1) pc
    by (cases rule: fm_step.cases) (auto simp: fm_delivered_def fm_Add_def fm_Remove_def fm_Close_def Let_def split: if_splits)
  moreover have "fm_thread t" using fm_thread_step [OF assms(1)] assms(2) by (simp add: fm_waiting_def)
  ultimately show ?thesis using assms(2,4) pc by (simp add: fm_waiting_def fm_views fm_rank_def) blast
qed

lemma fm_waiting_scan:
  assumes "fm_misses f s t" and "fm_waiting f c s" and pc: "fmPc s = FmScan" and "fm_thread t"
  shows "fm_waiting f c t \<and> fm_rank f t < fm_rank f s"
proof -
  obtain stat fs evs rms where m: "distinct fs" "set fs = dom (fileTable s)"
    "fm_scan stat fs [] [] = (evs, rms)" "stat f \<noteq> StatOk"
    "t = s\<lparr>fmPc := (if length evs > 0 then FmSend evs rms else FmRemove rms)\<rparr>"
    using assms(1) unfolding fm_misses_def by blast
  have "f \<in> dom (fileTable s)" using assms(2) pc by (simp add: fm_waiting_def fm_views)
  moreover have "map Filename evs = filter (\<lambda>f. stat f \<noteq> StatOk) fs" using m(3) by (auto simp: fm_scan_eq comp_def)
  ultimately have p: "f \<in> set (map Filename evs)" using m(2,4) by auto
  then have "length evs > 0" by (cases evs) auto
  then have "fmPc t = FmSend evs rms" using m(5) by simp
  moreover have "fm_delivered t f = fm_delivered s f" using m(5) by (simp add: fm_delivered_def)
  ultimately show ?thesis using p assms(2,4) pc by (simp add: fm_waiting_def fm_views fm_rank_def)
qed

lemma fm_waiting_thread:
  assumes "fm_step s t" and "fm_waiting f c s" and "\<not> c < fm_delivered t f" and "\<not> fmStopped s" and pc: "fmPc t \<noteq> fmPc s"
    and scan: "fmPc s = FmScan \<Longrightarrow> fm_misses f s t"
  shows "fm_waiting f c t \<and> fm_rank f t < fm_rank f s"
proof -
  have th: "fm_thread t" using fm_thread_step [OF assms(1)] assms(2) by (simp add: fm_waiting_def)
  have run: "fmRunning s" using assms(2) by (auto simp: fm_waiting_def fm_thread_def fm_views)
  show ?thesis using assms(1)
  proof (cases rule: fm_step.cases)
    case (fm_do_scan fs stat evs rms)
    from fm_waiting_scan [OF scan [OF fm_do_scan(2)] assms(2) fm_do_scan(2) th] show ?thesis .
  next
    case (fm_send evs rms)
    have "f \<notin> set (map Filename evs)"
      by (rule fm_sent [OF assms(2,3)]) (use fm_send in \<open>simp add: fm_delivered_def\<close>)
    then show ?thesis using fm_send assms(2) th by (auto simp: fm_waiting_def fm_views fm_rank_def fm_delivered_def)
  next
    case (fm_hand_over evs rms)
    have "f \<notin> set (map Filename evs)"
      by (rule fm_sent [OF assms(2,3)]) (use fm_hand_over in \<open>simp add: fm_delivered_def\<close>)
    then show ?thesis using fm_hand_over assms(2) th by (auto simp: fm_waiting_def fm_views fm_rank_def fm_delivered_def)
  next
    case (fm_do_rm rms)
    have "dom (fm_cleanup rms (fileTable s)) = dom (fileTable s) - set rms"
      unfolding fm_cleanup_eq by (rule fm.watched_fold_rm)
    then have "f \<in> dom (fileTable t)" using assms(2) fm_do_rm(1,2) by (simp add: fm_waiting_def fm_views)
    then show ?thesis using fm_do_rm assms(2) th by (simp add: fm_waiting_def fm_views fm_rank_def fm_delivered_def)
  next
    case fm_check
    have "dom (fileTable s) \<noteq> {}" using assms(2) fm_check(2) by (auto simp: fm_waiting_def fm_views)
    then show ?thesis using fm_check assms(2) th by (simp add: fm_waiting_def fm_views fm_rank_def fm_delivered_def)
  qed (use assms(2,4) pc run th in \<open>auto simp: fm_waiting_def fm_views fm_rank_def fm_delivered_def
      fm_Add_def fm_Remove_def fm_Close_def Let_def split: if_splits\<close>)
qed

lemma fm_waiting_step:
  assumes "fm_step s t" and "fm_waiting f c s" and "\<not> c < fm_delivered t f" and "\<not> fmStopped s"
    and "fmPc t = fmPc s \<Longrightarrow> f \<in> dom (fileTable s) \<Longrightarrow> f \<in> dom (fileTable t)"
    and "fmPc s = FmScan \<Longrightarrow> fmPc t \<noteq> FmScan \<Longrightarrow> fm_misses f s t"
  shows "fm_waiting f c t \<and> fm_rank f t \<le> fm_rank f s \<and> (fmPc t \<noteq> fmPc s \<longrightarrow> fm_rank f t < fm_rank f s)"
proof (cases "fmPc t = fmPc s")
  case True
  from fm_waiting_client [OF assms(1,2) True assms(5) [OF True]] True show ?thesis by simp
next
  case False
  with assms(6) have "fmPc s = FmScan \<Longrightarrow> fm_misses f s t" by simp
  from fm_waiting_thread [OF assms(1-4) False this] show ?thesis by simp
qed

lemma fm_loss_delivered:
  fixes f :: "nat \<Rightarrow> 'e filemon"
  assumes "fm_reach (f 0)" and "\<And>i. fm_step (f i) (f (Suc i))"
    and "g \<in> dom (fileTable (f 0))" and "g \<notin> set (fm_pending (f 0))"
    and "fmPc (f 0) \<notin> {FmIdle, FmExit, FmStop}" and "\<And>i. \<not> fmStopped (f i)"
    and "\<And>i. fmPc (f (Suc i)) = fmPc (f i) \<Longrightarrow> g \<in> dom (fileTable (f i)) \<Longrightarrow> g \<in> dom (fileTable (f (Suc i)))"
    and "\<And>i. fmPc (f i) = FmScan \<Longrightarrow> fmPc (f (Suc i)) \<noteq> FmScan \<Longrightarrow> fm_misses g (f i) (f (Suc i))"
    and "weakly_fair fm_moves f" and "weakly_fair fm_reads f"
  shows "\<exists>j. fm_delivered (f j) g > fm_delivered (f 0) g"
proof -
  have "fm_thread (f 0)" using fm_reach_inv [OF assms(1)] by simp
  then have start: "fm_waiting g (fm_delivered (f 0) g) (f 0)" using assms(3-5) by (simp add: fm_waiting_def)
  have step: "fm_waiting g c (f (Suc i)) \<and> fm_rank g (f (Suc i)) \<le> fm_rank g (f i) \<and>
      (fmPc (f (Suc i)) \<noteq> fmPc (f i) \<longrightarrow> fm_rank g (f (Suc i)) < fm_rank g (f i))"
    if "fm_waiting g c (f i)" "\<not> c < fm_delivered (f (Suc i)) g" for c i
    by (rule fm_waiting_step [OF assms(2) that assms(6) assms(7,8)])
  have again: "\<exists>j\<ge>i. fmPc (f (Suc j)) \<noteq> fmPc (f j)" if "fm_waiting g c (f i)" for c i
  proof (rule fm_live.moves_again [OF assms(1,2,9,10)])
    show "fmPc (f i) \<noteq> FmIdle" using that by (auto simp: fm_waiting_def fm_views)
  qed
  have "\<exists>j\<ge>0. fm_delivered (f j) g > fm_delivered (f 0) g"
    by (rule rank_reaches [where f = f and I = "fm_waiting g (fm_delivered (f 0) g)" and G = "\<lambda>s. fm_delivered s g > fm_delivered (f 0) g"
        and r = "fm_rank g" and moves = "\<lambda>s t. fmPc t \<noteq> fmPc s"])
      (use start step again in blast)+
  then show ?thesis by blast
qed

text \<open>
  C20. The same for files. In every run in which the monitor is not closed, the steps of the thread and the receives from the channel
  are weakly fair, the client does not remove \<open>g\<close>, and no scan finds \<open>g\<close> any more, a file \<open>g\<close> in the
  table, whose removal is not pending and whose thread is not about to end, is received after finitely many steps.
\<close>

theorem fm_loss_received:
  fixes f :: "nat \<Rightarrow> 'e filemon"
  assumes "fm_reach (f 0)" and "\<And>i. fm_step (f i) (f (Suc i))"
    and "g \<in> dom (fileTable (f 0))" and "g \<notin> set (fm_pending (f 0))"
    and "fmPc (f 0) \<notin> {FmIdle, FmExit, FmStop}" and "\<And>i. \<not> fmStopped (f i)"
    and "\<And>i. fmPc (f (Suc i)) = fmPc (f i) \<Longrightarrow> g \<in> dom (fileTable (f i)) \<Longrightarrow> g \<in> dom (fileTable (f (Suc i)))"
    and "\<And>i. fmPc (f i) = FmScan \<Longrightarrow> fmPc (f (Suc i)) \<noteq> FmScan \<Longrightarrow> fm_misses g (f i) (f (Suc i))"
    and "weakly_fair fm_moves f" and "weakly_fair fm_reads f"
  shows "\<exists>j. count_list (map Filename (concat (fmReceived (f j)))) g > count_list (map Filename (concat (fmReceived (f 0)))) g"
proof -
  obtain j where j: "fm_delivered (f j) g > fm_delivered (f 0) g"
    using fm_loss_delivered [OF assms] by blast
  obtain k where "prefix (fmReceived (f j) @ fmQueue (f j)) (fmReceived (f k))"
    using fm_live.drains [OF assms(2,10)] by blast
  from count_prefix [OF this, of Filename g] j show ?thesis
    by (intro exI [of _ k]) (simp add: fm_delivered_def)
qed

text \<open>
  Closing. At the \<open>select\<close> the thread can take the stop or another tick, which raises the rank again; strong fairness of the stop
  branch excludes that it takes the tick for ever.
\<close>

definition fm_stops :: "'e filemon \<Rightarrow> 'e filemon \<Rightarrow> bool" where
  "fm_stops s t \<longleftrightarrow> fm_step s t \<and> fmPc s = FmSelect \<and> fmPc t = FmStop"

definition fm_ending :: "'e filemon \<Rightarrow> bool" where
  "fm_ending s \<longleftrightarrow> fmPc s \<in> {FmStop, FmExit, FmIdle}"

definition fm_close_rank :: "'e filemon \<Rightarrow> nat" where
  "fm_close_rank s = (case fmPc s of FmScan \<Rightarrow> 4 | FmSend evs rms \<Rightarrow> 3 | FmRemove rms \<Rightarrow> 2 | FmCheck \<Rightarrow> 1
     | FmStop \<Rightarrow> 2 | FmExit \<Rightarrow> 1 | _ \<Rightarrow> 0)"

lemmas fm_close_defs = fm_ending_def fm_close_rank_def fm_Add_def fm_Remove_def fm_Close_def Let_def

lemma fm_stopped_step:
  assumes "fm_step s t" and "fmStopped s" shows "fmStopped t"
  using assms by (cases rule: fm_step.cases) (auto simp: fm_close_defs split: if_splits)

lemma fm_round_step:
  assumes "fm_step s t" and "fmRunning s" and "fmPc s \<noteq> FmSelect" and "\<not> fm_ending s"
  shows "fm_close_rank t \<le> fm_close_rank s \<and> (fmPc t \<noteq> fmPc s \<and> \<not> fm_ending t \<longrightarrow> fm_close_rank t < fm_close_rank s)"
  using assms by (cases rule: fm_step.cases) (auto simp: fm_close_defs split: if_splits)

lemma fm_ending_step:
  assumes "fm_step s t" and "fmRunning s" and "fm_ending s"
  shows "fm_ending t \<and> fm_close_rank t \<le> fm_close_rank s \<and> (fmPc t \<noteq> fmPc s \<longrightarrow> fm_close_rank t < fm_close_rank s)"
  using assms by (cases rule: fm_step.cases) (auto simp: fm_close_defs split: if_splits)

lemma fm_select_again:
  fixes f :: "nat \<Rightarrow> 'e filemon"
  assumes "fm_reach (f 0)" and "\<And>i. fm_step (f i) (f (Suc i))"
    and "weakly_fair fm_moves f" and "weakly_fair fm_reads f" and "\<not> fm_ending (f n)"
  shows "\<exists>j\<ge>n. fmPc (f j) = FmSelect \<or> fm_ending (f j)"
proof -
  have run: "fmPc (f i) \<noteq> FmIdle \<Longrightarrow> fmRunning (f i)" for i
    using fm_reach_inv [OF fm_live.run_inv [OF assms(1,2)]] by (auto simp: fm_thread_def)
  have step: "fm_close_rank (f (Suc i)) \<le> fm_close_rank (f i) \<and>
      (fmPc (f (Suc i)) \<noteq> fmPc (f i) \<and> \<not> fm_ending (f (Suc i)) \<longrightarrow> fm_close_rank (f (Suc i)) < fm_close_rank (f i))"
    if "\<not> fm_ending (f i)" "fmPc (f i) \<noteq> FmSelect" for i
    using fm_round_step [OF assms(2) run that(2,1)] that(1) by (simp add: fm_ending_def)
  have again: "\<exists>j\<ge>i. fmPc (f (Suc j)) \<noteq> fmPc (f j)" if "\<not> fm_ending (f i)" for i
    using fm_live.moves_again [OF assms(1-4)] that by (simp add: fm_ending_def)
  show ?thesis
    by (rule rank_reaches [where f = f and n = n and I = "\<lambda>s. \<not> fm_ending s" and
        G = "\<lambda>s. fmPc s = FmSelect \<or> fm_ending s" and r = fm_close_rank and moves = "\<lambda>s t. fmPc t \<noteq> fmPc s"])
      (use step again assms(5) in blast)+
qed

lemma fm_close_ends:
  fixes f :: "nat \<Rightarrow> 'e filemon"
  assumes "fm_reach (f 0)" and "\<And>i. fm_step (f i) (f (Suc i))" and "fmStopped (f 0)"
    and "weakly_fair fm_moves f" and "weakly_fair fm_reads f" and "strongly_fair fm_stops f"
  shows "\<exists>j. fmPc (f j) = FmIdle"
proof -
  have stopped: "fmStopped (f i)" for i by (induction i) (use assms(2,3) fm_stopped_step in blast)+
  have "\<exists>n. fm_ending (f n)"
  proof (rule ccontr)
    assume never: "\<nexists>n. fm_ending (f n)"
    have "\<exists>k\<ge>j. \<exists>t. fm_stops (f k) t" for j
    proof -
      obtain k where k: "j \<le> k" "fmPc (f k) = FmSelect" using fm_select_again [OF assms(1,2,4,5)] never by blast
      from fm_select_stop [OF k(2) stopped] k(2) have "fm_stops (f k) ((f k)\<lparr>fmPc := FmStop\<rparr>)" by (simp add: fm_stops_def)
      with k(1) show ?thesis by blast
    qed
    from strongly_fairD [OF assms(6) this, of 0] obtain j where "fm_stops (f j) (f (Suc j))" by blast
    then show False using never by (auto simp: fm_stops_def fm_ending_def)
  qed
  then obtain n where n: "fm_ending (f n)" by blast
  have run: "fmPc (f i) \<noteq> FmIdle \<Longrightarrow> fmRunning (f i)" for i
    using fm_reach_inv [OF fm_live.run_inv [OF assms(1,2)]] by (auto simp: fm_thread_def)
  have "\<exists>j\<ge>n. fmPc (f j) = FmIdle"
    by (rule rank_reaches [where f = f and n = n and I = fm_ending and G = "\<lambda>s. fmPc s = FmIdle" and
        r = fm_close_rank and moves = "\<lambda>s t. fmPc t \<noteq> fmPc s"])
      (use n fm_ending_step [OF assms(2) run] fm_live.moves_again [OF assms(1,2,4,5)] in blast)+
  then show ?thesis by blast
qed

text \<open>The thread goes to its end only after the empty batch or an empty table.\<close>

lemma fm_exit_step:
  assumes "fm_step s t" and "fmRunning s" and "fmPc s = FmCheck \<Longrightarrow> dom (fileTable s) \<noteq> {}"
    and "fmPc s \<in> {FmExit, FmIdle} \<Longrightarrow> [] \<in> set (fmReceived s @ fmQueue s)" and "fmPc t \<in> {FmExit, FmIdle}"
  shows "[] \<in> set (fmReceived t @ fmQueue t)"
  using assms by (cases rule: fm_step.cases) (auto simp: fm_close_defs split: if_splits)

text \<open>
  C23. A \<open>Close\<close> of the file monitor is answered. In every run in which a client has called \<open>Close\<close> while the thread was at work, the steps
  of the thread and the receives are weakly fair and the stop branch of the \<open>select\<close> is strongly fair, the thread ends, \<open>running\<close> is
  unset, and an empty batch is received unless the thread ended because it found its table empty, whatever the clients do meanwhile.
\<close>

theorem fm_close_received:
  fixes f :: "nat \<Rightarrow> 'e filemon"
  assumes "fm_reach (f 0)" and "\<And>i. fm_step (f i) (f (Suc i))" and "fmStopped (f 0)" and "fmPc (f 0) \<notin> {FmExit, FmIdle}"
    and "weakly_fair fm_moves f" and "weakly_fair fm_reads f" and "strongly_fair fm_stops f"
  shows "(\<exists>j. \<not> fmRunning (f j)) \<and>
    ((\<exists>j. [] \<in> set (fmReceived (f j))) \<or> (\<exists>j. fmPc (f j) = FmCheck \<and> dom (fileTable (f j)) = {}))"
proof -
  have th: "fmRunning (f i) \<longleftrightarrow> fmPc (f i) \<noteq> FmIdle" for i
    using fm_reach_inv [OF fm_live.run_inv [OF assms(1,2)]] by (simp add: fm_thread_def)
  have "\<exists>j. fmPc (f j) = FmIdle" by (rule fm_close_ends [OF assms(1-3,5-7)])
  then obtain n where n: "fmPc (f n) = FmIdle" and before: "\<And>i. i < n \<Longrightarrow> fmPc (f i) \<noteq> FmIdle"
    using exists_least_iff [of "\<lambda>j. fmPc (f j) = FmIdle"] by blast
  have "\<exists>j. [] \<in> set (fmReceived (f j))" if full: "\<And>j. fmPc (f j) = FmCheck \<Longrightarrow> dom (fileTable (f j)) \<noteq> {}"
  proof -
    have "fmPc (f i) \<in> {FmExit, FmIdle} \<longrightarrow> [] \<in> set (fmReceived (f i) @ fmQueue (f i))" if "i \<le> n" for i
      using that
    proof (induction i)
      case (Suc i)
      then have run: "fmRunning (f i)" using th before by simp
      show ?case
      proof
        assume e: "fmPc (f (Suc i)) \<in> {FmExit, FmIdle}"
        from Suc have "fmPc (f i) \<in> {FmExit, FmIdle} \<Longrightarrow> [] \<in> set (fmReceived (f i) @ fmQueue (f i))" by simp
        from fm_exit_step [OF assms(2) run full this e] show "[] \<in> set (fmReceived (f (Suc i)) @ fmQueue (f (Suc i)))" .
      qed
    qed (use assms(4) in simp)
    from this [of n] n have e: "[] \<in> set (fmReceived (f n) @ fmQueue (f n))" by simp
    obtain k where "prefix (fmReceived (f n) @ fmQueue (f n)) (fmReceived (f k))" using fm_live.drains [OF assms(2,6)] by blast
    with e show ?thesis using set_mono_prefix by blast
  qed
  moreover have "\<exists>j. \<not> fmRunning (f j)" using n th by blast
  ultimately show ?thesis by blast
qed

section \<open>Runs for the witnesses\<close>

text \<open>A run whose channel is empty from some time on is fair to its readers, one in which the thread moves again and again to the thread.\<close>

lemma pm_reads_fair:
  assumes "\<And>j. n \<le> j \<Longrightarrow> eventCh (f j) = []" shows "weakly_fair pm_reads f"
proof (rule weakly_fairI)
  fix i
  have "\<nexists>t. pm_reads (f (max i n)) t" using assms [of "max i n"] by (simp add: pm_reads_def)
  then show "\<exists>j\<ge>i. (\<nexists>t. pm_reads (f j) t) \<or> pm_reads (f j) (f (Suc j))" by (intro exI [of _ "max i n"]) simp
qed

lemma fm_reads_fair:
  assumes "\<And>j. n \<le> j \<Longrightarrow> fmQueue (f j) = []" shows "weakly_fair fm_reads f"
proof (rule weakly_fairI)
  fix i
  have "\<nexists>t. fm_reads (f (max i n)) t" using assms [of "max i n"] by (simp add: fm_reads_def)
  then show "\<exists>j\<ge>i. (\<nexists>t. fm_reads (f j) t) \<or> fm_reads (f j) (f (Suc j))" by (intro exI [of _ "max i n"]) simp
qed

lemma moves_fair:
  assumes "\<And>i. n \<le> i \<Longrightarrow> (\<nexists>t. A (f i) t) \<or> A (f i) (f (Suc i))" shows "weakly_fair A f"
proof (rule weakly_fairI)
  show "\<exists>j\<ge>i. (\<nexists>t. A (f j) t) \<or> A (f j) (f (Suc j))" for i
    using assms [of "max i n"] by (intro exI [of _ "max i n"]) simp
qed

text \<open>Process 7 is found gone in the first scan; after that the thread goes round an empty table for ever.\<close>

definition pm_start :: "unit pidmon" where
  "pm_start = \<lparr>evTable = [7 \<mapsto> pmExit], eventCh = [], pmPc = PmScan, closing = 0, received = [], added = (\<lambda>_. 0)(7 := 1)\<rparr>"

definition pm_round :: "nat \<Rightarrow> unit pm_pc" where
  "pm_round k = [PmSleep, PmTop, PmScan, PmRemove []] ! (k mod 4)"

definition pm_run :: "nat \<Rightarrow> unit pidmon" where
  "pm_run i = (if i = 0 then pm_start
     else if i = 1 then pm_start\<lparr>pmPc := PmSend [exit_event 7] [exit_event 7]\<rparr>
     else if i = 2 then pm_start\<lparr>eventCh := [[exit_event 7]], pmPc := PmRemove [exit_event 7]\<rparr>
     else if i = 3 then pm_start\<lparr>received := [[exit_event 7]], pmPc := PmRemove [exit_event 7]\<rparr>
     else pm_start\<lparr>received := [[exit_event 7]], evTable := (\<lambda>_. None), pmPc := pm_round (i - 4)\<rparr>)"

lemma four_cases:
  fixes k :: nat
  obtains "k mod 4 = 0" | "k mod 4 = 1" | "k mod 4 = 2" | "k mod 4 = 3"
proof -
  have "k mod 4 < 4" by simp
  then have "k mod 4 = 0 \<or> k mod 4 = 1 \<or> k mod 4 = 2 \<or> k mod 4 = 3" by arith
  then show ?thesis using that by (elim disjE)
qed

lemma pm_start_reach: "pm_reach pm_start"
proof -
  let ?s0 = "\<lparr>evTable = (\<lambda>_. None), eventCh = [], pmPc = PmTop, closing = 0, received = [], added = (\<lambda>_. 0)\<rparr> :: unit pidmon"
  let ?s1 = "?s0\<lparr>evTable := [7 \<mapsto> pmExit], added := (\<lambda>_. 0)(7 := 1)\<rparr>"
  have r: "pm_reach ?s0" by (rule pm_init [of 5]) (simp add: pm_New_def pm_validateCfg_def pmPollMin_def pmPollMax_def)
  have s1: "pm_step ?s0 ?s1"
    using pm_add [of "exit_event 7" ?s0] by (simp add: validateEvent_def eventTableAdd_def)
  have "pm_step ?s1 pm_start" using pm_default [of ?s1] by (simp add: pm_start_def)
  from pm_more [OF pm_more [OF r s1] this] show ?thesis .
qed

lemma pm_run_misses: "pmPc (pm_run i) = PmScan \<Longrightarrow> pm_misses 7 (pm_run i) (pm_run (Suc i))"
proof -
  assume pc: "pmPc (pm_run i) = PmScan"
  show ?thesis
  proof (cases "i = 0")
    case True
    have "pm_gone (\<lambda>_. StatNotExist :: unit stat_result) [7 \<mapsto> pmExit] 7"
      by (simp add: pm_gone_def pm_watched_def eventIsSet_def pid_stat_def)
    then show ?thesis using True unfolding pm_misses_def
      by (intro exI [of _ "\<lambda>_. StatNotExist"] exI [of _ "[7]"] exI [of _ "[exit_event 7]"])
        (simp add: pm_run_def pm_start_def pm_scan_eq exit_event_def exists_of_stat_def pid_stat_def)
  next
    case False
    then have i: "4 \<le> i" using pc by (auto simp: pm_run_def split: if_splits)
    then have "pm_round (i - 4) = PmScan" using pc by (simp add: pm_run_def)
    then have "(i - 4) mod 4 = 2" by (cases "i - 4" rule: four_cases) (simp_all add: pm_round_def)
    then have "pm_round (Suc i - 4) = PmRemove []" unfolding Suc_diff_le [OF i] by (simp add: mod_Suc pm_round_def)
    then show ?thesis using i unfolding pm_misses_def
      by (intro exI [of _ "\<lambda>_. StatNotExist"] exI [of _ "[]"]) (simp add: pm_run_def pid_stat_def)
  qed
qed

lemma pm_misses_step: "pmPc s = PmScan \<Longrightarrow> pm_misses p s t \<Longrightarrow> pm_step s t"
  unfolding pm_misses_def by (elim exE conjE) (simp only: pm_do_scan)

lemma pm_run_step: "pm_step (pm_run i) (pm_run (Suc i)) \<and> (i \<noteq> 2 \<longrightarrow> pmPc (pm_run (Suc i)) \<noteq> pmPc (pm_run i))"
proof -
  consider "i = 0" | "i = 1" | "i = 2" | "i = 3" | "4 \<le> i" by linarith
  then show ?thesis
  proof cases
    case 1
    then show ?thesis using pm_misses_step [OF _ pm_run_misses, of 0] by (simp add: pm_run_def pm_start_def)
  next
    case 2
    then show ?thesis using pm_send [of "pm_run 1" "[exit_event 7]" "[exit_event 7]"]
      by (simp add: pm_run_def pm_start_def eventChCap_def)
  next
    case 3
    then show ?thesis using pm_wait [of "pm_run 2" "[exit_event 7]"] by (simp add: pm_run_def pm_start_def numeral_3_eq_3)
  next
    case 4
    have "pm_cleanup [exit_event 7 :: unit PidEvent] [7 \<mapsto> pmExit] = (\<lambda>_. None)"
      by (simp add: pm_cleanup_def eventTableRm_def eventClear_def fun_eq_iff)
    then show ?thesis using 4 pm_do_rm [of "pm_run 3" "[exit_event 7]"]
      by (simp add: pm_run_def pm_start_def pm_round_def)
  next
    case 5
    then have k: "Suc i - 4 = Suc (i - 4)" by simp
    show ?thesis
    proof (cases "i - 4" rule: four_cases)
      case 1
      then show ?thesis using 5 k pm_wake [of "pm_run i"] by (simp add: pm_run_def pm_start_def pm_round_def mod_Suc)
    next
      case 2
      then show ?thesis using 5 k pm_default [of "pm_run i"] by (simp add: pm_run_def pm_start_def pm_round_def mod_Suc)
    next
      case 3
      then have "pmPc (pm_run i) = PmScan" using 5 by (simp add: pm_run_def pm_round_def)
      with pm_misses_step [OF this pm_run_misses [OF this]] show ?thesis
        using 3 5 k by (simp add: pm_run_def pm_start_def pm_round_def mod_Suc)
    next
      case 4
      then show ?thesis using \<open>4 \<le> i\<close> k pm_do_rm [of "pm_run i" "[]"]
        by (simp add: pm_run_def pm_start_def pm_round_def mod_Suc pm_cleanup_def)
    qed
  qed
qed

theorem pm_exit_received_witness: "\<exists>j. count_list (map Pid (concat (received (pm_run j)))) 7 > 0"
proof -
  have s: "pm_run 0 = pm_start" by (simp add: pm_run_def)
  have "\<exists>j. count_list (map Pid (concat (received (pm_run j)))) 7 > count_list (map Pid (concat (received (pm_run 0)))) 7"
  proof (rule pm_exit_received)
    show "pm_reach (pm_run 0)" using pm_start_reach s by simp
    show "weakly_fair pm_moves pm_run" by (rule moves_fair [of 3]) (use pm_run_step in \<open>simp add: pm_moves_def\<close>)
    show "weakly_fair pm_reads pm_run" by (rule pm_reads_fair [of 3]) (simp add: pm_run_def pm_start_def)
  qed (use pm_run_step pm_run_misses in \<open>auto simp: s pm_start_def pm_watched_def eventIsSet_def pm_views pm_run_def\<close>)
  then show ?thesis by (metis gr_zeroI not_less_zero)
qed

text \<open>A monitor that is closed at once; when the empty batch has been read, only clients go on.\<close>

definition pm_closed_run :: "nat \<Rightarrow> unit pidmon" where
  "pm_closed_run i = \<lparr>evTable = (\<lambda>_. None), eventCh = (if i = 2 then [[]] else []),
     pmPc = (if i = 0 then PmTop else if i = 1 then PmStop else PmDone), closing = (if i = 0 then 1 else 0),
     received = (if i \<le> 2 then [] else [[]]), added = (\<lambda>_. 0)\<rparr>"

lemma pm_closed_run_reach: "pm_reach (pm_closed_run 0)"
proof -
  let ?s0 = "\<lparr>evTable = (\<lambda>_. None), eventCh = [], pmPc = PmTop, closing = 0, received = [], added = (\<lambda>_. 0)\<rparr> :: unit pidmon"
  have "pm_reach ?s0" by (rule pm_init [of 5]) (simp add: pm_New_def pm_validateCfg_def pmPollMin_def pmPollMax_def)
  from pm_more [OF this pm_close] show ?thesis by (simp add: pm_closed_run_def)
qed

lemma pm_closed_run_step: "pm_step (pm_closed_run i) (pm_closed_run (Suc i))"
proof -
  consider "i = 0" | "i = 1" | "i = 2" | "3 \<le> i" by linarith
  then show ?thesis
  proof cases
    case 1
    then show ?thesis using pm_take_stop [of "pm_closed_run 0" 0] by (simp add: pm_closed_run_def)
  next
    case 2
    then show ?thesis using pm_last [of "pm_closed_run 1"] by (simp add: pm_closed_run_def eventChCap_def)
  next
    case 3
    then show ?thesis using pm_wait [of "pm_closed_run 2" "[]"] by (simp add: pm_closed_run_def)
  next
    case 4
    then show ?thesis using pm_rm [of "exit_event 7" "pm_closed_run i"]
      by (simp add: pm_closed_run_def validateEvent_def eventTableRm_def)
  qed
qed

theorem pm_close_received_witness: "\<exists>j bs. pmPc (pm_closed_run j) = PmDone \<and> received (pm_closed_run j) = bs @ [[]]"
proof -
  have "\<exists>j bs. pmPc (pm_closed_run j) = PmDone \<and> received (pm_closed_run j) = bs @ [[]] \<and> list_all (\<lambda>b. b \<noteq> []) bs"
  proof (rule pm_close_received [OF pm_closed_run_reach pm_closed_run_step])
    show "closing (pm_closed_run 0) > 0" by (simp add: pm_closed_run_def)
    show "weakly_fair pm_moves pm_closed_run"
      by (rule moves_fair [of 2]) (auto simp: pm_moves_def pm_closed_run_def dest: pm_done_step)
    show "weakly_fair pm_reads pm_closed_run" by (rule pm_reads_fair [of 3]) (simp add: pm_closed_run_def)
  qed
  then show ?thesis by blast
qed

text \<open>Files ''a'' and ''b'': the first is found gone in the first scan, the second stays, so that the thread does not end.\<close>

definition fm_start :: "unit filemon" where
  "fm_start = \<lparr>fmCap = 1, fileTable = [''a'' \<mapsto> True, ''b'' \<mapsto> True], fmQueue = [], fmRunning = True, fmStopped = False,
     fmPc = FmScan, fmReceived = [], fmAdded = (\<lambda>_. 0)(''a'' := 1, ''b'' := 1)\<rparr>"

abbreviation fm_lost :: "unit fmEvent" where
  "fm_lost \<equiv> \<lparr>Filename = ''a'', fmErr = None\<rparr>"

definition fm_round :: "nat \<Rightarrow> unit fm_pc" where
  "fm_round k = [FmCheck, FmSelect, FmScan, FmRemove []] ! (k mod 4)"

lemma fm_round_busy: "fm_round k \<noteq> FmIdle"
  by (cases k rule: four_cases) (simp_all add: fm_round_def)

definition fm_run :: "nat \<Rightarrow> unit filemon" where
  "fm_run i = (if i = 0 then fm_start
     else if i = 1 then fm_start\<lparr>fmPc := FmSend [fm_lost] [''a'']\<rparr>
     else if i = 2 then fm_start\<lparr>fmQueue := [[fm_lost]], fmPc := FmRemove [''a'']\<rparr>
     else if i = 3 then fm_start\<lparr>fmReceived := [[fm_lost]], fmPc := FmRemove [''a'']\<rparr>
     else fm_start\<lparr>fmReceived := [[fm_lost]], fileTable := [''b'' \<mapsto> True], fmPc := fm_round (i - 4)\<rparr>)"

definition fm_gone_a :: "string \<Rightarrow> unit stat_result" where
  "fm_gone_a f = (if f = ''a'' then StatNotExist else StatOk)"

lemma fm_start_reach: "fm_reach fm_start"
proof -
  let ?s0 = "\<lparr>fmCap = 1, fileTable = (\<lambda>_. None), fmQueue = [], fmRunning = False,
     fmStopped = False, fmPc = FmIdle, fmReceived = [], fmAdded = (\<lambda>_. 0)\<rparr> :: unit filemon"
  let ?s1 = "fm_Add ''a'' ?s0" and ?s2 = "fm_Add ''b'' (fm_Add ''a'' ?s0)"
  have r: "fm_reach ?s0"
    by (rule fm_init [of "\<lparr>EventBufSize = 1, PollInterval = 1000000\<rparr>"])
      (simp add: fm_New_def fm_validateCfg_def fmPollMin_def fmPollMax_def)
  have "fm_step ?s2 (?s2\<lparr>fmPc := FmScan\<rparr>)" by (rule fm_select_tick) (simp add: fm_Add_def)
  moreover have "?s2\<lparr>fmPc := FmScan\<rparr> = fm_start" by (simp add: fm_Add_def fm_start_def)
  ultimately have tick: "fm_step ?s2 fm_start" by simp
  have "fm_step ?s0 ?s1" and "fm_step ?s1 ?s2" by (rule fm_add)+
  from fm_more [OF fm_more [OF fm_more [OF r this(1)] this(2)] tick] show ?thesis .
qed

lemma fm_run_misses: "fmPc (fm_run i) = FmScan \<Longrightarrow> fm_misses ''a'' (fm_run i) (fm_run (Suc i))"
proof -
  assume pc: "fmPc (fm_run i) = FmScan"
  show ?thesis
  proof (cases "i = 0")
    case True
    moreover have "set [''a'', ''b''] = dom (fileTable fm_start)" by (auto simp: fm_start_def)
    moreover have "fm_scan fm_gone_a [''a'', ''b''] [] [] = ([fm_lost], [''a''])"
      by (simp add: fm_scan_eq fm_gone_a_def exists_of_stat_def)
    ultimately show ?thesis unfolding fm_misses_def
      by (intro exI [of _ fm_gone_a] exI [of _ "[''a'', ''b'']"] exI [of _ "[fm_lost]"] exI [of _ "[''a'']"])
        (simp add: fm_run_def fm_gone_a_def)
  next
    case False
    with pc have i: "4 \<le> i" by (auto simp: fm_run_def fm_start_def split: if_splits)
    then have "fm_round (i - 4) = FmScan" using pc by (simp add: fm_run_def)
    then have "(i - 4) mod 4 = 2" by (cases "i - 4" rule: four_cases) (simp_all add: fm_round_def)
    then have "fm_round (Suc i - 4) = FmRemove []" unfolding Suc_diff_le [OF i] by (simp add: mod_Suc fm_round_def)
    then show ?thesis using i unfolding fm_misses_def
      by (intro exI [of _ fm_gone_a] exI [of _ "[''b'']"]) (simp add: fm_run_def fm_scan_eq fm_gone_a_def)
  qed
qed

lemma fm_misses_step: "fmPc s = FmScan \<Longrightarrow> fm_misses f s t \<Longrightarrow> fm_step s t"
  unfolding fm_misses_def by (elim exE conjE) (simp only: fm_do_scan)

lemma fm_run_step: "fm_step (fm_run i) (fm_run (Suc i)) \<and> (i \<noteq> 2 \<longrightarrow> fmPc (fm_run (Suc i)) \<noteq> fmPc (fm_run i))"
proof -
  consider "i = 0" | "i = 1" | "i = 2" | "i = 3" | "4 \<le> i" by linarith
  then show ?thesis
  proof cases
    case 1
    then show ?thesis using fm_misses_step [OF _ fm_run_misses, of 0] by (simp add: fm_run_def fm_start_def)
  next
    case 2
    then show ?thesis using fm_send [of "fm_run 1" "[fm_lost]" "[''a'']"] by (simp add: fm_run_def fm_start_def)
  next
    case 3
    then show ?thesis using fm_read [of "fm_run 2" "[fm_lost]" "[]"] by (simp add: fm_run_def fm_start_def numeral_3_eq_3)
  next
    case 4
    have "fm_cleanup [''a''] [''a'' \<mapsto> True, ''b'' \<mapsto> True] = [''b'' \<mapsto> True]" by (simp add: fm_cleanup_def fun_eq_iff)
    then show ?thesis using 4 fm_do_rm [of "fm_run 3" "[''a'']"] by (simp add: fm_run_def fm_start_def fm_round_def)
  next
    case 5
    then have k: "Suc i - 4 = Suc (i - 4)" by simp
    show ?thesis
    proof (cases "i - 4" rule: four_cases)
      case 1
      then show ?thesis using 5 k fm_check [of "fm_run i"] by (simp add: fm_run_def fm_start_def fm_round_def mod_Suc)
    next
      case 2
      then show ?thesis using 5 k fm_select_tick [of "fm_run i"] by (simp add: fm_run_def fm_start_def fm_round_def mod_Suc)
    next
      case 3
      then have "fmPc (fm_run i) = FmScan" using 5 by (simp add: fm_run_def fm_round_def)
      with fm_misses_step [OF this fm_run_misses [OF this]] show ?thesis
        using 3 5 k by (simp add: fm_run_def fm_start_def fm_round_def mod_Suc)
    next
      case 4
      then show ?thesis using \<open>4 \<le> i\<close> k fm_do_rm [of "fm_run i" "[]"]
        by (simp add: fm_run_def fm_start_def fm_round_def mod_Suc fm_cleanup_def)
    qed
  qed
qed

lemma fm_run_busy: "fmPc (fm_run i) \<noteq> FmIdle"
  by (simp add: fm_run_def fm_start_def fm_round_busy)

theorem fm_loss_received_witness: "\<exists>j. count_list (map Filename (concat (fmReceived (fm_run j)))) ''a'' > 0"
proof -
  have s: "fm_run 0 = fm_start" by (simp add: fm_run_def)
  have "\<exists>j. count_list (map Filename (concat (fmReceived (fm_run j)))) ''a'' > count_list (map Filename (concat (fmReceived (fm_run 0)))) ''a''"
  proof (rule fm_loss_received)
    show "fm_reach (fm_run 0)" using fm_start_reach s by simp
    show "weakly_fair fm_moves fm_run"
      by (rule moves_fair [of 3]) (use fm_run_step fm_run_busy in \<open>simp add: fm_moves_def\<close>)
    show "weakly_fair fm_reads fm_run" by (rule fm_reads_fair [of 3]) (simp add: fm_run_def fm_start_def)
  qed (use fm_run_step fm_run_misses in \<open>auto simp: s fm_start_def fm_views fm_run_def\<close>)
  then show ?thesis by (metis gr_zeroI not_less_zero)
qed

text \<open>A monitor that is closed at its first \<open>select\<close>; when the thread is gone, only clients go on.\<close>

definition fm_closed_run :: "nat \<Rightarrow> unit filemon" where
  "fm_closed_run i = \<lparr>fmCap = 1, fileTable = [''a'' \<mapsto> True], fmQueue = (if i = 2 then [[]] else []), fmRunning = (i \<le> 3),
     fmStopped = True, fmPc = (if i = 0 then FmSelect else if i = 1 then FmStop else if i \<le> 3 then FmExit else FmIdle),
     fmReceived = (if i \<le> 2 then [] else [[]]), fmAdded = (\<lambda>_. 0)(''a'' := 1)\<rparr>"

lemma fm_closed_run_reach: "fm_reach (fm_closed_run 0)"
proof -
  let ?s0 = "\<lparr>fmCap = 1, fileTable = (\<lambda>_. None), fmQueue = [], fmRunning = False,
     fmStopped = False, fmPc = FmIdle, fmReceived = [], fmAdded = (\<lambda>_. 0)\<rparr> :: unit filemon"
  have r: "fm_reach ?s0"
    by (rule fm_init [of "\<lparr>EventBufSize = 1, PollInterval = 1000000\<rparr>"])
      (simp add: fm_New_def fm_validateCfg_def fmPollMin_def fmPollMax_def)
  have "fm_Close (fm_Add ''a'' ?s0) = Inr (fm_closed_run 0)" by (simp add: fm_Add_def fm_Close_def fm_closed_run_def)
  from fm_more [OF fm_more [OF r fm_add] fm_close [OF this]] show ?thesis .
qed

lemma fm_closed_run_step: "fm_step (fm_closed_run i) (fm_closed_run (Suc i))"
proof -
  consider "i = 0" | "i = 1" | "i = 2" | "i = 3" | "4 \<le> i" by linarith
  then show ?thesis
  proof cases
    case 1
    then show ?thesis using fm_select_stop [of "fm_closed_run 0"] by (simp add: fm_closed_run_def)
  next
    case 2
    then show ?thesis using fm_last [of "fm_closed_run 1"] by (simp add: fm_closed_run_def)
  next
    case 3
    then show ?thesis using fm_read [of "fm_closed_run 2" "[]" "[]"] by (simp add: fm_closed_run_def)
  next
    case 4
    then show ?thesis using fm_deferred [of "fm_closed_run 3"] by (simp add: fm_closed_run_def)
  next
    case 5
    then show ?thesis using fm_remove [of "fm_closed_run i" "''b''"]
      by (simp add: fm_closed_run_def fm_Remove_def fun_upd_twist)
  qed
qed

theorem fm_close_received_witness: "(\<exists>j. \<not> fmRunning (fm_closed_run j)) \<and> (\<exists>j. [] \<in> set (fmReceived (fm_closed_run j)))"
proof -
  have "(\<exists>j. \<not> fmRunning (fm_closed_run j)) \<and> ((\<exists>j. [] \<in> set (fmReceived (fm_closed_run j))) \<or>
      (\<exists>j. fmPc (fm_closed_run j) = FmCheck \<and> dom (fileTable (fm_closed_run j)) = {}))"
  proof (rule fm_close_received [OF fm_closed_run_reach fm_closed_run_step])
    show "weakly_fair fm_moves fm_closed_run"
      by (rule moves_fair [of 4]) (simp add: fm_moves_def fm_closed_run_def)
    show "weakly_fair fm_reads fm_closed_run" by (rule fm_reads_fair [of 3]) (simp add: fm_closed_run_def)
    show "strongly_fair fm_stops fm_closed_run"
      by (rule strongly_fairI [of 1]) (simp add: fm_stops_def fm_closed_run_def)
  qed (simp_all add: fm_closed_run_def)
  moreover have "fmPc (fm_closed_run j) \<noteq> FmCheck" for j by (simp add: fm_closed_run_def)
  ultimately show ?thesis by blast
qed

end
