(* ===== verification/MountInfo.thy ===== *)
theory MountInfo
  imports GoScan
begin

text \<open>
  The mount table of \<open>mount/\<close>: the parser of \<open>mountinfo\<close> files (\<open>mount_linux.go\<close>), the entry
  type (\<open>mountinfo.go\<close>), the searches (\<open>mount.go\<close>) and the conversion of options to flags. The
  lemmas show that the parser inverts the format the kernel documents.
\<close>

section \<open>Entries\<close>

record Info =
  ID :: int
  Parent :: int
  Major :: int
  Minor :: int
  Root :: string
  Mountpoint :: string
  Opts :: string
  Optional :: string
  Fstype :: string
  Source :: string
  VfsOpts :: string

section \<open>The parser\<close>

datatype 'e mount_err =
    OpenFailed 'e
  | ReadFailed 'e
  | ScanFailed string
  | TooFewFields string

text \<open>\<open>"%d %d %d:%d %s %s %s %s"\<close>.\<close>

definition mountinfoFormat :: "fmt_item list" where
  "mountinfoFormat = [FInt, FSpace, FInt, FSpace, FInt, FLit CHR '':'', FInt, FSpace, FStr, FSpace, FStr, FSpace, FStr, FSpace, FStr]"

text \<open>
  One line of the table. Without the separator \<open>Index\<close> is -1 and the fields are those of
  \<open>text[2:]\<close>, which panics on a shorter text.
\<close>

definition parse_info_line :: "string \<Rightarrow> ('e mount_err + Info) go" where
  "parse_info_line text =
    (case sscanf mountinfoFormat text of
       ([VInt i, VInt p, VInt ma, VInt mi, VStr r, VStr mp, VStr os, VStr optionalFields], True) \<Rightarrow>
         (let start = (case str_index text '' - '' of None \<Rightarrow> 2 | Some n \<Rightarrow> n + 3)
          in if length text < start then Inl SliceBoundsOutOfRange
             else
               let post = str_fields (drop start text)
               in if length post < 3 then Inr (Inl (TooFewFields text))
                  else Inr (Inr \<lparr>ID = i, Parent = p, Major = ma, Minor = mi, Root = r, Mountpoint = mp, Opts = os,
                    Optional = (if optionalFields \<noteq> ''-'' then optionalFields else []),
                    Fstype = post ! 0, Source = post ! 1, VfsOpts = str_join '' '' (drop 2 post)\<rparr>))
     | _ \<Rightarrow> Inr (Inl (ScanFailed text)))"

fun parse_tokens :: "(string \<times> 'e option) list \<Rightarrow> Info list \<Rightarrow> ('e mount_err + Info list) go" where
  "parse_tokens [] out = Inr (Inr out)"
| "parse_tokens ((text, err) # toks) out =
     (case err of
        Some e \<Rightarrow> Inr (Inl (ReadFailed e))
      | None \<Rightarrow> bindE (parse_info_line text) (\<lambda>r. case r of
            Inl e \<Rightarrow> Inr (Inl e)
          | Inr p \<Rightarrow> parse_tokens toks (out @ [p])))"

definition parseInfoFile :: "string \<times> 'e option \<Rightarrow> ('e mount_err + Info list) go" where
  "parseInfoFile f = (case f of (content, read_err) \<Rightarrow> parse_tokens (scanner_tokens content read_err) [])"

text \<open>
  \<open>open_file\<close> is the file system: an error of \<open>os.Open\<close>, or what can be read and the error that
  ends the reading.
\<close>

definition parseMountTable :: "(string \<Rightarrow> 'e + string \<times> 'e option) \<Rightarrow> ('e mount_err + Info list) go" where
  "parseMountTable open_file = (case open_file ''/proc/self/mountinfo'' of
      Inl e \<Rightarrow> Inr (Inl (OpenFailed e)) | Inr f \<Rightarrow> parseInfoFile f)"

definition parseMountTableForPid :: "(string \<Rightarrow> 'e + string \<times> 'e option) \<Rightarrow> 32 word \<Rightarrow> ('e mount_err + Info list) go" where
  "parseMountTableForPid open_file p = (case open_file (''/proc/'' @ show_nat (unat p) @ ''/mountinfo'') of
      Inl e \<Rightarrow> Inr (Inl (OpenFailed e)) | Inr f \<Rightarrow> parseInfoFile f)"

definition GetMounts :: "(string \<Rightarrow> 'e + string \<times> 'e option) \<Rightarrow> ('e mount_err + Info list) go" where
  "GetMounts open_file = parseMountTable open_file"

definition GetMountsPid :: "(string \<Rightarrow> 'e + string \<times> 'e option) \<Rightarrow> 32 word \<Rightarrow> ('e mount_err + Info list) go" where
  "GetMountsPid open_file p = parseMountTableForPid open_file p"

section \<open>Searches\<close>

fun FindMount :: "string \<Rightarrow> Info list \<Rightarrow> bool" where
  "FindMount mountpoint [] = False"
| "FindMount mountpoint (m # ms) = (if Mountpoint m = mountpoint then True else FindMount mountpoint ms)"

fun MountedWithFs :: "string \<Rightarrow> string \<Rightarrow> Info list \<Rightarrow> bool" where
  "MountedWithFs mountpoint fs [] = False"
| "MountedWithFs mountpoint fs (m # ms) =
     (if Mountpoint m = mountpoint \<and> Fstype m = fs then True else MountedWithFs mountpoint fs ms)"

fun GetMountAt :: "string \<Rightarrow> Info list \<Rightarrow> Info option" where
  "GetMountAt mountpoint [] = None"
| "GetMountAt mountpoint (m # ms) = (if Mountpoint m = mountpoint then Some m else GetMountAt mountpoint ms)"

section \<open>Mount flags\<close>

text \<open>The \<open>MS_*\<close> constants of the \<open>unix\<close> package.\<close>

record ms_flags =
  MS_RDONLY :: "64 word"
  MS_NODEV :: "64 word"
  MS_NOEXEC :: "64 word"
  MS_NOSUID :: "64 word"
  MS_NOATIME :: "64 word"
  MS_NODIRATIME :: "64 word"
  MS_RELATIME :: "64 word"
  MS_STRICTATIME :: "64 word"
  MS_SYNCHRONOUS :: "64 word"

definition mountFlagsMap :: "ms_flags \<Rightarrow> string \<rightharpoonup> 64 word" where
  "mountFlagsMap ms = map_of
    [(''ro'', MS_RDONLY ms),
     (''nodev'', MS_NODEV ms),
     (''noexec'', MS_NOEXEC ms),
     (''nosuid'', MS_NOSUID ms),
     (''noatime'', MS_NOATIME ms),
     (''nodiratime'', MS_NODIRATIME ms),
     (''relatime'', MS_RELATIME ms),
     (''strictatime'', MS_STRICTATIME ms),
     (''sync'', MS_SYNCHRONOUS ms)]"

definition optToFlag :: "ms_flags \<Rightarrow> string list \<Rightarrow> 64 word" where
  "optToFlag ms opts = foldl (\<lambda>flags opt. case mountFlagsMap ms opt of None \<Rightarrow> flags | Some f \<Rightarrow> flags OR f) 0 opts"

definition OptionsToFlags :: "ms_flags \<Rightarrow> string list \<Rightarrow> 64 word" where
  "OptionsToFlags ms opt = optToFlag ms opt"

section \<open>The format of the kernel\<close>

text \<open>
  An entry as the kernel knows it, with the optional fields and the super block options as lists,
  and the line \<open>proc(5)\<close> documents for it.
\<close>

record kernel_mount =
  k_id :: nat
  k_parent :: nat
  k_major :: nat
  k_minor :: nat
  k_fields :: "string list"
  k_optional :: "string list"
  k_fstype :: string
  k_source :: string
  k_vfs :: "string list"

definition spaced :: "string list \<Rightarrow> string" where
  "spaced ws = concat (map (\<lambda>w. CHR '' '' # w) ws)"

definition mount_head :: "kernel_mount \<Rightarrow> string" where
  "mount_head m = show_nat (k_id m) @ spaced ([show_nat (k_parent m), show_nat (k_major m) @ '':'' @ show_nat (k_minor m)]
     @ k_fields m @ k_optional m)"

definition mount_line :: "kernel_mount \<Rightarrow> string" where
  "mount_line m = mount_head m @ '' - '' @ str_join '' '' ([k_fstype m, k_source m] @ k_vfs m)"

definition wf_word :: "string \<Rightarrow> bool" where
  "wf_word w \<longleftrightarrow> no_space w \<and> w \<noteq> ''-''"

definition wf_mount :: "kernel_mount \<Rightarrow> bool" where
  "wf_mount m \<longleftrightarrow> k_id m < 2 ^ 63 \<and> k_parent m < 2 ^ 63 \<and> k_major m < 2 ^ 63 \<and> k_minor m < 2 ^ 63 \<and>
     length (k_fields m) = 3 \<and> list_all wf_word (k_fields m) \<and> list_all wf_word (k_optional m) \<and>
     list_all no_space (k_fstype m # k_source m # k_vfs m) \<and> k_vfs m \<noteq> [] \<and> length (mount_line m) < 65536"

text \<open>What the parser should make of it: of the optional fields it keeps the first.\<close>

definition info_of :: "kernel_mount \<Rightarrow> Info" where
  "info_of m = \<lparr>ID = int (k_id m), Parent = int (k_parent m), Major = int (k_major m), Minor = int (k_minor m),
     Root = k_fields m ! 0, Mountpoint = k_fields m ! 1, Opts = k_fields m ! 2,
     Optional = (case k_optional m of [] \<Rightarrow> [] | t # _ \<Rightarrow> t),
     Fstype = k_fstype m, Source = k_source m, VfsOpts = str_join '' '' (k_vfs m)\<rparr>"

lemma spaced_simps [simp]:
  "spaced [] = []" "spaced (w # ws) = CHR '' '' # w @ spaced ws" "spaced (vs @ ws) = spaced vs @ spaced ws"
  by (simp_all add: spaced_def)

lemma show_nat_no_space [simp]: "no_space (show_nat n)"
  using show_nat_digits [of _ n] digit_not_special by (auto simp: no_space_def list_all_iff)

lemma no_space_append: "no_space a \<Longrightarrow> no_space b \<Longrightarrow> no_space (a @ b)"
  by (simp add: no_space_def)

lemma show_nat_wf [simp]: "wf_word (show_nat n)"
proof -
  have "show_nat n \<noteq> ''-''" using show_nat_hd [of n] by (auto simp: is_digit_def)
  then show ?thesis by (simp add: wf_word_def)
qed

lemma major_minor_wf: "wf_word (show_nat a @ '':'' @ show_nat b)"
proof -
  have "no_space '':''" by (simp add: no_space_def is_space_def)
  then have "no_space (show_nat a @ '':'' @ show_nat b)" by (intro no_space_append) simp_all
  moreover have "show_nat a @ '':'' @ show_nat b \<noteq> ''-''"
    using show_nat_hd [of a] show_nat_not_Nil [of a] by (cases "show_nat a") (auto simp: is_digit_def)
  ultimately show ?thesis by (simp add: wf_word_def)
qed

text \<open>The separator is found behind words none of which is a dash.\<close>

lemma index_in_word:
  "list_all (\<lambda>c. \<not> is_space c) w \<Longrightarrow> str_index (w @ s) '' - '' = map_option ((+) (length w)) (str_index s '' - '')"
proof (induction w)
  case Nil
  then show ?case by (cases "str_index s '' - ''") simp_all
next
  case (Cons c w)
  then have "\<not> HasPrefix (c # w @ s) '' - ''" by (auto simp: HasPrefix_def is_space_def)
  then show ?case using Cons by (cases "str_index s '' - ''") simp_all
qed

lemma index_after_words:
  assumes "list_all wf_word ws"
  shows "str_index (spaced ws @ '' - '' @ r) '' - '' = Some (length (spaced ws))"
  using assms
proof (induction ws)
  case Nil
  have "HasPrefix ('' - '' @ r) '' - ''" by (rule HasPrefix_append)
  then show ?case by simp
next
  case (Cons w ws)
  then have w: "no_space w" "w \<noteq> ''-''" by (simp_all add: wf_word_def)
  have "\<not> HasPrefix (CHR '' '' # w @ spaced ws @ '' - '' @ r) '' - ''"
  proof
    assume "HasPrefix (CHR '' '' # w @ spaced ws @ '' - '' @ r) '' - ''"
    then have "take (Suc (Suc 0)) (w @ spaced ws @ '' - '' @ r) = ''- ''" by (simp add: HasPrefix_def)
    moreover obtain c v where "w = c # v" using w(1) by (cases w) (auto simp: no_space_def)
    moreover from this have "v = [] \<or> \<not> is_space (hd v)" using w(1) by (cases v) (auto simp: no_space_def)
    ultimately show False using w(2) by (cases v) (auto simp: is_space_def take_Cons' split: if_splits)
  qed
  then show ?case
    using Cons w index_in_word [of w "spaced ws @ '' - '' @ r"] by (simp add: no_space_def)
qed

lemma mount_line_index:
  assumes "wf_mount m" shows "str_index (mount_line m) '' - '' = Some (length (mount_head m))"
proof -
  have "list_all wf_word ([show_nat (k_parent m), show_nat (k_major m) @ '':'' @ show_nat (k_minor m)] @ k_fields m @ k_optional m)"
    using assms major_minor_wf by (simp add: wf_mount_def)
  from index_after_words [OF this] show ?thesis
    using index_in_word [of "show_nat (k_id m)"] show_nat_no_space [of "k_id m"]
    unfolding mount_line_def mount_head_def by (simp add: no_space_def)
qed

lemma match_space_word: "no_space w \<Longrightarrow> match_space (CHR '' '' # w @ r) = Some (w @ r)"
  by (rule match_space_one) (cases w; simp add: no_space_def)+

lemma space_start_spaced: "space_start (spaced ws @ CHR '' '' # r)"
  by (cases ws) (simp_all add: space_start_def is_space_def)

lemma mount_line_scan:
  assumes "wf_mount m" and f: "k_fields m = [r, mp, os]"
  shows "sscanf mountinfoFormat (mount_line m) =
    ([VInt (int (k_id m)), VInt (int (k_parent m)), VInt (int (k_major m)), VInt (int (k_minor m)),
      VStr r, VStr mp, VStr os, VStr (case k_optional m of [] \<Rightarrow> ''-'' | t # _ \<Rightarrow> t)], True)"
proof -
  have w: "no_space r" "no_space mp" "no_space os" and n: "k_id m < 2 ^ 63" "k_parent m < 2 ^ 63" "k_major m < 2 ^ 63" "k_minor m < 2 ^ 63"
    using assms by (simp_all add: wf_mount_def wf_word_def)
  let ?post = "str_join '' '' ([k_fstype m, k_source m] @ k_vfs m)"
  obtain t rest where tl: "spaced (k_optional m) @ '' - '' @ ?post = CHR '' '' # t @ rest"
    and t: "no_space t" "t = (case k_optional m of [] \<Rightarrow> ''-'' | t # _ \<Rightarrow> t)" and st: "space_start rest"
  proof (cases "k_optional m")
    case Nil
    then show ?thesis by (intro that [of "''-''" "'' '' @ ?post"]) (simp_all add: no_space_def is_space_def space_start_def)
  next
    case (Cons t ts)
    then show ?thesis
      using assms(1) by (intro that [of t "spaced ts @ '' - '' @ ?post"])
        (simp_all add: wf_mount_def wf_word_def space_start_spaced)
  qed
  have "mount_line m = show_nat (k_id m) @ CHR '' '' # show_nat (k_parent m) @ CHR '' '' # show_nat (k_major m) @ CHR '':'' #
      show_nat (k_minor m) @ CHR '' '' # r @ CHR '' '' # mp @ CHR '' '' # os @ CHR '' '' # t @ rest"
    unfolding mount_line_def mount_head_def f using tl by simp
  then show ?thesis
    using w n t st
    by (simp add: mountinfoFormat_def scan_verb_show_nat scan_verb_word match_space_word scan_simps is_space_def is_digit_def)
qed

lemma parse_mount_line:
  assumes "wf_mount m"
  shows "parse_info_line (mount_line m) = Inr (Inr (info_of m))"
proof -
  obtain r mp os where f: "k_fields m = [r, mp, os]"
    using assms by (auto simp: wf_mount_def numeral_3_eq_3 length_Suc_conv)
  let ?fs = "k_fstype m # k_source m # k_vfs m"
  have "drop (length (mount_head m) + 3) (mount_line m) = str_join '' '' ?fs"
    by (simp add: mount_line_def)
  moreover have "str_fields (str_join '' '' ?fs) = ?fs"
    using assms by (intro str_fields_join) (auto simp: wf_mount_def no_space_def list_all_iff)
  moreover have "k_optional m \<noteq> [] \<Longrightarrow> hd (k_optional m) \<noteq> ''-''"
    using assms by (cases "k_optional m") (auto simp: wf_mount_def wf_word_def)
  moreover have "k_vfs m \<noteq> []" using assms by (simp add: wf_mount_def)
  moreover have "length (mount_head m) + 3 \<le> length (mount_line m)" by (simp add: mount_line_def)
  ultimately show ?thesis
    by (cases "k_vfs m"; cases "k_optional m")
      (simp_all add: parse_info_line_def mount_line_scan [OF assms f] mount_line_index [OF assms] info_of_def f Let_def)
qed

lemma all_spaced: "P (CHR '' '') \<Longrightarrow> list_all P (spaced ws) \<longleftrightarrow> list_all (list_all P) ws"
  by (induction ws) simp_all

lemma all_joined: "P (CHR '' '') \<Longrightarrow> list_all P (str_join '' '' ws) \<longleftrightarrow> list_all (list_all P) ws"
  by (induction "'' ''" ws rule: str_join.induct) simp_all

text \<open>No white space but the blank.\<close>

definition inline :: "char \<Rightarrow> bool" where
  "inline c \<longleftrightarrow> c = CHR '' '' \<or> \<not> is_space c"

lemma inline_words:
  "no_space w \<Longrightarrow> list_all inline w"
  "list_all no_space ws \<Longrightarrow> list_all (list_all inline) ws"
  "list_all wf_word ws \<Longrightarrow> list_all (list_all inline) ws"
  by (auto simp: no_space_def wf_word_def list_all_iff inline_def)

lemma mount_line_plain: "wf_mount m \<Longrightarrow> plain_line (mount_line m)"
proof -
  assume m: "wf_mount m"
  have i: "inline (CHR '' '')" "inline (CHR ''-'')" by (simp_all add: inline_def is_space_def)
  have "list_all (list_all inline) (k_fields m)" "list_all (list_all inline) (k_optional m)"
      "list_all (list_all inline) ([k_fstype m, k_source m] @ k_vfs m)"
    using m by (intro inline_words; simp add: wf_mount_def)+
  moreover have "list_all inline (show_nat (k_id m))" "list_all inline (show_nat (k_parent m))"
      "list_all inline (show_nat (k_major m) @ '':'' @ show_nat (k_minor m))"
    using major_minor_wf by (intro inline_words; simp add: wf_word_def)+
  ultimately have "list_all inline (mount_line m)"
    using i unfolding mount_line_def mount_head_def
    by (simp add: all_spaced all_joined del: spaced_simps str_join.simps)
  moreover have "\<not> inline (CHR 0x0A)" "\<not> inline (CHR 0x0D)" by (simp_all add: inline_def is_space_def)
  ultimately have "CHR 0x0A \<notin> set (mount_line m)" "CHR 0x0D \<notin> set (mount_line m)"
    unfolding list_all_iff by blast+
  then show ?thesis using m by (simp add: plain_line_def wf_mount_def)
qed

lemma parse_tokens_lines:
  assumes "list_all wf_mount ms"
  shows "parse_tokens (map (\<lambda>m. (mount_line m, None)) ms @ toks) out = parse_tokens toks (out @ map info_of ms)"
  using assms by (induction ms arbitrary: out) (simp_all add: parse_mount_line)

lemma OptionsToFlags_iff:
  "bit (OptionsToFlags ms opts) k \<longleftrightarrow> (\<exists>opt f. opt \<in> set opts \<and> mountFlagsMap ms opt = Some f \<and> bit f k)"
proof -
  have "bit (foldl (\<lambda>flags opt. case mountFlagsMap ms opt of None \<Rightarrow> flags | Some f \<Rightarrow> flags OR f) w opts) k \<longleftrightarrow>
      bit w k \<or> (\<exists>opt f. opt \<in> set opts \<and> mountFlagsMap ms opt = Some f \<and> bit f k)" for w
    by (induction opts arbitrary: w) (auto simp: bit_or_iff split: option.split)
  then show ?thesis by (simp add: OptionsToFlags_def optToFlag_def)
qed

section \<open>Properties\<close>


text \<open>
  A line that does not scan makes the whole parse fail: whatever well-formed entries come before it
  and whatever comes after it, no entry is returned.
\<close>

theorem parseInfoFile_bad_line:
  fixes read_err :: "'e option"
  assumes "list_all wf_mount ms" and "plain_line bad" and "list_all plain_line rest"
    and "\<not> snd (sscanf mountinfoFormat bad)"
  shows "parseInfoFile (unlines (map mount_line ms @ bad # rest), read_err) = Inr (Inl (ScanFailed bad))"
proof -
  have "list_all plain_line (map mount_line ms @ bad # rest)"
    using assms mount_line_plain by (auto simp: list_all_iff)
  moreover have "parse_info_line bad = Inr (Inl (ScanFailed bad :: 'e mount_err))"
    using assms(4) by (auto simp: parse_info_line_def split: prod.split list.split scan_val.split bool.split)
  ultimately show ?thesis
    using parse_tokens_lines [OF assms(1), of "map (\<lambda>l. (l, None :: 'e option)) (bad # rest)" "[]"]
    by (simp add: parseInfoFile_def scanner_tokens_unlines comp_def)
qed

text \<open>
  The three searches agree: \<open>FindMount\<close> finds a mount point exactly when \<open>GetMountAt\<close> returns an
  entry, which is then the first entry with that mount point, and exactly when \<open>MountedWithFs\<close>
  confirms it for some file system type.
\<close>

theorem mount_searches_agree:
  "(FindMount mp ms \<longleftrightarrow> GetMountAt mp ms \<noteq> None) \<and>
   GetMountAt mp ms = find (\<lambda>m. Mountpoint m = mp) ms \<and>
   (FindMount mp ms \<longleftrightarrow> (\<exists>fs. MountedWithFs mp fs ms)) \<and>
   (MountedWithFs mp fs ms \<longleftrightarrow> fs \<in> Fstype ` set (filter (\<lambda>m. Mountpoint m = mp) ms))"
proof -
  have "FindMount mp ms \<longleftrightarrow> GetMountAt mp ms \<noteq> None" by (induction ms) simp_all
  moreover have "GetMountAt mp ms = find (\<lambda>m. Mountpoint m = mp) ms" by (induction ms) simp_all
  moreover have M: "MountedWithFs mp fs ms \<longleftrightarrow> fs \<in> Fstype ` set (filter (\<lambda>m. Mountpoint m = mp) ms)" for fs
    by (induction ms) auto
  moreover have "FindMount mp ms \<longleftrightarrow> (\<exists>m \<in> set ms. Mountpoint m = mp)" by (induction ms) auto
  ultimately show ?thesis by auto
qed

text \<open>
  The flag word of a list of options has exactly the bits of the known options in the list;
  unknown options, repetitions and the order do not matter.
\<close>

theorem OptionsToFlags_bits:
  "bit (OptionsToFlags ms opts) k \<longleftrightarrow> (\<exists>opt f. opt \<in> set opts \<and> mountFlagsMap ms opt = Some f \<and> bit f k)"
  by (rule OptionsToFlags_iff)

section \<open>Witnesses\<close>

text \<open>The example of the code's comment, with two optional fields.\<close>

definition demo_mount :: kernel_mount where
  "demo_mount = \<lparr>k_id = 36, k_parent = 35, k_major = 98, k_minor = 0, k_fields = [''/mnt1'', ''/mnt2'', ''rw,noatime''],
     k_optional = [''shared:5'', ''master:1''], k_fstype = ''ext3'', k_source = ''/dev/root'', k_vfs = [''rw,errors=continue'']\<rparr>"

lemma demo_mount_wf: "wf_mount demo_mount"
proof -
  have "length (show_nat n) \<le> 2" if "n < 100" for n
    using that less_mult_imp_div_less [of n 10 10] by (subst show_nat.simps, subst show_nat.simps) simp
  from this [of 36] this [of 35] this [of 98] this [of 0] have "length (mount_line demo_mount) < 65536"
    by (simp add: mount_line_def mount_head_def demo_mount_def)
  then show ?thesis by (simp add: wf_mount_def wf_word_def no_space_def is_space_def demo_mount_def)
qed


theorem parseInfoFile_bad_line_witness:
  "parseInfoFile (unlines (map mount_line [demo_mount] @ ''36 x'' # []), None :: unit option) = Inr (Inl (ScanFailed ''36 x''))"
proof -
  have n: "show_nat 36 = ''36''" by (simp add: show_nat.simps digit_char_def char_of_def bit_simps)
  then have "scan_verb FInt ''36 x'' = Some (VInt 36, '' x'')"
    using scan_verb_show_nat [of 36 "'' x''"] by (simp add: scan_simps is_digit_def)
  moreover have "match_space '' x'' = Some ''x''" by (rule match_space_one) (simp_all add: is_space_def)
  moreover have "scan_verb FInt ''x'' = None"
    by (simp add: scan_verb_def skip_space_def blank_def is_space_def scan_int_def Atoi_def is_digit_def Let_def)
  ultimately have "\<not> snd (sscanf mountinfoFormat ''36 x'')" by (simp add: mountinfoFormat_def)
  moreover have "plain_line ''36 x''" by (simp add: plain_line_def)
  ultimately show ?thesis using parseInfoFile_bad_line [of "[demo_mount]" "''36 x''" "[]" "None :: unit option"] demo_mount_wf by simp
qed

end
