(* ===== verification/OverlayUtils.thy ===== *)
theory OverlayUtils
  imports MountInfo
begin

text \<open>
  \<open>overlayUtils/overlayUtils.go\<close>: the options of an overlayfs mount, taken apart from its
  \<open>mountinfo\<close> entry, and the layers read off them. The string sets of the \<open>golang-set\<close> package are
  a record of operations with the laws the package documents.
\<close>

section \<open>String sets\<close>

record 's mapset =
  NewSet :: 's
  set_Add :: "string \<Rightarrow> 's \<Rightarrow> 's"
  set_Intersect :: "'s \<Rightarrow> 's \<Rightarrow> 's"
  set_Difference :: "'s \<Rightarrow> 's \<Rightarrow> 's"
  set_ToSlice :: "'s \<Rightarrow> string list"

text \<open>\<open>elems s\<close> is the content of \<open>s\<close>; \<open>ToSlice\<close> lists it without repetition, in any order.\<close>

definition mapset_law :: "'s mapset \<Rightarrow> ('s \<Rightarrow> string set) \<Rightarrow> bool" where
  "mapset_law ops elems \<longleftrightarrow>
     elems (NewSet ops) = {} \<and>
     (\<forall>x s. elems (set_Add ops x s) = insert x (elems s)) \<and>
     (\<forall>s t. elems (set_Intersect ops s t) = elems s \<inter> elems t) \<and>
     (\<forall>s t. elems (set_Difference ops s t) = elems s - elems t) \<and>
     (\<forall>s. set (set_ToSlice ops s) = elems s \<and> distinct (set_ToSlice ops s))"

definition set_of_list :: "'s mapset \<Rightarrow> string list \<Rightarrow> 's" where
  "set_of_list ops xs = fold (set_Add ops) xs (NewSet ops)"

section \<open>Mount options\<close>

record MountOpts =
  mo_Opts :: string
  Flags :: "64 word"
  PropFlags :: "64 word"

record prop_flags =
  MS_SHARED :: "64 word"
  MS_SLAVE :: "64 word"
  MS_UNBINDABLE :: "64 word"
  MS_PRIVATE :: "64 word"

definition properMntOpts :: "string list" where
  "properMntOpts = [''ro'', ''rw'', ''nodev'', ''noexec'', ''nosuid'', ''noatime'', ''nodiratime'', ''relatime'', ''strictatime'', ''sync'']"

text \<open>The loop that builds the data string from the slice, \<open>i\<close> being the index.\<close>

fun join_opts :: "nat \<Rightarrow> string list \<Rightarrow> string \<Rightarrow> string" where
  "join_opts i [] acc = acc"
| "join_opts i (opt # opts) acc = join_opts (Suc i) opts ((if i \<noteq> 0 then acc @ '','' else acc) @ opt)"

text \<open>The code also collects \<open>mi.Opts\<close> in a set, which nothing reads.\<close>

definition GetMountOpt :: "'s mapset \<Rightarrow> ms_flags \<Rightarrow> prop_flags \<Rightarrow> Info \<Rightarrow> MountOpts" where
  "GetMountOpt ops ms pf mi =
    (let currMntOpts = set_of_list ops (split_on (CHR '','') (Opts mi));
         currVfsOpts = set_of_list ops (split_on (CHR '','') (VfsOpts mi));
         proper = set_of_list ops properMntOpts;
         newMntOpts = set_Intersect ops currVfsOpts proper;
         newVfsOpts = set_Difference ops currVfsOpts proper
     in \<lparr>mo_Opts = join_opts 0 (set_ToSlice ops newVfsOpts) [],
         Flags = OptionsToFlags ms (set_ToSlice ops newMntOpts),
         PropFlags = 0 OR
           (if str_contains (Optional mi) ''shared'' then MS_SHARED pf
            else if str_contains (Optional mi) ''master'' then MS_SLAVE pf
            else if str_contains (Optional mi) ''unbindable'' then MS_UNBINDABLE pf
            else MS_PRIVATE pf)\<rparr>)"

section \<open>Layers\<close>

text \<open>The first option with a prefix, without it; the empty string if there is none.\<close>

fun first_opt :: "string \<Rightarrow> string list \<Rightarrow> string" where
  "first_opt pre [] = []"
| "first_opt pre (opt # opts) = (if HasPrefix opt pre then TrimPrefix opt pre else first_opt pre opts)"

definition GetLowerLayers :: "MountOpts \<Rightarrow> string list" where
  "GetLowerLayers mntOpts = split_on (CHR '':'') (first_opt ''lowerdir='' (split_on (CHR '','') (mo_Opts mntOpts)))"

definition GetUpperLayer :: "MountOpts \<Rightarrow> string" where
  "GetUpperLayer mntOpts = first_opt ''upperdir='' (split_on (CHR '','') (mo_Opts mntOpts))"

definition GetWorkLayer :: "MountOpts \<Rightarrow> string" where
  "GetWorkLayer mntOpts = first_opt ''workdir='' (split_on (CHR '','') (mo_Opts mntOpts))"

definition GetVolatile :: "MountOpts \<Rightarrow> bool" where
  "GetVolatile mntOpts = list_ex (\<lambda>opt. opt = ''volatile'') (split_on (CHR '','') (mo_Opts mntOpts))"

section \<open>Lemmas\<close>

lemma join_opts_eq: "join_opts i opts acc =
    (if i = 0 \<or> opts = [] then acc @ str_join '','' opts else acc @ '','' @ str_join '','' opts)"
proof (induction opts arbitrary: i acc)
  case (Cons opt opts)
  then show ?case by (cases "opts = []") (simp_all add: str_join_Cons)
qed simp

lemma elems_of_list: "mapset_law ops elems \<Longrightarrow> elems (set_of_list ops xs) = set xs"
proof -
  assume law: "mapset_law ops elems"
  have "elems (fold (set_Add ops) xs s) = elems s \<union> set xs" for s
    using law by (induction xs arbitrary: s) (auto simp: mapset_law_def)
  then show ?thesis using law by (simp add: set_of_list_def mapset_law_def)
qed

text \<open>An option that is the only one with its prefix is found, wherever it is in the list.\<close>

lemma first_opt_unique:
  assumes "pre @ v \<in> set opts" and "\<And>opt. opt \<in> set opts \<Longrightarrow> HasPrefix opt pre \<Longrightarrow> opt = pre @ v"
  shows "first_opt pre opts = v"
  using assms
proof (induction opts)
  case (Cons opt opts)
  show ?case
  proof (cases "HasPrefix opt pre")
    case True
    then have "opt = pre @ v" using Cons.prems(2) by simp
    then show ?thesis by simp
  next
    case False
    then have "pre @ v \<in> set opts" using Cons.prems(1) by auto
    then have "first_opt pre opts = v" using Cons.prems(2) by (intro Cons.IH) auto
    then show ?thesis using False by simp
  qed
qed simp

lemma first_opt_none: "(\<And>opt. opt \<in> set opts \<Longrightarrow> \<not> HasPrefix opt pre) \<Longrightarrow> first_opt pre opts = []"
  by (induction opts) auto

text \<open>
  An overlayfs mount as the kernel describes it: the lower layers, the upper and the work directory of
  a writable mount, and further options, none of which has a comma or one of the three prefixes.
\<close>

definition layer_prefixes :: "string list" where
  "layer_prefixes = [''lowerdir='', ''upperdir='', ''workdir='']"

definition overlay_vfs :: "string list \<Rightarrow> string \<Rightarrow> string \<Rightarrow> string list \<Rightarrow> string list" where
  "overlay_vfs lowers upper work others =
     [''lowerdir='' @ str_join '':'' lowers, ''upperdir='' @ upper, ''workdir='' @ work] @ others"

definition wf_overlay :: "string list \<Rightarrow> string \<Rightarrow> string \<Rightarrow> string list \<Rightarrow> bool" where
  "wf_overlay lowers upper work others \<longleftrightarrow> lowers \<noteq> [] \<and>
     list_all (\<lambda>l. CHR '':'' \<notin> set l) lowers \<and>
     list_all (\<lambda>x. CHR '','' \<notin> set x) (overlay_vfs lowers upper work others) \<and>
     list_all (\<lambda>x. list_all (\<lambda>p. \<not> HasPrefix x p) layer_prefixes) others"

lemma GetMountOpt_split:
  assumes law: "mapset_law ops elems"
    and "VfsOpts mi = str_join '','' opts" and "opts \<noteq> []" and "list_all (\<lambda>x. CHR '','' \<notin> set x) opts"
    and "set opts - set properMntOpts \<noteq> {}"
  shows "set (split_on (CHR '','') (mo_Opts (GetMountOpt ops ms pf mi))) = set opts - set properMntOpts"
    and "bit (Flags (GetMountOpt ops ms pf mi)) k \<longleftrightarrow>
      (\<exists>opt f. opt \<in> set opts \<inter> set properMntOpts \<and> mountFlagsMap ms opt = Some f \<and> bit f k)"
proof -
  let ?cur = "set_of_list ops (split_on (CHR '','') (VfsOpts mi))" and ?proper = "set_of_list ops properMntOpts"
  have cur: "elems ?cur = set opts"
    using assms(2-4) by (simp add: elems_of_list [OF law] split_on_str_join list_all_iff)
  have slice: "set (set_ToSlice ops (set_Difference ops ?cur ?proper)) = set opts - set properMntOpts"
    "set (set_ToSlice ops (set_Intersect ops ?cur ?proper)) = set opts \<inter> set properMntOpts"
    using law cur by (simp_all add: elems_of_list [OF law] mapset_law_def)
  have "split_on (CHR '','') (join_opts 0 sl []) = sl" if "set sl = set opts - set properMntOpts" for sl
  proof -
    have "sl \<noteq> []" using that assms(5) by (metis set_empty)
    moreover have "\<And>x. x \<in> set sl \<Longrightarrow> CHR '','' \<notin> set x" using that assms(4) by (auto simp: list_all_iff)
    ultimately show ?thesis by (simp add: join_opts_eq split_on_str_join)
  qed
  from this [OF slice(1)] have "split_on (CHR '','') (join_opts 0 (set_ToSlice ops (set_Difference ops ?cur ?proper)) []) =
      set_ToSlice ops (set_Difference ops ?cur ?proper)" .
  then show "set (split_on (CHR '','') (mo_Opts (GetMountOpt ops ms pf mi))) = set opts - set properMntOpts"
    using slice(1) by (simp add: GetMountOpt_def Let_def)
  show "bit (Flags (GetMountOpt ops ms pf mi)) k \<longleftrightarrow>
      (\<exists>opt f. opt \<in> set opts \<inter> set properMntOpts \<and> mountFlagsMap ms opt = Some f \<and> bit f k)"
    using slice(2) OptionsToFlags_iff by (simp add: GetMountOpt_def Let_def)
qed

lemma layer_not_proper:
  "''lowerdir='' @ x \<notin> set properMntOpts" "''upperdir='' @ x \<notin> set properMntOpts" "''workdir='' @ x \<notin> set properMntOpts"
  by (simp_all add: properMntOpts_def)

lemma layer_prefix_simps:
  "HasPrefix (''lowerdir='' @ x) ''upperdir='' = False" "HasPrefix (''lowerdir='' @ x) ''workdir='' = False"
  "HasPrefix (''upperdir='' @ x) ''lowerdir='' = False" "HasPrefix (''upperdir='' @ x) ''workdir='' = False"
  "HasPrefix (''workdir='' @ x) ''lowerdir='' = False" "HasPrefix (''workdir='' @ x) ''upperdir='' = False"
  by (simp_all add: HasPrefix_def)

section \<open>Properties\<close>

text \<open>
  C26. From the \<open>mountinfo\<close> entry of a well-formed overlayfs mount the layers are recovered exactly,
  whatever order the set package lists the options in: the lower layers in their order, the upper and the
  work directory, and whether the mount is volatile.
\<close>

theorem overlay_layers_recovered:
  assumes "mapset_law ops elems" and "wf_overlay lowers upper work others"
    and "VfsOpts mi = str_join '','' (overlay_vfs lowers upper work others)"
  shows "GetLowerLayers (GetMountOpt ops ms pf mi) = lowers \<and>
    GetUpperLayer (GetMountOpt ops ms pf mi) = upper \<and>
    GetWorkLayer (GetMountOpt ops ms pf mi) = work \<and>
    (GetVolatile (GetMountOpt ops ms pf mi) \<longleftrightarrow> ''volatile'' \<in> set others)"
proof -
  let ?vfs = "overlay_vfs lowers upper work others"
  let ?opts = "split_on (CHR '','') (mo_Opts (GetMountOpt ops ms pf mi))"
  have "''workdir='' @ work \<in> set ?vfs - set properMntOpts"
    using layer_not_proper(3) [of work] by (simp add: overlay_vfs_def)
  then have opts: "set ?opts = set ?vfs - set properMntOpts"
    using assms(2) by (intro GetMountOpt_split(1) [OF assms(1,3)]) (auto simp: wf_overlay_def overlay_vfs_def)
  have others: "\<not> HasPrefix x p" if "x \<in> set others" "p \<in> set layer_prefixes" for x p
    using assms(2) that by (auto simp: wf_overlay_def list_all_iff)
  have found: "first_opt p ?opts = v" if "p \<in> set layer_prefixes" "p @ v \<in> set ?vfs" "p @ v \<notin> set properMntOpts"
      "\<And>x. x \<in> set (take 3 ?vfs) \<Longrightarrow> HasPrefix x p \<Longrightarrow> x = p @ v" for p v
  proof (rule first_opt_unique)
    show "p @ v \<in> set ?opts" using that(2,3) opts by simp
    fix x assume "x \<in> set ?opts" and h: "HasPrefix x p"
    then have "x \<in> set ?vfs" using opts by simp
    then have "x \<in> set (take 3 ?vfs) \<or> x \<in> set others" by (auto simp: overlay_vfs_def)
    then show "x = p @ v" using that(1,4) others h by blast
  qed
  have "first_opt ''lowerdir='' ?opts = str_join '':'' lowers" "first_opt ''upperdir='' ?opts = upper"
      "first_opt ''workdir='' ?opts = work"
    using layer_not_proper layer_prefix_simps
    by (intro found; auto simp: overlay_vfs_def layer_prefixes_def simp del: append.simps)+
  moreover have "split_on (CHR '':'') (str_join '':'' lowers) = lowers"
    using assms(2) by (intro split_on_str_join) (auto simp: wf_overlay_def list_all_iff)
  moreover have "''volatile'' \<in> set ?opts \<longleftrightarrow> ''volatile'' \<in> set others"
    using opts by (simp add: overlay_vfs_def properMntOpts_def)
  ultimately show ?thesis
    by (simp add: GetLowerLayers_def GetUpperLayer_def GetWorkLayer_def GetVolatile_def list_ex_iff)
qed

text \<open>
  The mount flags come from the super block options alone: the per-mount options of the entry
  (its field \<open>Opts\<close>, where \<open>nodev\<close>, \<open>nosuid\<close> and the like are reported) have no influence on the result.
\<close>

theorem GetMountOpt_ignores_Opts:
  "GetMountOpt ops ms pf (mi\<lparr>Opts := o1\<rparr>) = GetMountOpt ops ms pf mi"
  by (simp add: GetMountOpt_def)

section \<open>Witnesses\<close>

text \<open>Sets as lists.\<close>

definition list_mapset :: "string list mapset" where
  "list_mapset = \<lparr>NewSet = [], set_Add = List.insert, set_Intersect = (\<lambda>s t. filter (\<lambda>x. x \<in> set t) s),
     set_Difference = (\<lambda>s t. filter (\<lambda>x. x \<notin> set t) s), set_ToSlice = remdups\<rparr>"

lemma list_mapset_law: "mapset_law list_mapset set"
  by (auto simp: mapset_law_def list_mapset_def)

definition demo_ms :: ms_flags where
  "demo_ms = \<lparr>MS_RDONLY = 1, MS_NODEV = 4, MS_NOEXEC = 8, MS_NOSUID = 2, MS_NOATIME = 1024, MS_NODIRATIME = 2048,
     MS_RELATIME = 2097152, MS_STRICTATIME = 16777216, MS_SYNCHRONOUS = 16\<rparr>"

definition demo_pf :: prop_flags where
  "demo_pf = \<lparr>MS_SHARED = 1048576, MS_SLAVE = 524288, MS_UNBINDABLE = 131072, MS_PRIVATE = 262144\<rparr>"

theorem overlay_layers_recovered_witness:
  "GetLowerLayers (GetMountOpt list_mapset demo_ms demo_pf
     ((info_of demo_mount)\<lparr>VfsOpts := str_join '','' (overlay_vfs [''/l1'', ''/l2''] ''/u'' ''/w'' [''rw'', ''xino=off''])\<rparr>)) = [''/l1'', ''/l2'']"
proof -
  have "wf_overlay [''/l1'', ''/l2''] ''/u'' ''/w'' [''rw'', ''xino=off'']"
    by (simp add: wf_overlay_def overlay_vfs_def layer_prefixes_def HasPrefix_def)
  then show ?thesis using overlay_layers_recovered [OF list_mapset_law] by simp
qed

end
