(* ===== verification/SysTrace.thy ===== *)
theory SysTrace
  imports GoStrings "HOL-Library.Sublist"
begin

text \<open>
  Functions that make system calls, as computations over the trace of the calls made so far. Whether a
  call fails is up to the environment, which sees the whole trace, so what is proved holds for every
  behaviour of the kernel. A function ends with a value, with an error, or with \<open>os.Exit\<close>; deferred
  calls run at the end unless the process exited.
\<close>

section \<open>Calls and environments\<close>

datatype clone_flag = CLONE_NEWUSER | CLONE_NEWNS | CLONE_NEWIPC

datatype sys_op =
    OpGetwd
  | OpChdir string
  | OpClone "clone_flag list"
  | OpPdeathsig
  | OpExec
  | OpModprobe string
  | OpWriteFile string string
  | OpKill int
  | OpWait int
  | OpSetresuid
  | OpSetresgid
  | OpOpen string
  | OpOpenRW string
  | OpClose string
  | OpCreate string
  | OpRename string string
  | OpRemove string
  | OpMkdirTemp string string
  | OpMkdir string
  | OpChmod string
  | OpRemoveAll string
  | OpReadlink string
  | OpEvalSymlinks string
  | OpOpenTree string
  | OpMountSetattr string
  | OpMount string string string string
  | OpUnmount string
  | OpMoveMount string
  | OpCloseTree

text \<open>Every call with whether it succeeded, oldest first.\<close>

type_synonym trace = "(sys_op \<times> bool) list"

text \<open>
  \<open>fails\<close> gives the error of the next call; the other fields are what successful calls return: the
  working directory, the pid that \<open>clone\<close> returns (0 in the child), a temporary directory, the targets
  of links, real paths, and the exit status of a child that exited.
\<close>

record 'e os =
  fails :: "trace \<Rightarrow> sys_op \<Rightarrow> 'e option"
  os_cwd :: string
  os_pid :: int
  os_tmp :: string
  os_link :: "string \<Rightarrow> string"
  os_real :: "string \<Rightarrow> string"
  os_status :: "int option"

datatype ('e, 'a) outcome = Ret 'a | Err 'e | Exited int

type_synonym ('e, 'a) io = "trace \<Rightarrow> ('e, 'a) outcome \<times> trace"

section \<open>Sequencing\<close>

definition sys :: "'e os \<Rightarrow> sys_op \<Rightarrow> ('e, unit) io" where
  "sys env op tr = (case fails env tr op of
      None \<Rightarrow> (Ret (), tr @ [(op, True)]) | Some e \<Rightarrow> (Err e, tr @ [(op, False)]))"

definition ioReturn :: "'a \<Rightarrow> ('e, 'a) io" where
  "ioReturn a tr = (Ret a, tr)"

definition ioFail :: "'e \<Rightarrow> ('e, 'a) io" where
  "ioFail e tr = (Err e, tr)"

definition ioExit :: "int \<Rightarrow> ('e, 'a) io" where
  "ioExit n tr = (Exited n, tr)"

definition ioBind :: "('e, 'a) io \<Rightarrow> ('a \<Rightarrow> ('e, 'b) io) \<Rightarrow> ('e, 'b) io" where
  "ioBind m f tr = (case m tr of
      (Ret a, tr') \<Rightarrow> f a tr' | (Err e, tr') \<Rightarrow> (Err e, tr') | (Exited n, tr') \<Rightarrow> (Exited n, tr'))"

text \<open>A call whose error is not looked at, and \<open>if err := m; err != nil \{ h; return err \}\<close>.\<close>

definition ioIgnore :: "('e, 'a) io \<Rightarrow> ('e, unit) io" where
  "ioIgnore m tr = (case m tr of (Exited n, tr') \<Rightarrow> (Exited n, tr') | (_, tr') \<Rightarrow> (Ret (), tr'))"

definition ioOnError :: "('e, 'a) io \<Rightarrow> ('e, unit) io \<Rightarrow> ('e, 'a) io" where
  "ioOnError m h tr = (case m tr of
      (Err e, tr') \<Rightarrow> (case h tr' of (Exited n, tr'') \<Rightarrow> (Exited n, tr'') | (_, tr'') \<Rightarrow> (Err e, tr''))
    | r \<Rightarrow> r)"

text \<open>\<open>defer h\<close> in front of the rest \<open>m\<close> of the function.\<close>

definition ioDefer :: "('e, unit) io \<Rightarrow> ('e, 'a) io \<Rightarrow> ('e, 'a) io" where
  "ioDefer h m tr = (case m tr of
      (Exited n, tr') \<Rightarrow> (Exited n, tr')
    | (r, tr') \<Rightarrow> (case h tr' of (Exited n, tr'') \<Rightarrow> (Exited n, tr'') | (_, tr'') \<Rightarrow> (r, tr'')))"

fun ioMap :: "('a \<Rightarrow> ('e, unit) io) \<Rightarrow> 'a list \<Rightarrow> ('e, unit) io" where
  "ioMap f [] = ioReturn ()"
| "ioMap f (x # xs) = ioBind (f x) (\<lambda>_. ioMap f xs)"

lemmas io_defs = sys_def ioReturn_def ioFail_def ioExit_def ioBind_def ioIgnore_def ioOnError_def ioDefer_def

section \<open>Traces only grow\<close>

definition grows :: "('e, 'a) io \<Rightarrow> bool" where
  "grows m \<longleftrightarrow> (\<forall>tr. prefix tr (snd (m tr)))"

named_theorems grow_rules

lemma growsD: "grows m \<Longrightarrow> m tr = (r, tr') \<Longrightarrow> prefix tr tr'"
  unfolding grows_def by (metis snd_conv)

lemma grows_base [grow_rules]: "grows (sys env op)" "grows (ioReturn a)" "grows (ioFail e)" "grows (ioExit n)"
  by (simp_all add: grows_def io_defs split: option.split)

lemma grows_bind [grow_rules]: "grows m \<Longrightarrow> (\<And>a. grows (f a)) \<Longrightarrow> grows (ioBind m f)"
  unfolding grows_def ioBind_def
  by (auto split: prod.split outcome.split) (metis prefix_order.trans snd_conv)+

lemma grows_ignore [grow_rules]: "grows m \<Longrightarrow> grows (ioIgnore m)"
  unfolding grows_def ioIgnore_def by (auto split: prod.split outcome.split) (metis snd_conv)+

lemma grows_on_error [grow_rules]: "grows m \<Longrightarrow> grows h \<Longrightarrow> grows (ioOnError m h)"
  unfolding grows_def ioOnError_def
  by (auto split: prod.split outcome.split) (metis prefix_order.trans snd_conv)+

lemma grows_defer [grow_rules]: "grows h \<Longrightarrow> grows m \<Longrightarrow> grows (ioDefer h m)"
  unfolding grows_def ioDefer_def
  by (auto split: prod.split outcome.split) (metis prefix_order.trans snd_conv)+

lemma grows_map [grow_rules]: "(\<And>x. grows (f x)) \<Longrightarrow> grows (ioMap f xs)"
  by (induction xs) (auto intro: grow_rules)

lemma grows_mem: "grows m \<Longrightarrow> m tr = (r, tr') \<Longrightarrow> x \<in> set tr \<Longrightarrow> x \<in> set tr'"
  using growsD set_mono_prefix by blast

section \<open>Functions that do not exit\<close>

definition quiet :: "('e, 'a) io \<Rightarrow> bool" where
  "quiet m \<longleftrightarrow> (\<forall>tr n. fst (m tr) \<noteq> Exited n)"

named_theorems quiet_rules

lemma quietD: "quiet m \<Longrightarrow> m tr \<noteq> (Exited n, tr')"
  unfolding quiet_def by (metis fst_conv)

lemma quiet_base [quiet_rules]: "quiet (sys env op)" "quiet (ioReturn a)" "quiet (ioFail e)"
  by (simp_all add: quiet_def io_defs split: option.split)

lemma quiet_bind [quiet_rules]: "quiet m \<Longrightarrow> (\<And>a. quiet (f a)) \<Longrightarrow> quiet (ioBind m f)"
  unfolding quiet_def ioBind_def by (auto split: prod.split outcome.split) (metis fst_conv)+

lemma quiet_ignore [quiet_rules]: "quiet m \<Longrightarrow> quiet (ioIgnore m)"
  unfolding quiet_def ioIgnore_def by (auto split: prod.split outcome.split) (metis fst_conv)+

lemma quiet_on_error [quiet_rules]: "quiet m \<Longrightarrow> quiet h \<Longrightarrow> quiet (ioOnError m h)"
  unfolding quiet_def ioOnError_def by (auto split: prod.split outcome.split) (metis fst_conv)+

lemma quiet_defer [quiet_rules]: "quiet h \<Longrightarrow> quiet m \<Longrightarrow> quiet (ioDefer h m)"
  unfolding quiet_def ioDefer_def by (auto split: prod.split outcome.split) (metis fst_conv)+

lemma quiet_map [quiet_rules]: "(\<And>x. quiet (f x)) \<Longrightarrow> quiet (ioMap f xs)"
  by (induction xs) (auto intro: quiet_rules)

text \<open>Without an exit, a deferred call always follows and does not change the result.\<close>

lemma ioDefer_quiet:
  assumes "quiet h" and "quiet m"
  shows "ioDefer h m tr = (fst (m tr), snd (h (snd (m tr))))"
proof -
  obtain q t where m: "m tr = (q, t)" by fastforce
  obtain q2 t2 where h: "h t = (q2, t2)" by fastforce
  have "\<And>n. q \<noteq> Exited n" and "\<And>n. q2 \<noteq> Exited n"
    using assms m h quietD by metis+
  then show ?thesis by (simp add: ioDefer_def m h split: outcome.split)
qed

lemma ioIgnore_sys: "ioIgnore (sys env op) tr = (Ret (), tr @ [(op, fails env tr op = None)])"
  by (simp add: ioIgnore_def sys_def split: option.split)

lemma ioDefer_sys:
  assumes "quiet m"
  shows "ioDefer (ioIgnore (sys env op)) m tr =
    (fst (m tr), snd (m tr) @ [(op, fails env (snd (m tr)) op = None)])"
  using ioDefer_quiet [OF quiet_ignore [OF quiet_base(1)] assms] by (simp add: ioIgnore_sys)

text \<open>The pattern of the checks on the host: what was made is removed by a deferred call, whatever happens in between.\<close>

lemma made_then_removed:
  assumes "ioBind (sys env op) (\<lambda>_. ioDefer (ioIgnore (sys env rm_op)) m) tr = (r, tr')" and "quiet m"
  obtains (failed) e where "r = Err e" "tr' = tr @ [(op, False)]" "fails env tr op = Some e"
  | (made) tr1 b where "m (tr @ [(op, True)]) = (r, tr1)" "tr' = tr1 @ [(rm_op, b)]" "fails env tr op = None"
proof (cases "fails env tr op")
  case None
  obtain q tr1 where "m (tr @ [(op, True)]) = (q, tr1)" by fastforce
  then show ?thesis using made assms None by (auto simp: ioBind_def sys_def ioDefer_sys)
next
  case (Some e)
  then show ?thesis using failed [of e] assms(1) by (auto simp: ioBind_def sys_def)
qed

lemma ioBind_Ret: "m tr = (Ret a, tr') \<Longrightarrow> ioBind m f tr = f a tr'"
  by (simp add: ioBind_def)

lemma ioBind_assoc: "ioBind (ioBind m f) g = ioBind m (\<lambda>a. ioBind (f a) g)"
  by (rule ext) (auto simp: ioBind_def split: prod.split outcome.split)

lemma ioBind_return [simp]: "ioBind (ioReturn a) f = f a"
  by (rule ext) (simp add: ioBind_def ioReturn_def)

text \<open>A call that fails ends the sequence, with its error or with \<open>os.Exit\<close>.\<close>

lemma sys_then:
  assumes "ioBind (sys env op) f tr = (r, tr')"
  obtains (ok) "f () (tr @ [(op, True)]) = (r, tr')" | (bad) e where "r = Err e" "tr' = tr @ [(op, False)]"
  using assms by (auto simp: ioBind_def sys_def split: option.splits)

lemma sys_or_exit:
  assumes "ioBind (ioOnError (sys env op) (ioExit n)) f tr = (r, tr')"
  obtains (ok) "f () (tr @ [(op, True)]) = (r, tr')" | (bad) "r = Exited n" "tr' = tr @ [(op, False)]"
  using assms by (auto simp: ioBind_def ioOnError_def sys_def ioExit_def split: option.splits)

text \<open>A sequence ends in its first part or in its second.\<close>

lemma ioBind_cases:
  assumes "ioBind m f tr = (r, tr')"
  obtains (second) a tr1 where "m tr = (Ret a, tr1)" "f a tr1 = (r, tr')"
  | (failed) e where "m tr = (Err e, tr')" "r = Err e"
  | (exited) n where "m tr = (Exited n, tr')" "r = Exited n"
  using assms by (auto simp: ioBind_def split: prod.splits outcome.splits)

end
