(* ===== verification/UsernsProcess.thy ===== *)
theory UsernsProcess
  imports SysTrace GoScan
begin

text \<open>
  \<open>CreateUsernsProcess\<close> of \<open>linuxUtils/linux.go\<close>: the fork into a new user namespace, the child's wait
  for its ID mappings, the parent's writing of them; and the check of the shm sysctls that uses it.
\<close>

section \<open>ID mappings\<close>

text \<open>\<open>specs.LinuxIDMapping\<close> of the OCI runtime specification.\<close>

record IDMap =
  ContainerID :: "32 word"
  HostID :: "32 word"
  Size :: "32 word"

text \<open>The text of \<open>writeMapping\<close>.\<close>

definition mapping_text :: "IDMap \<Rightarrow> string" where
  "mapping_text m = show_nat (unat (ContainerID m)) @ '' '' @ show_nat (unat (HostID m)) @ '' '' @
     show_nat (unat (Size m)) @ [CHR 0x0A]"

text \<open>
  \<open>strconv.Atoi\<close> with the error dropped: 0 for a syntax error, the nearest \<open>int\<close> for a number out of
  range; then the conversion to \<open>uint32\<close>.
\<close>

definition Atoi_value :: "string \<Rightarrow> int" where
  "Atoi_value s =
    (let neg = (s \<noteq> [] \<and> hd s = CHR ''-'');
         ds = (if s \<noteq> [] \<and> (hd s = CHR ''-'' \<or> hd s = CHR ''+'') then tl s else s)
     in if ds = [] \<or> \<not> list_all is_digit ds then 0
        else if neg then max (- (2 ^ 63)) (- int (dec_value ds)) else min (2 ^ 63 - 1) (int (dec_value ds)))"

text \<open>\<open>readIDMapFile\<close> on what reading the file gives; \<open>None\<close> is either of its errors.\<close>

definition readIDMapFile :: "'e + string \<Rightarrow> IDMap option" where
  "readIDMapFile r = (case r of
      Inl e \<Rightarrow> None
    | Inr text \<Rightarrow>
        let fields = str_fields text
        in if length fields < 3 then None
           else Some \<lparr>ContainerID = word_of_int (Atoi_value (fields ! 0)),
                      HostID = word_of_int (Atoi_value (fields ! 1)),
                      Size = word_of_int (Atoi_value (fields ! 2))\<rparr>)"

section \<open>The child's wait\<close>

text \<open>
  The inner loop over the attempts \<open>i\<close> at one file, where \<open>rd i\<close> is what the read gives; a failed
  read goes on to the next attempt at once, a different mapping after a sleep of 100 ms. The result is
  \<open>foundMapping\<close> and the number of sleeps.
\<close>

fun wait_attempts :: "(nat \<Rightarrow> 'e + string) \<Rightarrow> IDMap \<Rightarrow> nat list \<Rightarrow> bool \<Rightarrow> nat \<Rightarrow> bool \<times> nat" where
  "wait_attempts rd idMap [] foundMapping slept = (foundMapping, slept)"
| "wait_attempts rd idMap (i # is) foundMapping slept =
     (case readIDMapFile (rd i) of
        None \<Rightarrow> wait_attempts rd idMap is foundMapping slept
      | Some m \<Rightarrow>
          if ContainerID m = ContainerID idMap \<and> HostID m = HostID idMap \<and> Size m = Size idMap
          then (True, slept)
          else wait_attempts rd idMap is foundMapping (Suc slept))"

text \<open>The outer loop: \<open>False\<close> is \<open>os.Exit(1)\<close>.\<close>

fun wait_files :: "(string \<Rightarrow> nat \<Rightarrow> 'e + string) \<Rightarrow> IDMap \<Rightarrow> string list \<Rightarrow> bool \<Rightarrow> nat \<Rightarrow> bool \<times> nat" where
  "wait_files rd idMap [] foundMapping slept = (True, slept)"
| "wait_files rd idMap (f # fs) foundMapping slept =
     (case wait_attempts (rd (''/proc/self/'' @ f)) idMap [0..<30] foundMapping slept of
        (found, slept') \<Rightarrow> if \<not> found then (False, slept') else wait_files rd idMap fs found slept')"

definition child_wait :: "(string \<Rightarrow> nat \<Rightarrow> 'e + string) \<Rightarrow> IDMap \<Rightarrow> bool \<times> nat" where
  "child_wait rd idMap = wait_files rd idMap [''uid_map'', ''gid_map''] False 0"

section \<open>The process\<close>

text \<open>
  What runs after the fork in the parent, and in the child too should \<open>execFunc\<close> return: the mappings
  are written for \<open>pid\<close>, and a failure kills \<open>pid\<close>. The value is the pid that is returned.
\<close>

definition write_mappings :: "'e os \<Rightarrow> int \<Rightarrow> IDMap \<Rightarrow> ('e, int) io" where
  "write_mappings env p idMap =
    (let write = (\<lambda>fname. sys env (OpWriteFile (''/proc/'' @ show_int p @ ''/'' @ fname) (mapping_text idMap)));
         kill = ioIgnore (sys env (OpKill p))
     in ioBind (ioOnError (write ''uid_map'') kill) (\<lambda>_.
        ioBind (ioOnError (write ''gid_map'') kill) (\<lambda>_.
        ioReturn p)))"

definition clone_flags :: "bool \<Rightarrow> bool \<Rightarrow> clone_flag list" where
  "clone_flags newMountNs newIpcNs =
    [CLONE_NEWUSER] @ (if newMountNs then [CLONE_NEWNS] else []) @ (if newIpcNs then [CLONE_NEWIPC] else [])"

text \<open>
  The whole function; \<open>os_pid env\<close> is what \<open>clone\<close> returned, so 0 makes it the child's run. \<open>execFunc\<close>
  may end the process or return. \<open>rd\<close> is what the child's reads of its map files give.
\<close>

definition CreateUsernsProcess ::
  "'e os \<Rightarrow> (string \<Rightarrow> nat \<Rightarrow> 'e + string) \<Rightarrow> IDMap \<Rightarrow> ('e, unit) io \<Rightarrow> string \<Rightarrow> bool \<Rightarrow> bool \<Rightarrow> ('e, int) io" where
  "CreateUsernsProcess env rd idMap execFunc cwd newMountNs newIpcNs =
    ioBind (sys env OpGetwd) (\<lambda>_.
    ioBind (sys env (OpChdir cwd)) (\<lambda>_.
    ioDefer (ioIgnore (sys env (OpChdir (os_cwd env))))
      (ioBind (sys env (OpClone (clone_flags newMountNs newIpcNs))) (\<lambda>_.
       ioBind (if os_pid env = 0 then
           ioBind (ioIgnore (sys env OpPdeathsig)) (\<lambda>_.
           if \<not> fst (child_wait rd idMap) then ioExit 1 else execFunc)
         else ioReturn ()) (\<lambda>_.
       write_mappings env (os_pid env) idMap)))))"

section \<open>Round trip of the mappings\<close>

lemma Atoi_value_show: "n < 2 ^ 63 \<Longrightarrow> Atoi_value (show_nat n) = int n"
  using show_nat_hd [of n] digit_not_special [of "hd (show_nat n)"]
  by (auto simp: Atoi_value_def show_nat_is_digits Let_def)

lemma readIDMapFile_text: "readIDMapFile (Inr (mapping_text m)) = Some m"
proof -
  have w: "x \<in> set (show_nat n) \<Longrightarrow> \<not> is_space x" for x n using show_nat_digits digit_not_special by blast
  have sp: "is_space (CHR '' '')" "is_space (CHR 0x0A)" "str_fields [] = []" by (simp_all add: is_space_def)
  have "str_fields (mapping_text m) = [show_nat (unat (ContainerID m)), show_nat (unat (HostID m)), show_nat (unat (Size m))]"
    using sp unfolding mapping_text_def by (simp add: str_fields_append_space w)
  moreover have "unat x < 2 ^ 63" for x :: "32 word" by (rule less_trans [OF unsigned_less]) simp
  ultimately show ?thesis by (simp add: readIDMapFile_def Atoi_value_show)
qed

lemma IDMap_eq: "m = (n :: IDMap) \<longleftrightarrow> ContainerID m = ContainerID n \<and> HostID m = HostID n \<and> Size m = Size n"
  by (cases m; cases n) simp

lemma wait_attempts_found:
  "fst (wait_attempts rd m is found slept) \<longleftrightarrow> found \<or> (\<exists>i \<in> set is. readIDMapFile (rd i) = Some m)"
proof (induction "is" arbitrary: slept)
  case (Cons i "is")
  then show ?case by (cases "readIDMapFile (rd i)") (auto simp: IDMap_eq [symmetric])
qed simp

lemma wait_attempts_unread:
  "(\<And>i. i \<in> set is \<Longrightarrow> readIDMapFile (rd i) = None) \<Longrightarrow> wait_attempts rd m is found slept = (found, slept)"
  by (induction "is") simp_all

text \<open>
  C36. The child goes on exactly when one of its 30 reads of \<open>uid_map\<close> gives the requested mapping: once
  that was found, \<open>gid_map\<close> may be missing or different.
\<close>

theorem child_wait_ignores_gid_map:
  "fst (child_wait rd m) \<longleftrightarrow> (\<exists>i < 30. readIDMapFile (rd ''/proc/self/uid_map'' i) = Some m)"
proof -
  obtain f s where "wait_attempts (rd ''/proc/self/uid_map'') m [0..<30] False 0 = (f, s)" by fastforce
  moreover from this have "f \<longleftrightarrow> (\<exists>i < 30. readIDMapFile (rd ''/proc/self/uid_map'' i) = Some m)"
    using wait_attempts_found [of "rd ''/proc/self/uid_map''" m "[0..<30]" False 0] by auto
  moreover have "fst (wait_attempts (rd ''/proc/self/gid_map'') m [0..<30] True s)" by (simp add: wait_attempts_found)
  ultimately show ?thesis by (auto simp: child_wait_def split: prod.split)
qed

text \<open>
  C37. The wait for the mappings is no wait while the map file is still empty, as it is until the
  parent writes it: 30 reads that fail or have fewer than three fields end in \<open>os.Exit(1)\<close> without a
  single sleep, instead of the three seconds the comment promises.
\<close>

theorem child_wait_empty_no_sleep:
  assumes "\<And>i. i < 30 \<Longrightarrow> case rd ''/proc/self/uid_map'' i of Inl e \<Rightarrow> True | Inr text \<Rightarrow> length (str_fields text) < 3"
  shows "child_wait rd m = (False, 0)"
proof -
  have "readIDMapFile (rd ''/proc/self/uid_map'' i) = None" if "i < 30" for i
    using assms [OF that] by (auto simp: readIDMapFile_def Let_def split: sum.splits)
  then have "wait_attempts (rd ''/proc/self/uid_map'') m [0..<30] False 0 = (False, 0)"
    by (intro wait_attempts_unread) simp
  then show ?thesis by (simp add: child_wait_def)
qed

theorem child_wait_empty_no_sleep_witness:
  "child_wait (\<lambda>_ _. Inr [] :: unit + string) \<lparr>ContainerID = 0, HostID = 165536, Size = 65536\<rparr> = (False, 0)"
  by (rule child_wait_empty_no_sleep) simp

section \<open>What the caller can rely on\<close>

lemma grows_write_mappings [grow_rules]: "grows (write_mappings env p idMap)"
  unfolding write_mappings_def Let_def by (intro grow_rules)

text \<open>The outcomes of writing the mappings.\<close>

lemma write_mappings_cases:
  assumes "write_mappings env p m tr = (r, tr')"
  shows "r = Ret p \<and> tr' = tr @ [(OpWriteFile (''/proc/'' @ show_int p @ ''/uid_map'') (mapping_text m), True),
        (OpWriteFile (''/proc/'' @ show_int p @ ''/gid_map'') (mapping_text m), True)] \<or>
    (\<exists>e. r = Err e) \<and> (\<exists>b. (OpKill p, b) \<in> set tr') \<and>
      (\<forall>q b. (OpWait q, b) \<in> set tr' \<longrightarrow> (OpWait q, b) \<in> set tr)"
  using assms by (auto simp: write_mappings_def io_defs Let_def split: option.splits)

text \<open>
  C25. \<open>CreateUsernsProcess\<close> in the parent: it never exits; once the working directory was changed, the last
  call changes it back; when it returns a pid, that is the pid of the child and both map files have been
  written with the requested mapping, which reads back as itself; when it returns an error after the
  fork, the child has been sent the kill signal; but it has not been waited for, nor does the caller get
  its pid, so it stays a zombie.
\<close>

theorem CreateUsernsProcess_parent:
  assumes "os_pid env \<noteq> 0"
    and "CreateUsernsProcess env rd m execFunc cwd mnt ipc [] = (r, tr)"
  shows "(\<forall>n. r \<noteq> Exited n) \<and>
    ((OpChdir cwd, True) \<in> set tr \<longrightarrow> fst (last tr) = OpChdir (os_cwd env)) \<and>
    (\<forall>p. r = Ret p \<longrightarrow> p = os_pid env \<and>
       (\<forall>f \<in> {''uid_map'', ''gid_map''}. (OpWriteFile (''/proc/'' @ show_int p @ ''/'' @ f) (mapping_text m), True) \<in> set tr)) \<and>
    readIDMapFile (Inr (mapping_text m) :: 'e + string) = Some m \<and>
    (\<forall>e. r = Err e \<and> (OpClone (clone_flags mnt ipc), True) \<in> set tr \<longrightarrow>
       (\<exists>b. (OpKill (os_pid env), b) \<in> set tr) \<and> (\<forall>b. (OpWait (os_pid env), b) \<notin> set tr))"
proof (cases "fails env [] OpGetwd \<noteq> None \<or> fails env [(OpGetwd, True)] (OpChdir cwd) \<noteq> None
    \<or> fails env [(OpGetwd, True), (OpChdir cwd, True)] (OpClone (clone_flags mnt ipc)) \<noteq> None")
  case True
  then show ?thesis using assms
    by (auto simp: CreateUsernsProcess_def io_defs readIDMapFile_text split: option.splits)
next
  case False
  let ?tr0 = "[(OpGetwd, True), (OpChdir cwd, True), (OpClone (clone_flags mnt ipc), True)]"
  obtain r1 tr1 where w: "write_mappings env (os_pid env) m ?tr0 = (r1, tr1)" by fastforce
  have "\<exists>b. tr = tr1 @ [(OpChdir (os_cwd env), b)] \<and> r = r1"
    using assms False w write_mappings_cases [OF w]
    by (auto simp: CreateUsernsProcess_def io_defs split: option.splits)
  then show ?thesis using write_mappings_cases [OF w] by (auto simp: readIDMapFile_text)
qed

section \<open>A function that returns in the child\<close>

text \<open>
  If the function given to \<open>CreateUsernsProcess\<close> returns instead of exiting, the child goes on with the
  parent's part of the code with pid 0: it tries to write \<open>/proc/0/uid_map\<close>, and when that fails it sends
  the kill signal to pid 0, which is its whole process group.
\<close>

theorem child_falls_through:
  assumes "os_pid env = 0" and "fst (child_wait rd m)"
    and "\<And>tr op. fails env tr op = (case op of OpWriteFile f t \<Rightarrow> Some e | _ \<Rightarrow> None)"
  shows "(OpKill 0, True) \<in> set (snd (CreateUsernsProcess env rd m (sys env OpExec) cwd mnt ipc [])) \<and>
    fst (CreateUsernsProcess env rd m (sys env OpExec) cwd mnt ipc []) = Err e"
  using assms(1,2) by (simp add: CreateUsernsProcess_def write_mappings_def Let_def io_defs assms(3))

section \<open>Shm sysctls\<close>

definition shm_sysctls :: "string list" where
  "shm_sysctls = [''/proc/sys/kernel/shmmni'', ''/proc/sys/kernel/shmmax'', ''/proc/sys/kernel/shmall'']"

text \<open>\<open>execFunc\<close>: what the child does, ending in \<open>os.Exit\<close> on every path.\<close>

definition shm_try :: "'e os \<Rightarrow> string \<Rightarrow> ('e, unit) io" where
  "shm_try env f = ioBind (ioOnError (sys env (OpOpenRW f)) (ioExit 2)) (\<lambda>_. ioIgnore (sys env (OpClose f)))"

definition shm_exec :: "'e os \<Rightarrow> ('e, unit) io" where
  "shm_exec env =
    ioBind (ioOnError (sys env OpSetresuid) (ioExit 1)) (\<lambda>_.
    ioBind (ioOnError (sys env OpSetresgid) (ioExit 1)) (\<lambda>_.
    ioBind (ioMap (shm_try env) shm_sysctls) (\<lambda>_.
    ioExit 0)))"

definition shm_idmap :: IDMap where
  "shm_idmap = \<lparr>ContainerID = 0, HostID = 165536, Size = 65536\<rparr>"

text \<open>The parent; \<open>not_exited\<close> is the error for a child that did not exit normally.\<close>

definition ShmSysctlUserNamespaced :: "'e os \<Rightarrow> (string \<Rightarrow> nat \<Rightarrow> 'e + string) \<Rightarrow> 'e \<Rightarrow> ('e, bool) io" where
  "ShmSysctlUserNamespaced env rd not_exited =
    ioBind (sys env OpGetwd) (\<lambda>_.
    ioBind (CreateUsernsProcess env rd shm_idmap (shm_exec env) (os_cwd env) True True) (\<lambda>p.
    ioBind (sys env (OpWait p)) (\<lambda>_.
    case os_status env of
      None \<Rightarrow> ioFail not_exited
    | Some exitStatus \<Rightarrow> if exitStatus \<noteq> 0 then ioReturn False else ioReturn True)))"

text \<open>No call but \<open>Close\<close> failed.\<close>

definition no_failure :: "trace \<Rightarrow> bool" where
  "no_failure tr \<longleftrightarrow> list_all (\<lambda>(op, ok). ok \<or> (\<exists>f. op = OpClose f)) tr"

lemma no_failure_simps [simp]: "no_failure []" "no_failure (tr @ [(op, ok)]) \<longleftrightarrow> no_failure tr \<and> (ok \<or> (\<exists>f. op = OpClose f))"
  by (simp_all add: no_failure_def)

lemma shm_try_cases:
  "shm_try env f tr = (r, tr') \<Longrightarrow> no_failure tr \<Longrightarrow>
     r = Ret () \<and> no_failure tr' \<and> (OpOpenRW f, True) \<in> set tr' \<or> r = Exited 2 \<and> \<not> no_failure tr'"
  by (auto simp: shm_try_def io_defs simp flip: append_assoc split: option.splits)

lemma grows_shm_try [grow_rules]: "grows (shm_try env f)"
  unfolding shm_try_def by (intro grow_rules)

lemma shm_tries_cases:
  "ioMap (shm_try env) fs tr = (r, tr') \<Longrightarrow> no_failure tr \<Longrightarrow>
     r = Ret () \<and> no_failure tr' \<and> (\<forall>f \<in> set fs. (OpOpenRW f, True) \<in> set tr') \<or> r = Exited 2 \<and> \<not> no_failure tr'"
proof (induction fs arbitrary: tr)
  case (Cons f fs)
  obtain r1 tr1 where t: "shm_try env f tr = (r1, tr1)" by fastforce
  from shm_try_cases [OF this Cons.prems(2)] show ?case
  proof
    assume ok: "r1 = Ret () \<and> no_failure tr1 \<and> (OpOpenRW f, True) \<in> set tr1"
    then have rest: "ioMap (shm_try env) fs tr1 = (r, tr')" using Cons.prems(1) t by (simp add: ioBind_def)
    moreover have "(OpOpenRW f, True) \<in> set tr'"
      using ok grows_mem [of "ioMap (shm_try env) fs" tr1 r tr'] rest by (auto intro: grow_rules)
    ultimately show ?thesis using Cons.IH [of tr1] ok by auto
  qed (use Cons.prems(1) t in \<open>auto simp: ioBind_def\<close>)
qed (simp add: ioReturn_def)

lemma shm_exec_cases:
  assumes "shm_exec env [] = (r, tr)"
  shows "r \<in> {Exited 0, Exited 1, Exited 2} \<and> (r = Exited 0 \<longleftrightarrow> no_failure tr) \<and>
   (r = Exited 0 \<longrightarrow> (\<forall>f \<in> set shm_sysctls. (OpOpenRW f, True) \<in> set tr))"
proof -
  obtain r1 tr1 where t: "ioMap (shm_try env) shm_sysctls [(OpSetresuid, True), (OpSetresgid, True)] = (r1, tr1)" by fastforce
  have "no_failure [(OpSetresuid, True), (OpSetresgid, True)]" by (simp add: no_failure_def)
  from shm_tries_cases [OF t this] show ?thesis
    using assms t by (auto simp: shm_exec_def io_defs no_failure_def split: option.splits)
qed

text \<open>
  The child of the shm check always ends in \<open>os.Exit\<close>, with status 0, 1 or 2; with 0 exactly when no
  call but closing failed, and then it has opened all three sysctls for writing; and the parent
  reports support exactly for the status 0 of a child that exited.
\<close>

theorem shm_check_sound:
  assumes "ShmSysctlUserNamespaced env rd ne [] = (Ret supported, tr)" and "shm_exec cenv [] = (r, ctr)"
  shows "(supported \<longleftrightarrow> os_status env = Some 0) \<and> r \<in> {Exited 0, Exited 1, Exited 2} \<and>
    (r = Exited 0 \<longleftrightarrow> no_failure ctr) \<and>
    (r = Exited 0 \<longrightarrow> (\<forall>f \<in> set shm_sysctls. (OpOpenRW f, True) \<in> set ctr))"
proof -
  have "supported \<longleftrightarrow> os_status env = Some 0"
    using assms(1) by (auto simp: ShmSysctlUserNamespaced_def ioBind_def ioReturn_def ioFail_def
        split: prod.splits outcome.splits option.splits if_splits)
  then show ?thesis using shm_exec_cases [OF assms(2)] by blast
qed

section \<open>Witnesses\<close>

definition demo_os :: "int \<Rightarrow> unit os" where
  "demo_os p = \<lparr>fails = (\<lambda>_ _. None), os_cwd = ''/'', os_pid = p, os_tmp = ''/tmp/x'', os_link = (\<lambda>f. f),
     os_real = (\<lambda>f. f), os_status = Some 0\<rparr>"

definition demo_idmap :: IDMap where
  "demo_idmap = \<lparr>ContainerID = 0, HostID = 165536, Size = 65536\<rparr>"

lemma demo_os_simps [simp]:
  "fails (demo_os p) tr op = None" "os_pid (demo_os p) = p" "os_cwd (demo_os p) = ''/''" "os_status (demo_os p) = Some 0"
  "os_tmp (demo_os p) = ''/tmp/x''" "os_link (demo_os p) f = f" "os_real (demo_os p) f = f"
  by (simp_all add: demo_os_def)

theorem CreateUsernsProcess_parent_witness:
  "\<exists>r tr. CreateUsernsProcess (demo_os 42) (\<lambda>_ _. Inl ()) demo_idmap (ioExit 0) ''/tmp'' True False [] = (r, tr) \<and>
     r = Ret 42 \<and> fst (last tr) = OpChdir ''/''"
proof -
  obtain r tr where run: "CreateUsernsProcess (demo_os 42) (\<lambda>_ _. Inl ()) demo_idmap (ioExit 0) ''/tmp'' True False [] = (r, tr)"
    by fastforce
  then have "r = Ret 42" and "(OpChdir ''/tmp'', True) \<in> set tr"
    by (auto simp: CreateUsernsProcess_def write_mappings_def io_defs Let_def)
  then show ?thesis using CreateUsernsProcess_parent [OF _ run] run by auto
qed

theorem child_falls_through_witness:
  "(OpKill 0, True) \<in> set (snd (CreateUsernsProcess ((demo_os 0)\<lparr>fails := \<lambda>_ op. case op of OpWriteFile f t \<Rightarrow> Some () | _ \<Rightarrow> None\<rparr>)
     (\<lambda>_ _. Inr (mapping_text demo_idmap)) demo_idmap
     (sys ((demo_os 0)\<lparr>fails := \<lambda>_ op. case op of OpWriteFile f t \<Rightarrow> Some () | _ \<Rightarrow> None\<rparr>) OpExec) ''/tmp'' True False []))"
proof -
  have "fst (child_wait (\<lambda>_ _. Inr (mapping_text demo_idmap) :: unit + string) demo_idmap)"
    by (simp add: child_wait_def readIDMapFile_text upt_conv_Cons)
  then show ?thesis
    using child_falls_through [of "(demo_os 0)\<lparr>fails := \<lambda>_ op. case op of OpWriteFile f t \<Rightarrow> Some () | _ \<Rightarrow> None\<rparr>"
        "\<lambda>_ _. Inr (mapping_text demo_idmap)" demo_idmap "()"] by simp
qed

theorem shm_check_sound_witness:
  "\<exists>tr ctr. ShmSysctlUserNamespaced (demo_os 42) (\<lambda>_ _. Inl ()) () [] = (Ret True, tr) \<and>
     shm_exec (demo_os 0) [] = (Exited 0, ctr) \<and> no_failure ctr"
proof -
  obtain b tr where run: "ShmSysctlUserNamespaced (demo_os 42) (\<lambda>_ _. Inl ()) () [] = (Ret b, tr)"
    by (auto simp: ShmSysctlUserNamespaced_def CreateUsernsProcess_def write_mappings_def io_defs Let_def)
  obtain r ctr where child: "shm_exec (demo_os 0) [] = (r, ctr)" by fastforce
  then have "r = Exited 0" by (simp add: shm_exec_def shm_try_def shm_sysctls_def io_defs)
  then show ?thesis using shm_check_sound [OF run child] run child by auto
qed

end
