(* ===== verification/GoFilepath.thy ===== *)
theory GoFilepath
  imports GoStrings
begin

text \<open>
  Go's \<open>path/filepath\<close> on Unix, as far as the repository calls it: \<open>Clean\<close>, \<open>Join\<close>,
  \<open>Base\<close> and \<open>Dir\<close>, which work on the text of a path only.
\<close>

text \<open>\<open>Clean\<close>: one component after the other, onto a stack of the components kept.\<close>

definition clean_step :: "bool \<Rightarrow> string \<Rightarrow> string list \<Rightarrow> string list" where
  "clean_step rooted c st =
    (if c = [] \<or> c = ''.'' then st
     else if c = ''..'' then
       (case st of
          [] \<Rightarrow> if rooted then [] else [''..'']
        | t # ts \<Rightarrow> if t = ''..'' then ''..'' # st else ts)
     else c # st)"

definition Clean :: "string \<Rightarrow> string" where
  "Clean p =
    (let rooted = (p \<noteq> [] \<and> hd p = CHR ''/'');
         out = (if rooted then ''/'' else []) @ str_join ''/'' (rev (fold (clean_step rooted) (split_on (CHR ''/'') p) []))
     in if out = [] then ''.'' else out)"

definition Join :: "string list \<Rightarrow> string" where
  "Join elems = (case dropWhile (\<lambda>e. e = []) elems of [] \<Rightarrow> [] | es \<Rightarrow> Clean (str_join ''/'' es))"

definition last_component :: "string \<Rightarrow> string" where
  "last_component p = last (split_on (CHR ''/'') p)"

definition Base :: "string \<Rightarrow> string" where
  "Base p =
    (if p = [] then ''.''
     else let q = rev (dropWhile (\<lambda>c. c = CHR ''/'') (rev p))
          in if last_component q = [] then ''/'' else last_component q)"

definition Dir :: "string \<Rightarrow> string" where
  "Dir p = Clean (take (length p - length (last_component p)) p)"

section \<open>Absolute paths in normal form\<close>

definition plain_comp :: "string \<Rightarrow> bool" where
  "plain_comp c \<longleftrightarrow> c \<noteq> [] \<and> c \<noteq> ''.'' \<and> c \<noteq> ''..'' \<and> CHR ''/'' \<notin> set c"

definition abs_path :: "string list \<Rightarrow> string" where
  "abs_path cs = concat (map (\<lambda>c. CHR ''/'' # c) cs)"

lemma abs_path_simps [simp]:
  "abs_path [] = []" "abs_path (c # cs) = CHR ''/'' # c @ abs_path cs" "abs_path (as @ bs) = abs_path as @ abs_path bs"
  by (simp_all add: abs_path_def)

lemma split_abs_path: "list_all (\<lambda>c. CHR ''/'' \<notin> set c) cs \<Longrightarrow> split_on (CHR ''/'') (abs_path cs) = [] # cs"
proof (induction cs)
  case (Cons c cs)
  show ?case
  proof (cases cs)
    case Nil
    then show ?thesis using Cons by (simp add: split_on_id)
  next
    case (Cons d ds)
    have "split_on (CHR ''/'') (c @ CHR ''/'' # (d @ abs_path ds)) = c # split_on (CHR ''/'') (d @ abs_path ds)"
      using Cons.prems by (intro split_on_append_sep) simp
    moreover have "[] # split_on (CHR ''/'') (d @ abs_path ds) = [] # cs"
      using Cons.IH Cons.prems \<open>cs = d # ds\<close> by simp
    ultimately show ?thesis using \<open>cs = d # ds\<close> by simp
  qed
qed simp

lemma str_join_abs_path: "CHR ''/'' # str_join ''/'' (c # cs) = abs_path (c # cs)"
  by (induction cs arbitrary: c) simp_all

lemma fold_clean_plain: "list_all plain_comp cs \<Longrightarrow> fold (clean_step r) cs st = rev cs @ st"
  by (induction cs arbitrary: st) (simp_all add: clean_step_def plain_comp_def)

lemma Clean_abs_path: "list_all plain_comp cs \<Longrightarrow> cs \<noteq> [] \<Longrightarrow> Clean (abs_path cs) = abs_path cs"
proof -
  assume p: "list_all plain_comp cs" and "cs \<noteq> []"
  then obtain d ds where cs: "cs = d # ds" by (cases cs) auto
  have "split_on (CHR ''/'') (abs_path cs) = [] # cs"
    using p by (intro split_abs_path) (auto simp: list_all_iff plain_comp_def)
  moreover have "clean_step True [] [] = []" by (simp add: clean_step_def)
  ultimately have "rev (fold (clean_step True) (split_on (CHR ''/'') (abs_path cs)) []) = cs"
    using fold_clean_plain [OF p, of True "[]"] by simp
  then show ?thesis using str_join_abs_path [of d ds] by (simp add: Clean_def cs)
qed

lemma Join_abs_path:
  assumes "list_all plain_comp cs" and "cs \<noteq> []" and "list_all plain_comp ds"
  shows "Join (abs_path cs # ds) = abs_path (cs @ ds)"
proof -
  have "abs_path cs \<noteq> []" using assms(2) by (cases cs) simp_all
  moreover have "str_join ''/'' (abs_path cs # ds) = abs_path (cs @ ds)"
    using str_join_abs_path by (cases ds) (simp_all add: str_join_Cons)
  ultimately show ?thesis
    using Clean_abs_path [of "cs @ ds"] assms by (simp add: Join_def)
qed

end
