(* ===== verification/LinuxUtils.thy ===== *)
theory LinuxUtils
  imports GoFilepath GoScan SysTrace
begin

text \<open>
  The queries of \<open>linuxUtils/linux.go\<close>: the distribution from the \<open>os-release\<close> files, the kernel
  release and its comparison, header paths and kernel modules, with \<open>checkKernelVersion\<close> of
  \<open>idMap/helpers.go\<close>. Files and \<open>uname\<close> are arguments.
\<close>

section \<open>Distribution\<close>

text \<open>
  A line of \<open>os-release\<close>; the empty string means that it has no ID. The value is sliced only when it
  contains a double quote, so the slices are in range.
\<close>

definition unquote :: "string \<Rightarrow> string" where
  "unquote value =
    (if ContainsAny value [CHR 0x22] then
       let first = take 1 value; last_c = drop (length value - 1) value
       in if first = last_c \<and> ContainsAny first [CHR 0x22, CHR 0x27]
          then TrimSuffix (TrimSuffix (TrimPrefix (TrimPrefix value [CHR 0x27]) [CHR 0x22]) [CHR 0x27]) [CHR 0x22]
          else value
     else value)"

definition unescape :: "string \<Rightarrow> string" where
  "unescape value =
    ReplaceAll (ReplaceAll (ReplaceAll (ReplaceAll value
      [CHR 0x5C, CHR 0x22] [CHR 0x22]) [CHR 0x5C, CHR 0x24] [CHR 0x24])
      [CHR 0x5C, CHR 0x5C] [CHR 0x5C]) [CHR 0x5C, CHR 0x60] [CHR 0x60]"

definition parseLineDistroId :: "string \<Rightarrow> string" where
  "parseLineDistroId line =
    (if line = [] then []
     else if hd line = CHR ''#'' then []
     else
       let splitString = split_first (CHR ''='') line
       in if length splitString \<noteq> 2 then []
          else if str_trim (\<lambda>c. c = CHR '' '') (splitString ! 0) \<noteq> ''ID'' then []
          else unescape (unquote (str_trim (\<lambda>c. c = CHR '' '') (splitString ! 1))))"

text \<open>
  The loop over the two files: an error is remembered and the next file tried; a readable file without
  ID leaves \<open>err\<close> at nil. \<open>Inl None\<close> of the last case is the empty string with no error.
\<close>

fun first_distro :: "string list \<Rightarrow> string option" where
  "first_distro [] = None"
| "first_distro (line # lines) =
     (let distro = parseLineDistroId line in if distro \<noteq> [] then Some distro else first_distro lines)"

fun distro_loop :: "(string \<Rightarrow> 'e + string) \<Rightarrow> string list \<Rightarrow> 'e option \<Rightarrow> string \<times> 'e option" where
  "distro_loop read_file [] err = ([], err)"
| "distro_loop read_file (file # files) err =
     (case read_file file of
        Inl e \<Rightarrow> distro_loop read_file files (Some e)
      | Inr data \<Rightarrow>
          (case first_distro (split_on (CHR 0x0A) data) of
             Some distro \<Rightarrow> (distro, None)
           | None \<Rightarrow> distro_loop read_file files None))"

definition GetDistroPath :: "(string \<Rightarrow> 'e + string) \<Rightarrow> string \<Rightarrow> string \<times> 'e option" where
  "GetDistroPath read_file rootfs =
    distro_loop read_file [Join [rootfs, ''/etc/os-release''], Join [rootfs, ''/usr/lib/os-release'']] None"

definition GetDistro :: "(string \<Rightarrow> 'e + string) \<Rightarrow> string \<times> 'e option" where
  "GetDistro read_file =
    (case GetDistroPath read_file ''/'' of (distro, err) \<Rightarrow> if err \<noteq> None then ([], err) else (distro, None))"

section \<open>Kernel release and version\<close>

datatype 'e kernel_err = UnameFailed 'e | ParseFailed string

text \<open>\<open>uname\<close> fills an array of bytes; without a zero byte the slice panics.\<close>

definition GetKernelRelease :: "'e + string \<Rightarrow> ('e kernel_err + string) go" where
  "GetKernelRelease uname = (case uname of
      Inl e \<Rightarrow> Inr (Inl (UnameFailed e))
    | Inr release \<Rightarrow>
        if CHR 0x00 \<notin> set release then Inl SliceBoundsOutOfRange
        else Inr (Inr (takeWhile (\<lambda>c. c \<noteq> CHR 0x00) release)))"

definition ParseKernelRelease :: "string \<Rightarrow> 'e kernel_err + int \<times> int" where
  "ParseKernelRelease rel =
    (let splits = split_on (CHR ''.'') rel
     in if length splits < 2 then Inl (ParseFailed rel)
        else case Atoi (splits ! 0) of
            None \<Rightarrow> Inl (ParseFailed rel)
          | Some major \<Rightarrow>
              (case Atoi (splits ! 1) of
                 None \<Rightarrow> Inl (ParseFailed rel)
               | Some minor \<Rightarrow> Inr (major, minor)))"

text \<open>The comparison of \<open>KernelCurrentVersionCmp\<close>, behind its own copy of the parser.\<close>

definition version_cmp :: "int \<Rightarrow> int \<Rightarrow> int \<Rightarrow> int \<Rightarrow> int" where
  "version_cmp k1Major k1Minor k2Major k2Minor =
    (if k2Major > k1Major then 1
     else if k2Major = k1Major then
       (if k2Minor > k1Minor then 1 else if k2Minor = k1Minor then 0 else -1)
     else -1)"

definition KernelCurrentVersionCmp :: "'e + string \<Rightarrow> int \<Rightarrow> int \<Rightarrow> ('e kernel_err + int) go" where
  "KernelCurrentVersionCmp uname k1Major k1Minor =
    bindE (GetKernelRelease uname) (\<lambda>r. case r of
      Inl e \<Rightarrow> Inr (Inl e)
    | Inr rel \<Rightarrow>
        let splits = split_on (CHR ''.'') rel
        in if length splits < 2 then Inr (Inl (ParseFailed rel))
           else case Atoi (splits ! 0) of
               None \<Rightarrow> Inr (Inl (ParseFailed rel))
             | Some k2Major \<Rightarrow>
                 (case Atoi (splits ! 1) of
                    None \<Rightarrow> Inr (Inl (ParseFailed rel))
                  | Some k2Minor \<Rightarrow> Inr (Inr (version_cmp k1Major k1Minor k2Major k2Minor))))"

text \<open>\<open>checkKernelVersion\<close> of \<open>idMap/helpers.go\<close>.\<close>

definition checkKernelVersion :: "'e + string \<Rightarrow> int \<Rightarrow> int \<Rightarrow> ('e kernel_err + bool) go" where
  "checkKernelVersion uname reqMaj reqMin =
    bindE (GetKernelRelease uname) (\<lambda>r. case r of
      Inl e \<Rightarrow> Inr (Inl e)
    | Inr rel \<Rightarrow>
        (case ParseKernelRelease rel of
           Inl e \<Rightarrow> Inr (Inl e)
         | Inr (major, minor) \<Rightarrow>
             Inr (Inr (if major < reqMaj then False else if major = reqMaj \<and> minor < reqMin then False else True))))"

definition BinfmtMiscNamespacingSupported :: "'e + string \<Rightarrow> ('e kernel_err + bool) go" where
  "BinfmtMiscNamespacingSupported uname =
    bindE (KernelCurrentVersionCmp uname 6 7) (\<lambda>r. case r of
      Inl e \<Rightarrow> Inr (Inl e) | Inr cmp \<Rightarrow> Inr (Inr (cmp \<ge> 0)))"

section \<open>Kernel headers and modules\<close>

definition header_path :: "string \<Rightarrow> string \<Rightarrow> string" where
  "header_path distro kernelRel =
    (if distro = ''redhat'' \<or> distro = ''centos'' \<or> distro = ''rocky'' \<or> distro = ''almalinux'' \<or>
        distro = ''fedora'' \<or> distro = ''amzn''
     then Join [''/usr/src/kernels'', kernelRel]
     else if distro = ''arch'' \<or> distro = ''flatcar'' then Join [''/lib/modules'', kernelRel, ''build'']
     else Join [''/usr/src'', ''linux-headers-'' @ kernelRel])"

definition GetLinuxHeaderPath :: "'e + string \<Rightarrow> string \<Rightarrow> ('e kernel_err + string) go" where
  "GetLinuxHeaderPath uname distro =
    mapE (\<lambda>r. case r of Inl e \<Rightarrow> Inl e | Inr kernelRel \<Rightarrow> Inr (header_path distro kernelRel)) (GetKernelRelease uname)"

text \<open>
  The scan of \<open>/proc/modules\<close>: \<open>modules\<close> is what opening and reading it gives. A read error, or a line too long for
  the scanner, shows after the loop.
\<close>

datatype 'e scan_err = ScanRead 'e | TokenTooLong

definition scanner_err :: "string \<Rightarrow> 'e option \<Rightarrow> 'e scan_err option" where
  "scanner_err content read_err =
    (if list_ex (\<lambda>l. length l \<ge> 65536) (split_on (CHR 0x0A) content) then Some TokenTooLong
     else map_option ScanRead read_err)"

definition module_listed :: "'e + string \<times> 'e option \<Rightarrow> string \<Rightarrow> 'e scan_err + bool" where
  "module_listed modules mod_name = (case modules of
      Inl e \<Rightarrow> Inl (ScanRead e)
    | Inr (content, read_err) \<Rightarrow>
        if list_ex (\<lambda>(l, _). str_contains l mod_name) (scanner_tokens content read_err) then Inr True
        else case scanner_err content read_err of Some e \<Rightarrow> Inl e | None \<Rightarrow> Inr False)"

text \<open>The module is loaded first, and whether that worked is not looked at; \<open>modules\<close> is the list after it.\<close>

definition KernelModSupported ::
  "'e os \<Rightarrow> 'f + string \<times> 'f option \<Rightarrow> string \<Rightarrow> ('e, 'f scan_err + bool) io" where
  "KernelModSupported env modules mod_name =
    ioBind (ioIgnore (sys env (OpModprobe mod_name))) (\<lambda>_. ioReturn (module_listed modules mod_name))"

lemma KernelModSupported_run:
  "KernelModSupported env modules m tr =
    (Ret (module_listed modules m), tr @ [(OpModprobe m, fails env tr (OpModprobe m) = None)])"
  by (simp add: KernelModSupported_def ioBind_def ioIgnore_sys ioReturn_def)

lemma KernelModSupported_rules [grow_rules, quiet_rules]:
  "grows (KernelModSupported env modules m)" "quiet (KernelModSupported env modules m)"
  by (simp_all add: KernelModSupported_run grows_def quiet_def)

section \<open>Versions as an order\<close>

text \<open>Kernel versions, ordered by major and then by minor number.\<close>

datatype kversion = KVersion (kmajor: int) (kminor: int)

instantiation kversion :: linorder
begin

definition less_eq_kversion :: "kversion \<Rightarrow> kversion \<Rightarrow> bool" where
  "less_eq_kversion v w \<longleftrightarrow> kmajor v < kmajor w \<or> kmajor v = kmajor w \<and> kminor v \<le> kminor w"

definition less_kversion :: "kversion \<Rightarrow> kversion \<Rightarrow> bool" where
  "less_kversion v w \<longleftrightarrow> kmajor v < kmajor w \<or> kmajor v = kmajor w \<and> kminor v < kminor w"

instance
  by standard (auto simp: less_eq_kversion_def less_kversion_def intro: kversion.expand)

end

lemmas kversion_order = less_eq_kversion_def less_kversion_def

lemma version_cmp_sgn:
  "version_cmp a b c d = (if KVersion a b < KVersion c d then 1 else if KVersion a b = KVersion c d then 0 else -1)"
  by (auto simp: version_cmp_def kversion_order)

lemma KernelCurrentVersionCmp_eq:
  "KernelCurrentVersionCmp uname a b = bindE (GetKernelRelease uname) (\<lambda>r. case r of
     Inl e \<Rightarrow> Inr (Inl e)
   | Inr rel \<Rightarrow> Inr (mapE (\<lambda>(c, d). version_cmp a b c d) (ParseKernelRelease rel)))"
  by (cases "GetKernelRelease uname")
    (auto simp: KernelCurrentVersionCmp_def ParseKernelRelease_def Let_def split: sum.split option.split)

text \<open>
  The two version checks of the repository agree: on every kernel \<open>checkKernelVersion\<close> fails
  exactly when \<open>KernelCurrentVersionCmp\<close> does, with the same error, and otherwise accepts exactly when
  the comparison is not negative.
\<close>

theorem version_checks_agree:
  "checkKernelVersion uname a b =
     mapE (mapE (\<lambda>cmp. cmp \<ge> 0)) (KernelCurrentVersionCmp uname a b)"
  by (cases "GetKernelRelease uname")
    (auto simp: KernelCurrentVersionCmp_eq checkKernelVersion_def version_cmp_def split: sum.split prod.split)

text \<open>A release string as \<open>uname\<close> returns it, in an array of 65 bytes.\<close>

definition uname_bytes :: "string \<Rightarrow> string" where
  "uname_bytes rel = rel @ replicate (65 - length rel) (CHR 0x00)"

lemma GetKernelRelease_bytes:
  assumes "CHR 0x00 \<notin> set rel" and "length rel < 65"
  shows "GetKernelRelease (Inr (uname_bytes rel)) = Inr (Inr rel)"
proof -
  have "replicate (65 - length rel) (CHR 0x00) = CHR 0x00 # replicate (64 - length rel) (CHR 0x00)"
    using assms(2) by (metis Suc_diff_le diff_Suc_Suc eval_nat_numeral(3) less_Suc_eq_le replicate_Suc semiring_norm(26,27,28))
  then show ?thesis
    using assms(1) by (auto simp: GetKernelRelease_def uname_bytes_def takeWhile_append)
qed

lemma digits_no_char:
  "\<not> is_digit c \<Longrightarrow> c \<notin> set (show_nat n)"
  using show_nat_digits by blast

lemma ParseKernelRelease_show:
  assumes "maj < 2 ^ 63" and "mnr < 2 ^ 63" and "tl_s = [] \<or> hd tl_s = CHR ''.''"
  shows "ParseKernelRelease (show_nat maj @ ''.'' @ show_nat mnr @ tl_s) = Inr (int maj, int mnr)"
proof -
  have dot: "CHR ''.'' \<notin> set (show_nat n)" for n by (rule digits_no_char) (simp add: is_digit_def)
  obtain rest where "split_on (CHR ''.'') (show_nat mnr @ tl_s) = show_nat mnr # rest"
    using assms(3) dot by (cases tl_s) (simp_all add: split_on_id split_on_append_sep)
  then have "split_on (CHR ''.'') (show_nat maj @ ''.'' @ show_nat mnr @ tl_s) = show_nat maj # show_nat mnr # rest"
    using dot by (simp add: split_on_append_sep)
  then show ?thesis using assms(1,2) by (simp add: ParseKernelRelease_def Atoi_show_nat)
qed

text \<open>
  On a kernel whose release is "major.minor", alone or followed by a dot and anything,
  \<open>KernelCurrentVersionCmp\<close> compares the running version with the given one in the
  lexicographic order of versions.
\<close>

theorem KernelCurrentVersionCmp_order:
  assumes "maj < 2 ^ 63" and "mnr < 2 ^ 63" and "tl_s = [] \<or> hd tl_s = CHR ''.''"
    and "CHR 0x00 \<notin> set tl_s" and "length (show_nat maj @ ''.'' @ show_nat mnr @ tl_s) < 65"
  shows "KernelCurrentVersionCmp (Inr (uname_bytes (show_nat maj @ ''.'' @ show_nat mnr @ tl_s))) a b =
    Inr (Inr (if KVersion a b < KVersion (int maj) (int mnr) then 1
              else if KVersion a b = KVersion (int maj) (int mnr) then 0 else -1))"
proof -
  have "CHR 0x00 \<notin> set (show_nat n)" for n by (rule digits_no_char) (simp add: is_digit_def)
  then have rel: "GetKernelRelease (Inr (uname_bytes (show_nat maj @ ''.'' @ show_nat mnr @ tl_s))) =
      Inr (Inr (show_nat maj @ ''.'' @ show_nat mnr @ tl_s))"
    using assms(4,5) by (intro GetKernelRelease_bytes) simp_all
  show ?thesis
    by (simp only: KernelCurrentVersionCmp_eq rel bindE_simps sum.case ParseKernelRelease_show [OF assms(1-3)]
        mapE_simps prod.case version_cmp_sgn)
qed

theorem KernelCurrentVersionCmp_order_witness:
  "KernelCurrentVersionCmp (Inr (uname_bytes (show_nat 6 @ ''.'' @ show_nat 5 @ ''.0-41-generic'')) :: unit + string) 6 7 = Inr (Inr (-1))"
proof -
  have "length (show_nat 6) = 1" "length (show_nat 5) = 1" by (simp_all add: show_nat.simps)
  then show ?thesis
    using KernelCurrentVersionCmp_order [of 6 5 "''.0-41-generic''" 6 7] by (simp add: kversion_order)
qed

section \<open>The distribution ID\<close>

lemma ReplaceAll_id: "old \<noteq> [] \<Longrightarrow> hd old \<notin> set s \<Longrightarrow> ReplaceAll s old new = s"
proof (induction s)
  case (Cons c s)
  then have "\<not> HasPrefix (c # s) old" by (cases old) (auto simp: HasPrefix_def)
  then show ?case using Cons by simp
qed simp

lemma unescape_id: "CHR 0x5C \<notin> set s \<Longrightarrow> unescape s = s"
  by (simp add: unescape_def ReplaceAll_id)

text \<open>A name without blanks, quotes, backslashes.\<close>

definition plain_name :: "string \<Rightarrow> bool" where
  "plain_name v \<longleftrightarrow> v \<noteq> [] \<and> list_all (\<lambda>c. c \<notin> {CHR '' '', CHR 0x22, CHR 0x27, CHR 0x5C}) v"

lemma parse_id_line:
  assumes "value \<noteq> []" and "hd value \<noteq> CHR '' ''" and "last value \<noteq> CHR '' ''"
  shows "parseLineDistroId (''ID='' @ value) = unescape (unquote value)"
proof -
  have "split_first (CHR ''='') (''ID'' @ CHR ''='' # value) = [''ID'', value]" by (rule split_first_append) simp
  moreover have "str_trim (\<lambda>c. c = CHR '' '') value = value" using assms by (intro str_trim_id) simp_all
  moreover have "str_trim (\<lambda>c. c = CHR '' '') ''ID'' = ''ID''" by (intro str_trim_id) simp_all
  ultimately show ?thesis by (simp add: parseLineDistroId_def)
qed

lemma plain_name_not:
  "plain_name v \<Longrightarrow> c \<in> {CHR '' '', CHR 0x22, CHR 0x27, CHR 0x5C} \<Longrightarrow> c \<notin> set v"
  by (auto simp: plain_name_def list_all_iff)

lemma unquote_cases:
  assumes "plain_name v"
  shows "unquote v = v" and "unquote ([CHR 0x22] @ v @ [CHR 0x22]) = v"
    and "unquote ([CHR 0x27] @ v @ [CHR 0x27]) = [CHR 0x27] @ v @ [CHR 0x27]"
proof -
  have q: "CHR 0x22 \<notin> set v" "CHR 0x27 \<notin> set v" using plain_name_not [OF assms] by auto
  have nc: "\<not> ContainsAny w [CHR 0x22]" if "CHR 0x22 \<notin> set w" for w
    using that by (auto simp: ContainsAny_def list_ex_iff)
  show "unquote v = v" and "unquote ([CHR 0x27] @ v @ [CHR 0x27]) = [CHR 0x27] @ v @ [CHR 0x27]"
    using q by (simp_all add: unquote_def nc)
  obtain c w where v: "v = c # w" using assms by (cases v) (auto simp: plain_name_def)
  have "HasSuffix (v @ [CHR 0x22]) [CHR 0x22]" and "\<not> HasSuffix (v @ [CHR 0x22]) [CHR 0x27]"
    by (simp_all add: HasSuffix_def)
  then show "unquote ([CHR 0x22] @ v @ [CHR 0x22]) = v"
    by (simp add: unquote_def ContainsAny_def TrimPrefix_def TrimSuffix_def HasPrefix_def)
qed

text \<open>
  A line \<open>ID=name\<close> or \<open>ID="name"\<close> of \<open>os-release\<close> yields the name; a line \<open>ID='name'\<close>, which
  os-release(5) allows as well, yields the name with its quotes.
\<close>

theorem parseLineDistroId_quotes:
  assumes "plain_name v"
  shows "parseLineDistroId (''ID='' @ v) = v \<and>
    parseLineDistroId (''ID='' @ [CHR 0x22] @ v @ [CHR 0x22]) = v \<and>
    parseLineDistroId (''ID='' @ [CHR 0x27] @ v @ [CHR 0x27]) = [CHR 0x27] @ v @ [CHR 0x27]"
proof -
  have n: "v \<noteq> []" "CHR '' '' \<notin> set v" "CHR 0x5C \<notin> set v"
    using plain_name_not [OF assms] assms by (auto simp: plain_name_def)
  then have "hd v \<noteq> CHR '' ''" "last v \<noteq> CHR '' ''" by (metis hd_in_set last_in_set)+
  then have "parseLineDistroId (''ID='' @ v) = v"
    using n parse_id_line [of v] by (simp only: unquote_cases [OF assms]) (simp add: unescape_id)
  moreover have "parseLineDistroId (''ID='' @ ([CHR 0x22] @ v @ [CHR 0x22])) = v"
    using n parse_id_line [of "[CHR 0x22] @ v @ [CHR 0x22]"] by (simp only: unquote_cases [OF assms]) (simp add: unescape_id)
  moreover have "parseLineDistroId (''ID='' @ ([CHR 0x27] @ v @ [CHR 0x27])) = unescape ([CHR 0x27] @ v @ [CHR 0x27])"
    using n parse_id_line [of "[CHR 0x27] @ v @ [CHR 0x27]"] by (simp only: unquote_cases [OF assms]) simp
  moreover have "unescape ([CHR 0x27] @ v @ [CHR 0x27]) = [CHR 0x27] @ v @ [CHR 0x27]"
    using n by (intro unescape_id) simp
  ultimately show ?thesis by (metis append.assoc)
qed

theorem parseLineDistroId_quotes_witness:
  "parseLineDistroId (''ID='' @ [CHR 0x27] @ ''ubuntu'' @ [CHR 0x27]) = [CHR 0x27] @ ''ubuntu'' @ [CHR 0x27]"
  using parseLineDistroId_quotes [of "''ubuntu''"] by (simp add: plain_name_def)

section \<open>Module lookup\<close>

text \<open>
  \<open>KernelModSupported\<close> makes one call, to load the module, and on a readable module list its answer, whether the call worked or
  not, is whether the name occurs anywhere in some line, so a name that is part of another module's name or of a dependency list
  counts as loaded.
\<close>

theorem KernelModSupported_substring:
  assumes "list_all plain_line ls"
  shows "KernelModSupported env (Inr (unlines ls, None :: 'e option)) m tr =
    (Ret (Inr (\<exists>l \<in> set ls. \<exists>a b. l = a @ m @ b)), tr @ [(OpModprobe m, fails env tr (OpModprobe m) = None)])"
proof -
  have "split_on (CHR 0x0A) (unlines ls) = ls @ [[]]"
    unfolding unlines_def using assms by (intro split_on_lines) (auto simp: list_all_iff plain_line_def)
  then have "scanner_err (unlines ls) (None :: 'e option) = None"
    using assms by (auto simp: scanner_err_def list_ex_iff list_all_iff plain_line_def)
  moreover have "list_ex (\<lambda>(l, _). str_contains l m) (scanner_tokens (unlines ls) (None :: 'e option)) \<longleftrightarrow>
      (\<exists>l \<in> set ls. \<exists>a b. l = a @ m @ b)"
    by (simp add: scanner_tokens_unlines [OF assms] list_ex_iff str_contains_iff)
  ultimately show ?thesis by (simp add: KernelModSupported_run module_listed_def)
qed

theorem KernelModSupported_substring_witness:
  "fst (KernelModSupported \<lparr>fails = (\<lambda>_ _. Some ()), os_cwd = [], os_pid = 7, os_tmp = [], os_link = (\<lambda>f. f), os_real = (\<lambda>f. f),
     os_status = None\<rparr> (Inr (unlines [''overlay 1 0 - Live''], None :: unit option)) ''lay'' []) = Ret (Inr True)"
proof -
  have p: "list_all plain_line [''overlay 1 0 - Live'']" by (simp add: plain_line_def)
  show ?thesis by (simp add: KernelModSupported_substring [OF p] exI [of _ "''over''"])
qed

end
