(* ===== verification/IdMapMount.thy ===== *)
theory IdMapMount
  imports UsernsProcess LinuxUtils
begin

text \<open>
  ID-mapped mounts, \<open>idMap/idMapMount.go\<close>: the mount itself, the check on the host that makes one in a
  temporary directory, and the decision by path.
\<close>

section \<open>The mount\<close>

text \<open>Opening a tree gives a descriptor that the function has to close itself.\<close>

definition IDMapMount :: "'e os \<Rightarrow> string \<Rightarrow> string \<Rightarrow> bool \<Rightarrow> ('e, unit) io" where
  "IDMapMount env usernsPath mountPath unmountFirst =
    ioBind (sys env (OpOpen usernsPath)) (\<lambda>_.
    ioDefer (ioIgnore (sys env (OpClose usernsPath)))
      (ioBind
        (if HasPrefix mountPath ''/proc/self/fd/''
         then ioBind (sys env (OpReadlink mountPath)) (\<lambda>_. ioReturn (os_link env mountPath))
         else ioBind (sys env (OpEvalSymlinks mountPath)) (\<lambda>_. ioReturn (os_real env mountPath))) (\<lambda>mountPath.
       ioBind (sys env (OpOpenTree mountPath)) (\<lambda>_.
       ioBind (sys env (OpMountSetattr usernsPath)) (\<lambda>_.
       ioBind (if unmountFirst then sys env (OpUnmount mountPath) else ioReturn ()) (\<lambda>_.
       ioBind (sys env (OpMoveMount mountPath)) (\<lambda>_.
       ioIgnore (sys env OpCloseTree))))))))"

section \<open>The check on the host\<close>

definition check_idmap :: IDMap where
  "check_idmap = \<lparr>ContainerID = 0, HostID = 0, Size = 1\<rparr>"

text \<open>\<open>rd\<close> and \<open>pause\<close> only matter in the child.\<close>

definition runIDMapMountCheckOnHost ::
  "'e os \<Rightarrow> (string \<Rightarrow> nat \<Rightarrow> 'e + string) \<Rightarrow> ('e, unit) io \<Rightarrow> string \<Rightarrow> bool \<Rightarrow> ('e, bool) io" where
  "runIDMapMountCheckOnHost env rd pause dir checkOnOverlayfs =
    (let tmpDir = os_tmp env;
         testDir = Join [tmpDir, ''merged''];
         lowerDir = Join [tmpDir, ''lower''];
         upperDir = Join [tmpDir, ''upper''];
         workDir = Join [tmpDir, ''work''];
         idMapDir = (if checkOnOverlayfs then lowerDir else testDir);
         opts = ''lowerdir='' @ lowerDir @ '',upperdir='' @ upperDir @ '',workdir='' @ workDir
     in ioBind (sys env (OpMkdirTemp dir ''sysbox-ovfs-check'')) (\<lambda>_.
        ioDefer (ioIgnore (sys env (OpRemoveAll tmpDir)))
          (ioBind (sys env (OpMkdir testDir)) (\<lambda>_.
           ioBind (if checkOnOverlayfs then ioMap (\<lambda>d. sys env (OpMkdir d)) [lowerDir, upperDir, workDir] else ioReturn ()) (\<lambda>_.
           ioBind (CreateUsernsProcess env rd check_idmap pause testDir False False) (\<lambda>p.
           ioDefer (ioBind (ioIgnore (sys env (OpKill p))) (\<lambda>_. ioIgnore (sys env (OpWait p))))
             (ioBind (IDMapMount env (''/proc/'' @ show_int p @ ''/ns/user'') idMapDir False) (\<lambda>_.
              ioDefer (ioIgnore (sys env (OpUnmount idMapDir)))
                (if checkOnOverlayfs then
                   ioBind (sys env (OpMount ''overlay'' testDir ''overlay'' opts)) (\<lambda>_.
                   ioBind (ioIgnore (sys env (OpUnmount testDir))) (\<lambda>_.
                   ioReturn True))
                 else ioReturn True)))))))))"

datatype 'e check_err = KernelErr "'e kernel_err" | SysErr 'e

definition ioMapErr :: "('e \<Rightarrow> 'f) \<Rightarrow> ('e, 'a) io \<Rightarrow> ('f, 'a) io" where
  "ioMapErr g m tr = (case m tr of
      (Ret a, tr') \<Rightarrow> (Ret a, tr') | (Err e, tr') \<Rightarrow> (Err (g e), tr') | (Exited n, tr') \<Rightarrow> (Exited n, tr'))"

text \<open>The two public checks: the kernel version first, then the experiment.\<close>

definition supported_since ::
  "'e + string \<Rightarrow> int \<Rightarrow> int \<Rightarrow> ('e, bool) io \<Rightarrow> ('e check_err, bool) io go" where
  "supported_since uname reqMaj reqMin check =
    mapE (\<lambda>r. case r of
        Inl e \<Rightarrow> ioFail (KernelErr e)
      | Inr kernelOK \<Rightarrow> if \<not> kernelOK then ioReturn False else ioMapErr SysErr check)
      (checkKernelVersion uname reqMaj reqMin)"

definition IDMapMountSupported ::
  "'e os \<Rightarrow> (string \<Rightarrow> nat \<Rightarrow> 'e + string) \<Rightarrow> ('e, unit) io \<Rightarrow> 'e + string \<Rightarrow> string \<Rightarrow> ('e check_err, bool) io go" where
  "IDMapMountSupported env rd pause uname dir =
    supported_since uname 5 12 (runIDMapMountCheckOnHost env rd pause dir False)"

definition OverlayfsOnIDMapMountSupported ::
  "'e os \<Rightarrow> (string \<Rightarrow> nat \<Rightarrow> 'e + string) \<Rightarrow> ('e, unit) io \<Rightarrow> 'e + string \<Rightarrow> string \<Rightarrow> ('e check_err, bool) io go" where
  "OverlayfsOnIDMapMountSupported env rd pause uname dir =
    supported_since uname 5 19 (runIDMapMountCheckOnHost env rd pause dir True)"

section \<open>The decision by path\<close>

text \<open>
  The magic numbers of overlayfs and tmpfs are those of the \<open>unix\<close> package; \<open>statfs\<close> gives the type of
  the file system below a path.
\<close>

definition idMapMountFsBlackList :: "int \<Rightarrow> int list" where
  "idMapMountFsBlackList overlay_magic = [overlay_magic, 0x65735546, 0x6a656a63]"

definition idMapMountDevBlackList :: "string list" where
  "idMapMountDevBlackList = [''/dev/null'']"

definition IDMapMountSupportedOnPath ::
  "int \<Rightarrow> int \<Rightarrow> (string \<Rightarrow> 'e + int) \<Rightarrow> 'e + string \<Rightarrow> string \<Rightarrow> ('e check_err + bool) go" where
  "IDMapMountSupportedOnPath overlay_magic tmpfs_magic statfs uname p =
    (if list_ex (\<lambda>m. p = m) idMapMountDevBlackList then Inr (Inr False)
     else case statfs p of
         Inl e \<Rightarrow> Inr (Inl (SysErr e))
       | Inr fs_type \<Rightarrow>
           if list_ex (\<lambda>name. fs_type = name) (idMapMountFsBlackList overlay_magic) then Inr (Inr False)
           else if fs_type = tmpfs_magic then
             mapE (\<lambda>r. case r of Inl e \<Rightarrow> Inl (KernelErr e) | Inr cmp \<Rightarrow> Inr (\<not> cmp < 0))
               (KernelCurrentVersionCmp uname 6 3)
           else Inr (Inr True))"

section \<open>Properties\<close>

lemma IDMapMount_grows [grow_rules]: "grows (IDMapMount env u m f)"
  unfolding IDMapMount_def by (auto intro!: grow_rules)

lemma CreateUsernsProcess_grows [grow_rules]:
  "grows execFunc \<Longrightarrow> grows (CreateUsernsProcess env rd m execFunc cwd mnt ipc)"
  unfolding CreateUsernsProcess_def by (auto intro!: grow_rules)

text \<open>
  C27. \<open>IDMapMount\<close> closes the user namespace file whenever it opened it, as its last call. The
  descriptor of the cloned mount tree is closed exactly on success: every error after the clone leaks
  it. A success has attached the mapped clone to the resolved path; with \<open>unmountFirst\<close>, a failure to
  attach leaves the original mount unmounted.
\<close>

theorem IDMapMount_effects:
  assumes "IDMapMount env u m unmountFirst [] = (r, tr)"
    and "real = (if HasPrefix m ''/proc/self/fd/'' then os_link env m else os_real env m)"
  shows "((OpOpen u, True) \<in> set tr \<longrightarrow> fst (last tr) = OpClose u) \<and>
    ((OpOpenTree real, True) \<in> set tr \<longrightarrow> ((\<exists>b. (OpCloseTree, b) \<in> set tr) \<longleftrightarrow> r = Ret ())) \<and>
    (r = Ret () \<longrightarrow> {(OpOpenTree real, True), (OpMountSetattr u, True), (OpMoveMount real, True)} \<subseteq> set tr \<and>
       (unmountFirst \<longrightarrow> (OpUnmount real, True) \<in> set tr)) \<and>
    (unmountFirst \<and> (OpMoveMount real, False) \<in> set tr \<longrightarrow>
       (OpUnmount real, True) \<in> set tr \<and> (\<exists>e. r = Err e))"
  using assms
  by (cases unmountFirst; cases "HasPrefix m ''/proc/self/fd/''")
    (auto simp: IDMapMount_def io_defs split: option.splits)

lemma IDMapMount_quiet [quiet_rules]: "quiet (IDMapMount env u m f)"
  unfolding IDMapMount_def by (auto intro!: quiet_rules)

lemma CreateUsernsProcess_quiet [quiet_rules]:
  "os_pid env \<noteq> 0 \<Longrightarrow> quiet (CreateUsernsProcess env rd m ex cwd mnt ipc)"
  unfolding CreateUsernsProcess_def write_mappings_def Let_def by (auto intro!: quiet_rules)

lemma CreateUsernsProcess_pid:
  assumes "os_pid env \<noteq> 0" and "CreateUsernsProcess env rd m ex cwd mnt ipc tr = (Ret p, tr')"
  shows "p = os_pid env"
  using assms by (auto simp: CreateUsernsProcess_def write_mappings_def io_defs Let_def split: option.splits)

text \<open>The part of the check that runs once the child is there, without and with its deferred calls.\<close>

definition check_mounts :: "'e os \<Rightarrow> string \<Rightarrow> string \<Rightarrow> string \<Rightarrow> bool \<Rightarrow> int \<Rightarrow> ('e, bool) io" where
  "check_mounts env testDir idMapDir opts overlay p =
    ioBind (IDMapMount env (''/proc/'' @ show_int p @ ''/ns/user'') idMapDir False) (\<lambda>_.
    ioDefer (ioIgnore (sys env (OpUnmount idMapDir)))
      (if overlay then
         ioBind (sys env (OpMount ''overlay'' testDir ''overlay'' opts)) (\<lambda>_.
         ioBind (ioIgnore (sys env (OpUnmount testDir))) (\<lambda>_.
         ioReturn True))
       else ioReturn True))"

definition check_with_child :: "'e os \<Rightarrow> string \<Rightarrow> string \<Rightarrow> string \<Rightarrow> bool \<Rightarrow> int \<Rightarrow> ('e, bool) io" where
  "check_with_child env testDir idMapDir opts overlay p =
    ioDefer (ioBind (ioIgnore (sys env (OpKill p))) (\<lambda>_. ioIgnore (sys env (OpWait p))))
      (check_mounts env testDir idMapDir opts overlay p)"

lemma check_mounts_quiet [quiet_rules]: "quiet (check_mounts env testDir idMapDir opts overlay p)"
  unfolding check_mounts_def by (auto intro!: quiet_rules)

lemma check_with_child_quiet [quiet_rules]: "quiet (check_with_child env testDir idMapDir opts overlay p)"
  unfolding check_with_child_def by (auto intro!: quiet_rules)

lemma check_mounts_unmounts:
  assumes "check_mounts env testDir idMapDir opts overlay p tr = (Ret b, tr')"
  shows "\<exists>tr1 b0. tr' = tr1 @ [(OpUnmount idMapDir, b0)]"
  using assms unfolding check_mounts_def
  by (cases rule: ioBind_cases) (auto simp: ioDefer_quiet quiet_rules ioIgnore_sys)

lemma check_with_child_trace:
  assumes "check_with_child env testDir idMapDir opts overlay p tr = (r, tr')"
  shows "\<exists>tr1 b1 b2. tr' = tr1 @ [(OpKill p, b1), (OpWait p, b2)] \<and>
    (\<forall>b. r = Ret b \<longrightarrow> (\<exists>tr2 b0. tr1 = tr2 @ [(OpUnmount idMapDir, b0)]))"
proof -
  obtain q tr1 where q: "check_mounts env testDir idMapDir opts overlay p tr = (q, tr1)" by fastforce
  have t: "q = r" "\<exists>b1 b2. tr' = tr1 @ [(OpKill p, b1), (OpWait p, b2)]"
    using assms q by (auto simp: check_with_child_def ioDefer_quiet quiet_rules ioBind_def ioIgnore_sys)
  have "\<exists>tr2 b0. tr1 = tr2 @ [(OpUnmount idMapDir, b0)]" if "r = Ret b" for b
    using check_mounts_unmounts [of env testDir idMapDir opts overlay p tr b tr1] q t(1) that by simp
  then show ?thesis using t(2) by auto
qed



text \<open>
  \<open>IDMapMountSupportedOnPath\<close> says yes exactly for a path other than \<open>/dev/null\<close> on a file system
  that is not overlayfs, FUSE or fakeowner and, if it is tmpfs, on a kernel from 6.3 on.
\<close>

theorem supported_on_path_iff:
  assumes "tmpfs \<notin> set (idMapMountFsBlackList ovl)" and "statfs p = Inr fs_type"
    and "GetKernelRelease uname = Inr (Inr rel)" and "ParseKernelRelease rel = (Inr (maj, mnr) :: 'e kernel_err + int \<times> int)"
  shows "IDMapMountSupportedOnPath ovl tmpfs statfs (uname :: 'e + string) p = Inr (Inr
    (p \<noteq> ''/dev/null'' \<and> fs_type \<notin> {ovl, 0x65735546, 0x6a656a63} \<and>
     (fs_type = tmpfs \<longrightarrow> KVersion 6 3 \<le> KVersion maj mnr)))"
  using assms
  by (auto simp: IDMapMountSupportedOnPath_def idMapMountDevBlackList_def idMapMountFsBlackList_def
      KernelCurrentVersionCmp_eq version_cmp_def kversion_order)

theorem supported_on_path_iff_witness:
  "IDMapMountSupportedOnPath 0x794c7630 0x01021994 (\<lambda>_. Inr 0x01021994) (Inr (uname_bytes ''6.1.0'') :: unit + string) ''/run'' =
     Inr (Inr False)"
proof -
  have "GetKernelRelease (Inr (uname_bytes ''6.1.0'') :: unit + string) = Inr (Inr ''6.1.0'')"
    by (rule GetKernelRelease_bytes) simp_all
  moreover have "ParseKernelRelease ''6.1.0'' = (Inr (6, 1) :: unit kernel_err + int \<times> int)"
    by (simp add: ParseKernelRelease_def Atoi_def is_digit_def dec_value_def digit_val_def)
  ultimately show ?thesis
    using supported_on_path_iff [of "0x01021994" "0x794c7630" "\<lambda>_. Inr 0x01021994" "''/run''" "0x01021994"
        "Inr (uname_bytes ''6.1.0'')" "''6.1.0''" 6 1]
    by (simp add: idMapMountFsBlackList_def kversion_order)
qed

theorem IDMapMount_effects_witness:
  "\<exists>tr. IDMapMount ((demo_os 42)\<lparr>fails := \<lambda>_ op. case op of OpMoveMount f \<Rightarrow> Some () | _ \<Rightarrow> None\<rparr>) ''/proc/42/ns/user'' ''/a'' True [] = (Err (), tr) \<and>
     (\<forall>b. (OpCloseTree, b) \<notin> set tr) \<and> (OpUnmount ''/a'', True) \<in> set tr"
proof -
  let ?env = "(demo_os 42)\<lparr>fails := \<lambda>_ op. case op of OpMoveMount f \<Rightarrow> Some () | _ \<Rightarrow> None\<rparr>"
  obtain r tr where run: "IDMapMount ?env ''/proc/42/ns/user'' ''/a'' True [] = (r, tr)" by fastforce
  then have "r = Err ()" and "(OpOpenTree ''/a'', True) \<in> set tr" and "(OpMoveMount ''/a'', False) \<in> set tr"
    by (auto simp: IDMapMount_def io_defs HasPrefix_def)
  then show ?thesis using IDMapMount_effects [OF run refl] run by (auto simp: HasPrefix_def)
qed

end
