(* ===== verification/FsNames.thy ===== *)
theory FsNames
  imports Prelude
begin

text \<open>
  \<open>GetFsName\<close> of \<open>utils/fs.go\<close>: the name of the file system a path lies on, by its magic number. The numbers of the
  \<open>unix\<close> package are an argument, \<open>magic\<close>; \<open>statfs\<close> is what the system call gives.
\<close>

datatype unix_magic =
    AAFS_MAGIC
  | ADFS_SUPER_MAGIC
  | AFFS_SUPER_MAGIC
  | AFS_FS_MAGIC
  | AFS_SUPER_MAGIC
  | ANON_INODE_FS_MAGIC
  | AUTOFS_SUPER_MAGIC
  | BDEVFS_MAGIC
  | BINDERFS_SUPER_MAGIC
  | BINFMTFS_MAGIC
  | BPF_FS_MAGIC
  | BTRFS_SUPER_MAGIC
  | BTRFS_TEST_MAGIC
  | CRAMFS_MAGIC
  | DAXFS_MAGIC
  | DEBUGFS_MAGIC
  | ECRYPTFS_SUPER_MAGIC
  | EFIVARFS_MAGIC
  | EFS_SUPER_MAGIC
  | EROFS_SUPER_MAGIC_V1
  | EXT4_SUPER_MAGIC
  | F2FS_SUPER_MAGIC
  | FUTEXFS_SUPER_MAGIC
  | HOSTFS_SUPER_MAGIC
  | HPFS_SUPER_MAGIC
  | HUGETLBFS_MAGIC
  | ISOFS_SUPER_MAGIC
  | JFFS2_SUPER_MAGIC
  | MTD_INODE_FS_MAGIC
  | NFS_SUPER_MAGIC
  | NILFS_SUPER_MAGIC
  | NSFS_MAGIC
  | OCFS2_SUPER_MAGIC
  | OVERLAYFS_SUPER_MAGIC
  | PIPEFS_MAGIC
  | PSTOREFS_MAGIC
  | RAMFS_MAGIC
  | REISERFS_SUPER_MAGIC
  | SECURITYFS_MAGIC
  | SOCKFS_MAGIC
  | SQUASHFS_MAGIC
  | SYSFS_MAGIC
  | TMPFS_MAGIC
  | TRACEFS_MAGIC
  | V9FS_MAGIC
  | XENFS_SUPER_MAGIC
  | XFS_SUPER_MAGIC
  | ZONEFS_MAGIC

text \<open>The table, a Go map literal: its keys are distinct, or it would not compile.\<close>

definition unixFsNameTable :: "(unix_magic \<Rightarrow> int) \<Rightarrow> (int \<times> string) list" where
  "unixFsNameTable magic =
    [(magic AAFS_MAGIC, ''aafs''),
     (magic ADFS_SUPER_MAGIC, ''adfs''),
     (magic AFFS_SUPER_MAGIC, ''affs''),
     (magic AFS_FS_MAGIC, ''afs''),
     (magic AFS_SUPER_MAGIC, ''afs''),
     (magic ANON_INODE_FS_MAGIC, ''anon''),
     (magic AUTOFS_SUPER_MAGIC, ''autofs''),
     (magic BDEVFS_MAGIC, ''bdevfs''),
     (magic BINDERFS_SUPER_MAGIC, ''binderfs''),
     (magic BINFMTFS_MAGIC, ''binfmtfs''),
     (magic BPF_FS_MAGIC, ''bpf fs''),
     (magic BTRFS_SUPER_MAGIC, ''btrfs''),
     (magic BTRFS_TEST_MAGIC, ''btrfs''),
     (magic CRAMFS_MAGIC, ''cramfs''),
     (magic DAXFS_MAGIC, ''daxfs''),
     (magic DEBUGFS_MAGIC, ''debugfs''),
     (magic ECRYPTFS_SUPER_MAGIC, ''encryptfs''),
     (magic EFIVARFS_MAGIC, ''efivarfs''),
     (magic EFS_SUPER_MAGIC, ''efs''),
     (magic EROFS_SUPER_MAGIC_V1, ''erofs''),
     (magic EXT4_SUPER_MAGIC, ''ext4''),
     (magic F2FS_SUPER_MAGIC, ''f2fs''),
     (magic FUTEXFS_SUPER_MAGIC, ''futexfs''),
     (magic HOSTFS_SUPER_MAGIC, ''hostfs''),
     (magic HPFS_SUPER_MAGIC, ''hpfs''),
     (magic HUGETLBFS_MAGIC, ''hugetlbfs''),
     (magic ISOFS_SUPER_MAGIC, ''isofs''),
     (magic JFFS2_SUPER_MAGIC, ''jffs2''),
     (magic MTD_INODE_FS_MAGIC, ''mtd''),
     (magic NFS_SUPER_MAGIC, ''nfs''),
     (magic NILFS_SUPER_MAGIC, ''nilfs''),
     (magic NSFS_MAGIC, ''nsfs''),
     (magic OCFS2_SUPER_MAGIC, ''ocfs2''),
     (magic OVERLAYFS_SUPER_MAGIC, ''overlayfs''),
     (magic PIPEFS_MAGIC, ''pipefs''),
     (magic PSTOREFS_MAGIC, ''pstorefs''),
     (magic RAMFS_MAGIC, ''ramfs''),
     (magic REISERFS_SUPER_MAGIC, ''reiserfs''),
     (magic SECURITYFS_MAGIC, ''securityfs''),
     (magic SOCKFS_MAGIC, ''sockfs''),
     (magic SQUASHFS_MAGIC, ''squashfs''),
     (magic SYSFS_MAGIC, ''sysfs''),
     (magic TMPFS_MAGIC, ''tmpfs''),
     (magic TRACEFS_MAGIC, ''tracefs''),
     (magic V9FS_MAGIC, ''v9fs''),
     (magic XENFS_SUPER_MAGIC, ''xenfs''),
     (magic XFS_SUPER_MAGIC, ''xfs''),
     (magic ZONEFS_MAGIC, ''zonefs''),
     (0x65735546, ''fuse''),
     (0x6a656a62, ''shiftfs''),
     (0x6a656a63, ''fakeowner'')]"

datatype 'e fsname_err = StatfsErr 'e | UnknownFs

text \<open>The name is returned beside an error too.\<close>

definition GetFsName :: "(unix_magic \<Rightarrow> int) \<Rightarrow> (string \<Rightarrow> 'e + int) \<Rightarrow> string \<Rightarrow> string \<times> 'e fsname_err option" where
  "GetFsName magic statfs path = (case statfs path of
      Inl e \<Rightarrow> ([], Some (StatfsErr e))
    | Inr fs_type \<Rightarrow>
        (case map_of (unixFsNameTable magic) fs_type of
           None \<Rightarrow> (''unknown fs'', Some UnknownFs)
         | Some name \<Rightarrow> (name, None)))"

text \<open>
  With distinct magic numbers \<open>GetFsName\<close> names a file system exactly when its type is a key of the table, and with the name
  the table has for it; so overlayfs, tmpfs and the three numbers that the package lacks get their names, and any other type gives
  the text \<open>unknown fs\<close> and an error.
\<close>

theorem GetFsName_exact:
  assumes "distinct (map fst (unixFsNameTable magic))" and "statfs path = Inr t"
  shows "(\<forall>name. GetFsName magic statfs path = (name, None) \<longleftrightarrow> (t, name) \<in> set (unixFsNameTable magic)) \<and>
    (t \<notin> fst ` set (unixFsNameTable magic) \<longrightarrow> GetFsName magic statfs path = (''unknown fs'', Some UnknownFs)) \<and>
    (t = magic OVERLAYFS_SUPER_MAGIC \<longrightarrow> GetFsName magic statfs path = (''overlayfs'', None)) \<and>
    (t = magic TMPFS_MAGIC \<longrightarrow> GetFsName magic statfs path = (''tmpfs'', None)) \<and>
    (t = 0x6a656a62 \<longrightarrow> GetFsName magic statfs path = (''shiftfs'', None))"
proof -
  have known: "GetFsName magic statfs path = (name, None) \<longleftrightarrow> (t, name) \<in> set (unixFsNameTable magic)" for name
    using assms(2) by (simp add: GetFsName_def flip: map_of_eq_Some_iff [OF assms(1)] split: option.split)
  have "t \<notin> fst ` set (unixFsNameTable magic) \<Longrightarrow> map_of (unixFsNameTable magic) t = None"
    by (simp only: map_of_eq_None_iff not_False_eq_True)
  then have "t \<notin> fst ` set (unixFsNameTable magic) \<longrightarrow> GetFsName magic statfs path = (''unknown fs'', Some UnknownFs)"
    using assms(2) by (simp add: GetFsName_def)
  moreover have "(magic OVERLAYFS_SUPER_MAGIC, ''overlayfs'') \<in> set (unixFsNameTable magic)"
    and "(magic TMPFS_MAGIC, ''tmpfs'') \<in> set (unixFsNameTable magic)" and "(0x6a656a62, ''shiftfs'') \<in> set (unixFsNameTable magic)"
    by (simp_all only: unixFsNameTable_def list.set insert_iff simp_thms)
  ultimately show ?thesis using known by blast
qed

text \<open>The numbers of Linux's \<open>magic.h\<close>.\<close>

definition linux_magic :: "unix_magic \<Rightarrow> int" where
  "linux_magic m = (case m of
     AAFS_MAGIC \<Rightarrow> 0x5a3c69f0
  | ADFS_SUPER_MAGIC \<Rightarrow> 0xadf5
  | AFFS_SUPER_MAGIC \<Rightarrow> 0xadff
  | AFS_FS_MAGIC \<Rightarrow> 0x6b414653
  | AFS_SUPER_MAGIC \<Rightarrow> 0x5346414f
  | ANON_INODE_FS_MAGIC \<Rightarrow> 0x9041934
  | AUTOFS_SUPER_MAGIC \<Rightarrow> 0x187
  | BDEVFS_MAGIC \<Rightarrow> 0x62646576
  | BINDERFS_SUPER_MAGIC \<Rightarrow> 0x6c6f6f70
  | BINFMTFS_MAGIC \<Rightarrow> 0x42494e4d
  | BPF_FS_MAGIC \<Rightarrow> 0xcafe4a11
  | BTRFS_SUPER_MAGIC \<Rightarrow> 0x9123683e
  | BTRFS_TEST_MAGIC \<Rightarrow> 0x73727279
  | CRAMFS_MAGIC \<Rightarrow> 0x28cd3d45
  | DAXFS_MAGIC \<Rightarrow> 0x64646178
  | DEBUGFS_MAGIC \<Rightarrow> 0x64626720
  | ECRYPTFS_SUPER_MAGIC \<Rightarrow> 0xf15f
  | EFIVARFS_MAGIC \<Rightarrow> 0xde5e81e4
  | EFS_SUPER_MAGIC \<Rightarrow> 0x414a53
  | EROFS_SUPER_MAGIC_V1 \<Rightarrow> 0xe0f5e1e2
  | EXT4_SUPER_MAGIC \<Rightarrow> 0xef53
  | F2FS_SUPER_MAGIC \<Rightarrow> 0xf2f52010
  | FUTEXFS_SUPER_MAGIC \<Rightarrow> 0xbad1dea
  | HOSTFS_SUPER_MAGIC \<Rightarrow> 0xc0ffee
  | HPFS_SUPER_MAGIC \<Rightarrow> 0xf995e849
  | HUGETLBFS_MAGIC \<Rightarrow> 0x958458f6
  | ISOFS_SUPER_MAGIC \<Rightarrow> 0x9660
  | JFFS2_SUPER_MAGIC \<Rightarrow> 0x72b6
  | MTD_INODE_FS_MAGIC \<Rightarrow> 0x11307854
  | NFS_SUPER_MAGIC \<Rightarrow> 0x6969
  | NILFS_SUPER_MAGIC \<Rightarrow> 0x3434
  | NSFS_MAGIC \<Rightarrow> 0x6e736673
  | OCFS2_SUPER_MAGIC \<Rightarrow> 0x7461636f
  | OVERLAYFS_SUPER_MAGIC \<Rightarrow> 0x794c7630
  | PIPEFS_MAGIC \<Rightarrow> 0x50495045
  | PSTOREFS_MAGIC \<Rightarrow> 0x6165676c
  | RAMFS_MAGIC \<Rightarrow> 0x858458f6
  | REISERFS_SUPER_MAGIC \<Rightarrow> 0x52654973
  | SECURITYFS_MAGIC \<Rightarrow> 0x73636673
  | SOCKFS_MAGIC \<Rightarrow> 0x534f434b
  | SQUASHFS_MAGIC \<Rightarrow> 0x73717368
  | SYSFS_MAGIC \<Rightarrow> 0x62656572
  | TMPFS_MAGIC \<Rightarrow> 0x1021994
  | TRACEFS_MAGIC \<Rightarrow> 0x74726163
  | V9FS_MAGIC \<Rightarrow> 0x1021997
  | XENFS_SUPER_MAGIC \<Rightarrow> 0xabba1974
  | XFS_SUPER_MAGIC \<Rightarrow> 0x58465342
  | ZONEFS_MAGIC \<Rightarrow> 0x5a4f4653)"

lemma linux_magic_distinct: "distinct (map fst (unixFsNameTable linux_magic))"
  by (simp add: unixFsNameTable_def linux_magic_def)

theorem GetFsName_exact_witness:
  "GetFsName linux_magic (\<lambda>_. Inr 0x794c7630 :: unit + int) ''/a'' = (''overlayfs'', None)"
proof -
  have "linux_magic OVERLAYFS_SUPER_MAGIC = 0x794c7630" by (simp add: linux_magic_def)
  then show ?thesis
    using GetFsName_exact [OF linux_magic_distinct, of "\<lambda>_. Inr 0x794c7630" "''/a''" "0x794c7630"] by metis
qed

end
