(* ===== verification/ShiftfsCheck.thy ===== *)
theory ShiftfsCheck
  imports UsernsProcess LinuxUtils MountInfo FsNames
begin

text \<open>
  \<open>shiftfs/shiftfs.go\<close>: shiftfs mounts, and the check on the host that marks a directory, mounts shiftfs in a child
  in a new user namespace, and tries a file there. It composes the module lookup, the name of the file system and
  \<open>CreateUsernsProcess\<close>.
\<close>

section \<open>Mounts\<close>

definition SHIFTFS_MAGIC :: int where "SHIFTFS_MAGIC = 0x6a656a62"

text \<open>A mount point, which no function of the package takes.\<close>

record MountPoint =
  mp_Source :: string
  mp_Readonly :: bool

definition Mark :: "'e os \<Rightarrow> string \<Rightarrow> string \<Rightarrow> ('e, unit) io" where
  "Mark env p markPath = sys env (OpMount p markPath ''shiftfs'' ''mark'')"

definition Mount :: "'e os \<Rightarrow> string \<Rightarrow> string \<Rightarrow> ('e, unit) io" where
  "Mount env p mntPath = sys env (OpMount p mntPath ''shiftfs'' [])"

definition Unmount :: "'e os \<Rightarrow> string \<Rightarrow> ('e, unit) io" where
  "Unmount env p = sys env (OpUnmount p)"

definition Mounted :: "'e os \<Rightarrow> string \<Rightarrow> Info list \<Rightarrow> ('e, bool) io" where
  "Mounted env p mounts =
    ioBind (sys env (OpEvalSymlinks p)) (\<lambda>_. ioReturn (MountedWithFs (os_real env p) ''shiftfs'' mounts))"

section \<open>The check\<close>

datatype 'e shiftfs_err =
    SfModules "'e scan_err"
  | SfFsName "'e fsname_err"
  | SfTestDir string
  | SfNotExited
  | SfSys 'e

text \<open>\<open>execFunc\<close>, which the child runs and which always ends in \<open>os.Exit\<close>.\<close>

definition shiftfs_exec :: "'e os \<Rightarrow> string \<Rightarrow> ('e, unit) io" where
  "shiftfs_exec env testDir =
    (let testfile = Join [testDir, ''testfile'']; testfile2 = Join [testDir, ''testfile2'']
     in ioBind (ioOnError (sys env OpSetresuid) (ioExit 1)) (\<lambda>_.
        ioBind (ioOnError (sys env OpSetresgid) (ioExit 1)) (\<lambda>_.
        ioBind (ioOnError (Mount env testDir testDir) (ioExit 2)) (\<lambda>_.
        ioBind (ioOnError (sys env (OpCreate testfile)) (ioExit 3)) (\<lambda>_.
        ioBind (ioOnError (sys env (OpRename testfile testfile2))
                  (ioBind (ioIgnore (sys env (OpRemove testfile))) (\<lambda>_. ioExit 4))) (\<lambda>_.
        ioBind (ioIgnore (sys env (OpRemove testfile2))) (\<lambda>_.
        ioExit 0)))))))"

definition shiftfs_idmap :: IDMap where
  "shiftfs_idmap = \<lparr>ContainerID = 0, HostID = 165536, Size = 65536\<rparr>"

text \<open>The fork and the wait for the child.\<close>

definition shiftfs_child ::
  "'e shiftfs_err os \<Rightarrow> (string \<Rightarrow> nat \<Rightarrow> 'e shiftfs_err + string) \<Rightarrow> string \<Rightarrow> ('e shiftfs_err, bool) io" where
  "shiftfs_child env rd testDir =
    ioBind (CreateUsernsProcess env rd shiftfs_idmap (shiftfs_exec env testDir) testDir True False) (\<lambda>p.
    ioBind (sys env (OpWait p)) (\<lambda>_.
    case os_status env of
      None \<Rightarrow> ioFail SfNotExited
    | Some exitStatus \<Rightarrow> if exitStatus \<noteq> 0 then ioReturn False else ioReturn True))"

text \<open>The mark on the test directory, around it.\<close>

definition shiftfs_marked ::
  "'e shiftfs_err os \<Rightarrow> (string \<Rightarrow> nat \<Rightarrow> 'e shiftfs_err + string) \<Rightarrow> string \<Rightarrow> ('e shiftfs_err, bool) io" where
  "shiftfs_marked env rd testDir =
    ioBind (Mark env testDir testDir) (\<lambda>_.
    ioDefer (ioIgnore (Unmount env testDir)) (shiftfs_child env rd testDir))"

text \<open>The test directory and, on request, an overlayfs mount on it.\<close>

definition shiftfs_in_tmp ::
  "'e shiftfs_err os \<Rightarrow> (string \<Rightarrow> nat \<Rightarrow> 'e shiftfs_err + string) \<Rightarrow> bool \<Rightarrow> ('e shiftfs_err, bool) io" where
  "shiftfs_in_tmp env rd checkOnOverlayfs =
    (let tmpDir = os_tmp env;
         testDir = Join [tmpDir, ''test''];
         lowerDir = Join [tmpDir, ''lower''];
         upperDir = Join [tmpDir, ''upper''];
         workDir = Join [tmpDir, ''work''];
         opts = ''lowerdir='' @ lowerDir @ '',upperdir='' @ upperDir @ '',workdir='' @ workDir
     in ioBind (sys env (OpChmod tmpDir)) (\<lambda>_.
        ioBind (sys env (OpMkdir testDir)) (\<lambda>_.
        if checkOnOverlayfs then
          ioBind (ioMap (\<lambda>d. sys env (OpMkdir d)) [lowerDir, upperDir, workDir]) (\<lambda>_.
          ioBind (sys env (OpMount ''overlay'' testDir ''overlay'' opts)) (\<lambda>_.
          ioDefer (ioIgnore (sys env (OpUnmount testDir))) (shiftfs_marked env rd testDir)))
        else shiftfs_marked env rd testDir)))"

definition runShiftfsCheckOnHost ::
  "'e shiftfs_err os \<Rightarrow> (string \<Rightarrow> nat \<Rightarrow> 'e shiftfs_err + string) \<Rightarrow> 'e + string \<times> 'e option \<Rightarrow>
   (unix_magic \<Rightarrow> int) \<Rightarrow> (string \<Rightarrow> 'e + int) \<Rightarrow> string \<Rightarrow> bool \<Rightarrow> ('e shiftfs_err, bool) io" where
  "runShiftfsCheckOnHost env rd modules magic statfs dir checkOnOverlayfs =
    ioBind (KernelModSupported env modules ''shiftfs'') (\<lambda>res. case res of
       Inl e \<Rightarrow> ioFail (SfModules e)
     | Inr shiftfsModPresent \<Rightarrow>
         if \<not> shiftfsModPresent then ioReturn False
         else case GetFsName magic statfs dir of
             (fsName, Some e) \<Rightarrow> ioFail (SfFsName e)
           | (fsName, None) \<Rightarrow>
               if fsName = ''overlayfs'' \<or> fsName = ''tmpfs'' then ioFail (SfTestDir dir)
               else ioBind (sys env (OpMkdirTemp dir ''sysbox-shiftfs-check'')) (\<lambda>_.
                    ioDefer (ioIgnore (sys env (OpRemoveAll (os_tmp env)))) (shiftfs_in_tmp env rd checkOnOverlayfs)))"

definition ShiftfsSupported ::
  "'e shiftfs_err os \<Rightarrow> (string \<Rightarrow> nat \<Rightarrow> 'e shiftfs_err + string) \<Rightarrow> 'e + string \<times> 'e option \<Rightarrow>
   (unix_magic \<Rightarrow> int) \<Rightarrow> (string \<Rightarrow> 'e + int) \<Rightarrow> string \<Rightarrow> ('e shiftfs_err, bool) io" where
  "ShiftfsSupported env rd modules magic statfs dir = runShiftfsCheckOnHost env rd modules magic statfs dir False"

definition ShiftfsSupportedOnOverlayfs ::
  "'e shiftfs_err os \<Rightarrow> (string \<Rightarrow> nat \<Rightarrow> 'e shiftfs_err + string) \<Rightarrow> 'e + string \<times> 'e option \<Rightarrow>
   (unix_magic \<Rightarrow> int) \<Rightarrow> (string \<Rightarrow> 'e + int) \<Rightarrow> string \<Rightarrow> ('e shiftfs_err, bool) io" where
  "ShiftfsSupportedOnOverlayfs env rd modules magic statfs dir = runShiftfsCheckOnHost env rd modules magic statfs dir True"

section \<open>The parent\<close>

lemma shiftfs_child_quiet [quiet_rules]: "os_pid env \<noteq> 0 \<Longrightarrow> quiet (shiftfs_child env rd testDir)"
  unfolding shiftfs_child_def CreateUsernsProcess_def write_mappings_def Let_def
  by (auto intro!: quiet_rules split: option.split)

lemma shiftfs_marked_quiet [quiet_rules]: "os_pid env \<noteq> 0 \<Longrightarrow> quiet (shiftfs_marked env rd testDir)"
  unfolding shiftfs_marked_def Mark_def Unmount_def by (auto intro!: quiet_rules)

lemma shiftfs_in_tmp_quiet [quiet_rules]: "os_pid env \<noteq> 0 \<Longrightarrow> quiet (shiftfs_in_tmp env rd ov)"
  unfolding shiftfs_in_tmp_def Let_def by (auto intro!: quiet_rules)

lemma shiftfs_child_ret:
  assumes "os_pid env \<noteq> 0" and "shiftfs_child env rd testDir tr = (Ret b, tr')"
  shows "\<exists>tr1. tr' = tr1 @ [(OpWait (os_pid env), True)] \<and> (b \<longleftrightarrow> os_status env = Some 0) \<and> os_status env \<noteq> None"
  using assms by (auto simp: shiftfs_child_def CreateUsernsProcess_def write_mappings_def io_defs Let_def split: option.splits if_splits)

lemma shiftfs_marked_trace:
  assumes "os_pid env \<noteq> 0" and "shiftfs_marked env rd testDir tr = (r, tr')"
  shows "(\<exists>e. r = Err e \<and> tr' = tr @ [(OpMount testDir testDir ''shiftfs'' ''mark'', False)]) \<or>
    (\<exists>tr1 b0. tr' = tr1 @ [(OpUnmount testDir, b0)] \<and>
       (\<forall>b. r = Ret b \<longrightarrow> (\<exists>tr2. tr1 = tr2 @ [(OpWait (os_pid env), True)]) \<and> (b \<longleftrightarrow> os_status env = Some 0)))"
  using assms(2) unfolding shiftfs_marked_def Mark_def Unmount_def
proof (rule made_then_removed)
  show "quiet (shiftfs_child env rd testDir)" using assms(1) by (rule quiet_rules)
next
  fix tr1 b0
  assume m: "shiftfs_child env rd testDir (tr @ [(OpMount testDir testDir ''shiftfs'' ''mark'', True)]) = (r, tr1)"
    and t: "tr' = tr1 @ [(OpUnmount testDir, b0)]"
  have "(\<exists>tr2. tr1 = tr2 @ [(OpWait (os_pid env), True)]) \<and> (b \<longleftrightarrow> os_status env = Some 0)" if "r = Ret b" for b
    using shiftfs_child_ret [OF assms(1)] m that by metis
  then show ?thesis using t by blast
qed auto

text \<open>The calls of the clean-up, in the order the deferred functions run.\<close>

definition shiftfs_cleanup :: "'e os \<Rightarrow> bool \<Rightarrow> sys_op list" where
  "shiftfs_cleanup env overlay =
    replicate (if overlay then 2 else 1) (OpUnmount (Join [os_tmp env, ''test''])) @ [OpRemoveAll (os_tmp env)]"

lemma shiftfs_in_tmp_overlay:
  "\<exists>opts. shiftfs_in_tmp env rd True =
    ioBind (sys env (OpChmod (os_tmp env))) (\<lambda>_. ioBind (sys env (OpMkdir (Join [os_tmp env, ''test'']))) (\<lambda>_.
    ioBind (sys env (OpMkdir (Join [os_tmp env, ''lower'']))) (\<lambda>_. ioBind (sys env (OpMkdir (Join [os_tmp env, ''upper'']))) (\<lambda>_.
    ioBind (sys env (OpMkdir (Join [os_tmp env, ''work'']))) (\<lambda>_.
    ioBind (sys env (OpMount ''overlay'' (Join [os_tmp env, ''test'']) ''overlay'' opts)) (\<lambda>_.
    ioDefer (ioIgnore (sys env (OpUnmount (Join [os_tmp env, ''test''])))) (shiftfs_marked env rd (Join [os_tmp env, ''test'']))))))))"
  unfolding shiftfs_in_tmp_def Let_def if_True ioMap.simps ioBind_assoc ioBind_return by (rule exI) (rule refl)

text \<open>The mark is made at most once, and only with the name of the test directory.\<close>

abbreviation mark_op :: "'e os \<Rightarrow> sys_op" where
  "mark_op env \<equiv> OpMount (Join [os_tmp env, ''test'']) (Join [os_tmp env, ''test'']) ''shiftfs'' ''mark''"

lemma shiftfs_in_tmp_trace:
  assumes "os_pid env \<noteq> 0" and "shiftfs_in_tmp env rd overlay tr = (r, tr')" and "(mark_op env, True) \<notin> set tr"
    and "(mark_op env, True) \<in> set tr' \<or> r = Ret b"
  shows "\<exists>tr1 bs. tr' = tr1 @ bs \<and> map fst bs = replicate (if overlay then 2 else 1) (OpUnmount (Join [os_tmp env, ''test''])) \<and>
    (\<forall>b. r = Ret b \<longrightarrow> (\<exists>tr2. tr1 = tr2 @ [(OpWait (os_pid env), True)]) \<and> (b \<longleftrightarrow> os_status env = Some 0))"
proof -
  let ?test = "Join [os_tmp env, ''test'']"
  have marked: "\<exists>tr1 b0. tr'' = tr1 @ [(OpUnmount ?test, b0)] \<and>
       (\<forall>b. r = Ret b \<longrightarrow> (\<exists>tr2. tr1 = tr2 @ [(OpWait (os_pid env), True)]) \<and> (b \<longleftrightarrow> os_status env = Some 0))"
    if "shiftfs_marked env rd ?test t = (r, tr'')" and "(mark_op env, True) \<notin> set t"
      and "(mark_op env, True) \<in> set tr'' \<or> r = Ret b" for t tr''
    using shiftfs_marked_trace [OF assms(1) that(1)] that(2,3) by auto
  show ?thesis
  proof (cases overlay)
    case False
    obtain t where "shiftfs_marked env rd ?test t = (r, tr')" "(mark_op env, True) \<notin> set t"
      using assms(2-4) False
      by (auto simp: shiftfs_in_tmp_def Let_def ioBind_def sys_def split: option.splits)
    from marked [OF this assms(4)] obtain tr1 b0 where "tr' = tr1 @ [(OpUnmount ?test, b0)]"
      "\<forall>b. r = Ret b \<longrightarrow> (\<exists>tr2. tr1 = tr2 @ [(OpWait (os_pid env), True)]) \<and> (b \<longleftrightarrow> os_status env = Some 0)" by blast
    then show ?thesis using False by (intro exI [of _ tr1] exI [of _ "[(OpUnmount ?test, b0)]"]) simp
  next
    case True
    obtain t tr'' b1 where t: "shiftfs_marked env rd ?test t = (r, tr'')" "(mark_op env, True) \<notin> set t"
        "tr' = tr'' @ [(OpUnmount ?test, b1)]"
    proof -
      obtain opts where o: "shiftfs_in_tmp env rd True =
        ioBind (sys env (OpChmod (os_tmp env))) (\<lambda>_. ioBind (sys env (OpMkdir ?test)) (\<lambda>_.
        ioBind (sys env (OpMkdir (Join [os_tmp env, ''lower'']))) (\<lambda>_. ioBind (sys env (OpMkdir (Join [os_tmp env, ''upper'']))) (\<lambda>_.
        ioBind (sys env (OpMkdir (Join [os_tmp env, ''work'']))) (\<lambda>_. ioBind (sys env (OpMount ''overlay'' ?test ''overlay'' opts)) (\<lambda>_.
        ioDefer (ioIgnore (sys env (OpUnmount ?test))) (shiftfs_marked env rd ?test)))))))"
        using shiftfs_in_tmp_overlay [of env rd] by blast
      have fin: "ioDefer (ioIgnore (sys env (OpUnmount ?test))) (shiftfs_marked env rd ?test) t = (r, tr') \<Longrightarrow>
          (mark_op env, True) \<notin> set t \<Longrightarrow> thesis" for t
        using that [of t "snd (shiftfs_marked env rd ?test t)"] by (auto simp: ioDefer_sys quiet_rules assms(1))
      have "overlay = True" using True by simp
      from assms(2) [unfolded this o] show thesis
        by (elim sys_then) (use assms(3,4) in \<open>auto intro: fin\<close>)
    qed
    have "(mark_op env, True) \<in> set tr'' \<or> r = Ret b" using assms(4) t(3) by auto
    from marked [OF t(1,2) this] obtain tr1 b0 where "tr'' = tr1 @ [(OpUnmount ?test, b0)]"
      "\<forall>b. r = Ret b \<longrightarrow> (\<exists>tr2. tr1 = tr2 @ [(OpWait (os_pid env), True)]) \<and> (b \<longleftrightarrow> os_status env = Some 0)" by blast
    then show ?thesis using True t(3)
      by (intro exI [of _ tr1] exI [of _ "[(OpUnmount ?test, b0), (OpUnmount ?test, b1)]"]) (simp add: numeral_2_eq_2)
  qed
qed

text \<open>The check ends before it makes anything, or the module is there and it goes into the temporary directory.\<close>

lemma shiftfs_check_run:
  assumes "runShiftfsCheckOnHost env rd modules magic statfs dir overlay [] = (r, tr)"
  obtains (early) b where "tr = [(OpModprobe ''shiftfs'', b)]" "r = Ret False \<or> (\<exists>e. r = Err e)"
      "r = Ret False \<longleftrightarrow> module_listed modules ''shiftfs'' = Inr False"
  | (tmp) b where "module_listed modules ''shiftfs'' = Inr True"
      "ioBind (sys env (OpMkdirTemp dir ''sysbox-shiftfs-check'')) (\<lambda>_. ioDefer (ioIgnore (sys env (OpRemoveAll (os_tmp env))))
        (shiftfs_in_tmp env rd overlay)) [(OpModprobe ''shiftfs'', b)] = (r, tr)"
proof (cases "module_listed modules ''shiftfs'' = Inr True \<and> snd (GetFsName magic statfs dir) = None \<and>
    fst (GetFsName magic statfs dir) \<notin> {''overlayfs'', ''tmpfs''}")
  case True
  then show ?thesis using tmp assms
    by (auto simp: runShiftfsCheckOnHost_def ioBind_Ret [OF KernelModSupported_run] split: prod.splits)
next
  case False
  then show ?thesis using early assms
    by (auto simp: runShiftfsCheckOnHost_def ioBind_Ret [OF KernelModSupported_run] ioFail_def ioReturn_def
        split: sum.splits if_splits prod.splits option.splits)
qed


section \<open>The child\<close>

text \<open>
  What the child's exit status says: it always exits, with 0 exactly when becoming root, mounting shiftfs, creating the file and
  renaming it all succeeded, and otherwise with the number of what failed; after a failed rename it has tried to remove the file.
\<close>

theorem shiftfs_exec_status:
  assumes "shiftfs_exec env testDir [] = (r, tr)"
  shows "\<exists>n \<in> {0, 1, 2, 3, 4}. r = Exited n \<and>
    (n = 0 \<longleftrightarrow> {(OpSetresuid, True), (OpSetresgid, True), (OpMount testDir testDir ''shiftfs'' [], True),
       (OpCreate (Join [testDir, ''testfile'']), True),
       (OpRename (Join [testDir, ''testfile'']) (Join [testDir, ''testfile2'']), True)} \<subseteq> set tr) \<and>
    (n = 1 \<longleftrightarrow> (OpSetresuid, False) \<in> set tr \<or> (OpSetresgid, False) \<in> set tr) \<and>
    (n = 2 \<longleftrightarrow> (OpMount testDir testDir ''shiftfs'' [], False) \<in> set tr) \<and>
    (n = 3 \<longleftrightarrow> (OpCreate (Join [testDir, ''testfile'']), False) \<in> set tr) \<and>
    (n = 4 \<longrightarrow> fst (last tr) = OpRemove (Join [testDir, ''testfile'']))"
  using assms unfolding shiftfs_exec_def Mount_def Let_def
proof (elim sys_or_exit)
  assume "ioBind (ioOnError (sys env (OpRename (Join [testDir, ''testfile'']) (Join [testDir, ''testfile2''])))
      (ioBind (ioIgnore (sys env (OpRemove (Join [testDir, ''testfile''])))) (\<lambda>_. ioExit 4)))
    (\<lambda>_. ioBind (ioIgnore (sys env (OpRemove (Join [testDir, ''testfile2''])))) (\<lambda>_. ioExit 0))
    (((([] @ [(OpSetresuid, True)]) @ [(OpSetresgid, True)]) @ [(OpMount testDir testDir ''shiftfs'' [], True)]) @
      [(OpCreate (Join [testDir, ''testfile'']), True)]) = (r, tr)"
  then consider b where "r = Exited 0" "tr = [(OpSetresuid, True), (OpSetresgid, True), (OpMount testDir testDir ''shiftfs'' [], True),
      (OpCreate (Join [testDir, ''testfile'']), True),
      (OpRename (Join [testDir, ''testfile'']) (Join [testDir, ''testfile2'']), True), (OpRemove (Join [testDir, ''testfile2'']), b)]"
    | b where "r = Exited 4" "tr = [(OpSetresuid, True), (OpSetresgid, True), (OpMount testDir testDir ''shiftfs'' [], True),
      (OpCreate (Join [testDir, ''testfile'']), True),
      (OpRename (Join [testDir, ''testfile'']) (Join [testDir, ''testfile2'']), False), (OpRemove (Join [testDir, ''testfile'']), b)]"
    by (auto simp: ioBind_def ioOnError_def ioIgnore_sys sys_def ioExit_def split: option.splits)
  then show ?thesis by cases simp_all
qed simp_all

section \<open>Witnesses\<close>

definition shiftfs_demo_os :: "int \<Rightarrow> unit shiftfs_err os" where
  "shiftfs_demo_os p = \<lparr>fails = (\<lambda>_ _. None), os_cwd = ''/'', os_pid = p, os_tmp = ''/var/tmp/x'', os_link = (\<lambda>f. f),
     os_real = (\<lambda>f. f), os_status = Some 0\<rparr>"

lemma shiftfs_demo_simps [simp]:
  "fails (shiftfs_demo_os p) tr op = None" "os_pid (shiftfs_demo_os p) = p" "os_cwd (shiftfs_demo_os p) = ''/''"
  "os_status (shiftfs_demo_os p) = Some 0" "os_tmp (shiftfs_demo_os p) = ''/var/tmp/x''"
  by (simp_all add: shiftfs_demo_os_def)

lemma shiftfs_demo_modules:
  "module_listed (Inr (unlines [''shiftfs 1 0''], None :: unit option)) ''shiftfs'' = Inr True"
proof -
  have "list_all plain_line [''shiftfs 1 0'']" by (simp add: plain_line_def)
  then show ?thesis
    by (simp add: module_listed_def scanner_tokens_unlines str_contains_def HasPrefix_def)
qed

lemma shiftfs_demo_fs: "GetFsName linux_magic (\<lambda>_. Inr 0xef53 :: unit + int) d = (''ext4'', None)"
  by (simp add: GetFsName_def unixFsNameTable_def linux_magic_def)


theorem shiftfs_exec_status_witness:
  "\<exists>tr. shiftfs_exec (shiftfs_demo_os 0) ''/t'' [] = (Exited 0, tr) \<and> (OpMount ''/t'' ''/t'' ''shiftfs'' [], True) \<in> set tr"
proof -
  obtain r tr where run: "shiftfs_exec (shiftfs_demo_os 0) ''/t'' [] = (r, tr)" by fastforce
  then have "r = Exited 0" by (auto simp: shiftfs_exec_def Mount_def io_defs Let_def)
  then show ?thesis using shiftfs_exec_status [OF run] run by auto
qed

end
