(* ===== verification/ForkedChild.thy ===== *)
theory ForkedChild
  imports IdMapMount ShiftfsCheck
begin

text \<open>
  The checks on the host fork in the middle of a function with deferred calls: after \<open>clone\<close> the same
  code runs in the child, with pid 0. Here the run of the child is followed through
  \<open>CreateUsernsProcess\<close> and its two callers \<open>runIDMapMountCheckOnHost\<close> and
  \<open>runShiftfsCheckOnHost\<close>: rules for one statement at a time, then what the child leaves alone, and how its
  exit status becomes the answer of the parent.
\<close>

section \<open>Rules\<close>

definition forked :: "trace \<Rightarrow> bool" where
  "forked tr \<longleftrightarrow> (\<exists>fl. (OpClone fl, True) \<in> set tr)"

text \<open>The calls of a set \<open>A\<close> are not made.\<close>

definition made :: "sys_op set \<Rightarrow> trace \<Rightarrow> bool" where
  "made A tr \<longleftrightarrow> (\<exists>op b. op \<in> A \<and> (op, b) \<in> set tr)"

lemma trace_simps [simp]:
  "\<not> forked []" "forked (tr @ tr') \<longleftrightarrow> forked tr \<or> forked tr'"
  "forked ((op, b) # tr) \<longleftrightarrow> b \<and> (\<exists>fl. op = OpClone fl) \<or> forked tr"
  "\<not> made A []" "made A (tr @ tr') \<longleftrightarrow> made A tr \<or> made A tr'" "made A ((op, b) # tr) \<longleftrightarrow> op \<in> A \<or> made A tr"
  by (auto simp: forked_def made_def)

definition avoids :: "sys_op set \<Rightarrow> ('e, 'a) io \<Rightarrow> bool" where
  "avoids A m \<longleftrightarrow> (\<forall>tr. made A (snd (m tr)) \<longrightarrow> made A tr)"

lemma avoidsI: "(\<And>tr r tr'. m tr = (r, tr') \<Longrightarrow> made A tr' \<Longrightarrow> made A tr) \<Longrightarrow> avoids A m"
  unfolding avoids_def by (metis prod.collapse)

lemma avoidsD: "avoids A m \<Longrightarrow> m tr = (r, tr') \<Longrightarrow> made A tr' \<Longrightarrow> made A tr"
  unfolding avoids_def by (metis snd_conv)

named_theorems child_rules

lemma avoids_base [child_rules]:
  "op \<notin> A \<Longrightarrow> avoids A (sys env op)" "avoids A (ioReturn a)" "avoids A (ioFail e)" "avoids A (ioExit n)"
  by (simp_all add: avoids_def io_defs split: option.split)

lemma avoids_bind [child_rules]:
  assumes "avoids A m" and "\<And>a. avoids A (f a)"
  shows "avoids A (ioBind m f)"
proof (rule avoidsI)
  fix tr r tr' assume "ioBind m f tr = (r, tr')" and "made A tr'"
  then show "made A tr" by (cases rule: ioBind_cases) (blast dest: avoidsD [OF assms(1)] avoidsD [OF assms(2)])+
qed

lemma avoids_ignore_sys [child_rules]: "op \<notin> A \<Longrightarrow> avoids A (ioIgnore (sys env op))"
  by (simp add: avoids_def ioIgnore_sys)

lemma avoids_map [child_rules]: "(\<And>x. x \<in> set xs \<Longrightarrow> avoids A (f x)) \<Longrightarrow> avoids A (ioMap f xs)"
  by (induction xs) (auto intro: child_rules)

text \<open>
  A run that has forked when it ends, in the process where \<open>clone\<close> returned 0, ended in
  \<open>os.Exit\<close>, with a status and calls that satisfy \<open>Q\<close>. The calls of \<open>A\<close> come, if at all,
  after the fork.
\<close>

definition exits_in_child :: "sys_op set \<Rightarrow> (int \<Rightarrow> trace \<Rightarrow> bool) \<Rightarrow> ('e, 'a) io \<Rightarrow> bool" where
  "exits_in_child A Q m \<longleftrightarrow> (\<forall>tr r tr'. m tr = (r, tr') \<longrightarrow> \<not> forked tr \<longrightarrow> \<not> made A tr \<longrightarrow> forked tr' \<longrightarrow>
     (\<exists>n. r = Exited n \<and> Q n tr'))"

lemma exits_in_childD:
  "exits_in_child A Q m \<Longrightarrow> m [] = (r, tr) \<Longrightarrow> forked tr \<Longrightarrow> \<exists>n. r = Exited n \<and> Q n tr"
  unfolding exits_in_child_def by (metis trace_simps(1,4))

lemma exits_base [child_rules]:
  "(\<And>fl. op \<noteq> OpClone fl) \<Longrightarrow> exits_in_child A Q (sys env op)"
  "exits_in_child A Q (ioReturn a)" "exits_in_child A Q (ioFail e)"
  by (auto simp: exits_in_child_def io_defs split: option.splits)

lemma exits_ignore_sys [child_rules]:
  "(\<And>fl. op \<noteq> OpClone fl) \<Longrightarrow> exits_in_child A Q (ioIgnore (sys env op))"
  by (simp add: exits_in_child_def ioIgnore_sys)

lemma exits_bind [child_rules]:
  assumes "avoids A m" and "exits_in_child A Q m" and "\<And>a. exits_in_child A Q (f a)"
  shows "exits_in_child A Q (ioBind m f)"
  unfolding exits_in_child_def
proof (intro allI impI)
  fix tr r tr' assume run: "ioBind m f tr = (r, tr')" and nf: "\<not> forked tr" "\<not> made A tr" and fk: "forked tr'"
  show "\<exists>n. r = Exited n \<and> Q n tr'" using run
  proof (cases rule: ioBind_cases)
    case (second a tr1)
    have "\<not> forked tr1" using assms(2) second(1) nf unfolding exits_in_child_def by blast
    moreover have "\<not> made A tr1" using assms(1) second(1) nf unfolding avoids_def by (metis snd_conv)
    ultimately show ?thesis using assms(3) second(2) fk unfolding exits_in_child_def by blast
  next
    case (failed e)
    then show ?thesis using assms(2) nf fk unfolding exits_in_child_def by blast
  next
    case (exited n)
    then show ?thesis using assms(2) nf fk unfolding exits_in_child_def by blast
  qed
qed

lemma exits_map [child_rules]:
  "(\<And>x. x \<in> set xs \<Longrightarrow> avoids A (f x) \<and> exits_in_child A Q (f x)) \<Longrightarrow> exits_in_child A Q (ioMap f xs)"
  by (induction xs) (auto intro: child_rules)

text \<open>Deferred calls do not run in the child, which has exited.\<close>

lemma exits_defer [child_rules]:
  assumes "\<And>fl. op \<noteq> OpClone fl" and "exits_in_child A Q m"
  shows "exits_in_child A Q (ioDefer (ioIgnore (sys env op)) m)"
  unfolding exits_in_child_def
proof (intro allI impI)
  fix tr r tr' assume run: "ioDefer (ioIgnore (sys env op)) m tr = (r, tr')" and nf: "\<not> forked tr" "\<not> made A tr" and fk: "forked tr'"
  obtain q t where m: "m tr = (q, t)" by fastforce
  show "\<exists>n. r = Exited n \<and> Q n tr'"
  proof (cases "\<exists>n. q = Exited n")
    case True
    then have "r = q" and "tr' = t" using m run by (auto simp: ioDefer_def)
    then show ?thesis using assms(2) m nf fk unfolding exits_in_child_def by blast
  next
    case False
    then have "tr' = t @ [(op, fails env t op = None)]" using run m by (cases q) (simp_all add: ioDefer_def ioIgnore_sys)
    then have "forked t" using fk assms(1) by simp
    then show ?thesis using assms(2) m nf False unfolding exits_in_child_def by blast
  qed
qed

text \<open>After a statement that never returns in the child, nothing has to be shown.\<close>

definition no_return :: "sys_op set \<Rightarrow> ('e, 'a) io \<Rightarrow> bool" where
  "no_return A m \<longleftrightarrow> (\<forall>tr a tr'. m tr = (Ret a, tr') \<longrightarrow> made A tr)"

lemma exits_no_return: "no_return A m \<Longrightarrow> exits_in_child A Q m \<Longrightarrow> exits_in_child A Q (ioBind m f)"
  unfolding exits_in_child_def no_return_def
proof (intro allI impI)
  fix tr r tr'
  assume nr: "\<forall>tr a tr'. m tr = (Ret a, tr') \<longrightarrow> made A tr" and nm: "\<not> made A tr" and nf: "\<not> forked tr" and fk: "forked tr'"
    and ex: "\<forall>tr r tr'. m tr = (r, tr') \<longrightarrow> \<not> forked tr \<longrightarrow> \<not> made A tr \<longrightarrow> forked tr' \<longrightarrow> (\<exists>n. r = Exited n \<and> Q n tr')"
  assume "ioBind m f tr = (r, tr')"
  then show "\<exists>n. r = Exited n \<and> Q n tr'"
    by (cases rule: ioBind_cases) (use nr nm nf fk ex in blast)+
qed

lemma no_return_bind: "avoids A m \<Longrightarrow> (\<And>a. no_return A (f a)) \<Longrightarrow> no_return A (ioBind m f)"
  unfolding no_return_def by (metis ioBind_cases avoidsD outcome.distinct(1,3))

lemma no_return_defer: "no_return A m \<Longrightarrow> no_return A (ioDefer (ioIgnore (sys env op)) m)"
  unfolding no_return_def ioDefer_def by (auto simp: ioIgnore_sys split: prod.splits outcome.splits)

section \<open>The fork\<close>

text \<open>\<open>execFunc\<close> has to exit, with \<open>Q\<close>; the wait for the mappings may exit with status 1 before.\<close>

lemma CreateUsernsProcess_child:
  assumes "os_pid env = 0"
    and exec: "\<And>tr. \<not> made A tr \<Longrightarrow> \<exists>n tr'. execFunc tr = (Exited n, tr') \<and> Q n tr'"
    and wait: "\<And>tr. \<not> made A tr \<Longrightarrow> Q 1 tr"
    and A: "OpGetwd \<notin> A" "OpChdir cwd \<notin> A" "OpClone (clone_flags mnt ipc) \<notin> A" "OpPdeathsig \<notin> A"
  shows "exits_in_child A Q (CreateUsernsProcess env rd m execFunc cwd mnt ipc)" (is "exits_in_child A Q ?c")
    and "no_return A (CreateUsernsProcess env rd m execFunc cwd mnt ipc)"
proof -
  let ?in = "ioBind (sys env (OpClone (clone_flags mnt ipc))) (\<lambda>_.
       ioBind (ioBind (ioIgnore (sys env OpPdeathsig)) (\<lambda>_. if \<not> fst (child_wait rd m) then ioExit 1 else execFunc))
         (\<lambda>_. write_mappings env (os_pid env) m))"
  have c: "?c = ioBind (sys env OpGetwd) (\<lambda>_. ioBind (sys env (OpChdir cwd)) (\<lambda>_. ioDefer (ioIgnore (sys env (OpChdir (os_cwd env)))) ?in))"
    using assms(1) by (simp add: CreateUsernsProcess_def)
  have inner: "(\<exists>e. r = Err e \<and> tr' = tr @ [(OpClone (clone_flags mnt ipc), False)]) \<or> (\<exists>n. r = Exited n \<and> Q n tr')"
    if "?in tr = (r, tr')" "\<not> made A tr" for tr r tr'
    using that(1)
  proof (cases rule: sys_then)
    case ok
    let ?t = "(tr @ [(OpClone (clone_flags mnt ipc), True)]) @ [(OpPdeathsig, fails env (tr @ [(OpClone (clone_flags mnt ipc), True)]) OpPdeathsig = None)]"
    have t: "\<not> made A ?t" unfolding trace_simps using that(2) A by simp
    show ?thesis
      using ok wait [OF t] exec [OF t]
      by (auto simp: ioBind_def ioIgnore_sys ioExit_def split: if_splits)
  qed auto
  have "exits_in_child A Q ?in" unfolding exits_in_child_def
  proof (intro allI impI)
    fix tr r tr' assume "?in tr = (r, tr')" "\<not> forked tr" "\<not> made A tr" "forked tr'"
    then show "\<exists>n. r = Exited n \<and> Q n tr'" using inner [of tr r tr'] by auto
  qed
  moreover have "exits_in_child A Q (ioBind (sys env OpGetwd) (\<lambda>_. ioBind (sys env (OpChdir cwd)) (\<lambda>_.
      ioDefer (ioIgnore (sys env (OpChdir (os_cwd env)))) x)))" if "exits_in_child A Q x" for x :: "('a, int) io"
    using that A by (auto intro!: child_rules)
  ultimately show "exits_in_child A Q ?c" unfolding c by blast
  have "no_return A ?in" unfolding no_return_def using inner by blast
  moreover have "no_return A (ioBind (sys env OpGetwd) (\<lambda>_. ioBind (sys env (OpChdir cwd)) (\<lambda>_.
      ioDefer (ioIgnore (sys env (OpChdir (os_cwd env)))) x)))" if "no_return A x" for x :: "('a, int) io"
    using that A by (auto intro!: no_return_bind no_return_defer child_rules)
  ultimately show "no_return A ?c" unfolding c by blast
qed

section \<open>What is the parent's\<close>

text \<open>Undoing what was made before the fork, and the child itself, are left to the parent.\<close>

definition parent_only :: "sys_op set" where
  "parent_only = range OpRemoveAll \<union> range OpUnmount \<union> range OpKill \<union> range OpWait \<union>
     (\<Union>f. range (OpWriteFile f)) \<union> range OpMoveMount"

lemma parent_only_simps [simp]:
  "OpGetwd \<notin> parent_only" "OpChdir d \<notin> parent_only" "OpClone fl \<notin> parent_only" "OpPdeathsig \<notin> parent_only"
  "OpSetresuid \<notin> parent_only" "OpSetresgid \<notin> parent_only" "OpMount a b c d \<notin> parent_only" "OpCreate f \<notin> parent_only"
  "OpRename f g \<notin> parent_only" "OpRemove f \<notin> parent_only" "OpMkdirTemp d f \<notin> parent_only" "OpMkdir d \<notin> parent_only"
  "OpChmod d \<notin> parent_only" "OpModprobe m \<notin> parent_only"
  by (auto simp: parent_only_def)

section \<open>ID-mapped mounts\<close>

text \<open>The child only sleeps until it is killed, with status \<open>n\<close> as far as this run is concerned.\<close>

lemma idmap_check_child:
  assumes "os_pid env = 0" and "\<And>tr. pause tr = (Exited n, tr)"
  shows "exits_in_child parent_only (\<lambda>_ tr. \<not> made parent_only tr) (runIDMapMountCheckOnHost env rd pause dir overlay)"
proof -
  have "exits_in_child parent_only (\<lambda>_ tr. \<not> made parent_only tr) (CreateUsernsProcess env rd check_idmap pause cwd False False)"
    and "no_return parent_only (CreateUsernsProcess env rd check_idmap pause cwd False False)" for cwd
    using assms by (auto intro!: CreateUsernsProcess_child)
  note create = exits_no_return [OF this(2,1)]
  show ?thesis
    by (auto simp: runIDMapMountCheckOnHost_def Let_def intro!: child_rules create)
qed


section \<open>Shiftfs\<close>

abbreviation rename_op :: "'e os \<Rightarrow> sys_op" where
  "rename_op env \<equiv> OpRename (Join [Join [os_tmp env, ''test''], ''testfile'']) (Join [Join [os_tmp env, ''test''], ''testfile2''])"

text \<open>What the exit of the child says: status 0 for a file that was renamed on shiftfs.\<close>

definition shiftfs_verdict :: "'e os \<Rightarrow> int \<Rightarrow> trace \<Rightarrow> bool" where
  "shiftfs_verdict env n tr \<longleftrightarrow> \<not> made parent_only tr \<and> n \<in> {0, 1, 2, 3, 4} \<and> (n = 0 \<longleftrightarrow> (rename_op env, True) \<in> set tr)"

lemma not_made_mem: "\<not> made A tr \<Longrightarrow> op \<in> A \<Longrightarrow> (op, b) \<notin> set tr"
  by (auto simp: made_def)

lemma shiftfs_exec_verdict:
  assumes "\<not> made (insert (rename_op env) parent_only) tr"
  shows "\<exists>n tr'. shiftfs_exec env (Join [os_tmp env, ''test'']) tr = (Exited n, tr') \<and> shiftfs_verdict env n tr'"
proof -
  have "(rename_op env, True) \<notin> set tr" "\<not> made parent_only tr"
    using assms by (auto simp: made_def)
  moreover obtain r tr' where run: "shiftfs_exec env (Join [os_tmp env, ''test'']) tr = (r, tr')" by fastforce
  ultimately have "\<exists>n. r = Exited n \<and> shiftfs_verdict env n tr'"
    unfolding shiftfs_verdict_def shiftfs_exec_def Mount_def Let_def
    by (elim sys_or_exit)
      (auto simp: ioBind_def ioOnError_def ioIgnore_sys sys_def ioExit_def split: option.splits)
  then show ?thesis using run by blast
qed

lemma shiftfs_check_child:
  assumes "os_pid env = 0"
  shows "exits_in_child (insert (rename_op env) parent_only) (shiftfs_verdict env)
    (runShiftfsCheckOnHost env rd modules magic statfs dir overlay)"
proof -
  let ?A = "insert (rename_op env) parent_only" and ?test = "Join [os_tmp env, ''test'']"
  have wait: "shiftfs_verdict env 1 tr" if "\<not> made ?A tr" for tr
    using that not_made_mem [OF that, of "rename_op env"] by (auto simp: shiftfs_verdict_def made_def)
  have "exits_in_child ?A (shiftfs_verdict env)
      (CreateUsernsProcess env rd shiftfs_idmap (shiftfs_exec env ?test) ?test True False)"
    and "no_return ?A (CreateUsernsProcess env rd shiftfs_idmap (shiftfs_exec env ?test) ?test True False)"
    by (rule CreateUsernsProcess_child [OF assms shiftfs_exec_verdict wait]; simp)+
  note create = exits_no_return [OF this(2,1)]
  show ?thesis
    by (auto simp: runShiftfsCheckOnHost_def KernelModSupported_def shiftfs_in_tmp_def shiftfs_marked_def shiftfs_child_def Mark_def Unmount_def Let_def
        intro!: child_rules create split: sum.split prod.split option.split)
qed

lemma shiftfs_answer:
  assumes "os_pid env \<noteq> 0" and "runShiftfsCheckOnHost env rd modules magic statfs dir overlay [] = (Ret b, tr)"
    and "module_listed modules ''shiftfs'' = Inr True"
  shows "b \<longleftrightarrow> os_status env = Some 0"
  using assms(2)
proof (cases rule: shiftfs_check_run)
  case (tmp ok)
  from tmp(2) show ?thesis
  proof (rule made_then_removed)
    show "quiet (shiftfs_in_tmp env rd overlay)" using assms(1) by (rule quiet_rules)
    fix tr1 b0
    assume "shiftfs_in_tmp env rd overlay ([(OpModprobe ''shiftfs'', ok)] @ [(OpMkdirTemp dir ''sysbox-shiftfs-check'', True)]) = (Ret b, tr1)"
    from shiftfs_in_tmp_trace [OF assms(1) this, of b] show ?thesis by auto
  qed simp_all
qed (use assms(3) in auto)

text \<open>
  C16. The shiftfs check from end to end. In the child, the check ends in \<open>os.Exit\<close> with a status from 0 to 4 and undoes nothing of
  what the parent made; and if that status is the one the parent waits for, the answer of the parent is yes exactly when
  the child renamed its test file on the shiftfs mount.
\<close>

theorem shiftfs_check_end_to_end:
  assumes "os_pid child = 0"
    and "runShiftfsCheckOnHost child rd modules magic statfs dir overlay [] = (r, ctr)" and "(OpClone fl, True) \<in> set ctr"
  shows "\<exists>n \<in> {0, 1, 2, 3, 4}. r = Exited n \<and> (\<forall>op b. (op, b) \<in> set ctr \<longrightarrow> op \<notin> parent_only) \<and>
    (\<forall>env answer tr. os_pid env \<noteq> 0 \<and> os_status env = Some n \<and> module_listed modules ''shiftfs'' = Inr True \<and>
       runShiftfsCheckOnHost env rd modules magic statfs dir overlay [] = (Ret answer, tr) \<longrightarrow>
       (answer \<longleftrightarrow> (rename_op child, True) \<in> set ctr))"
proof -
  obtain n where n: "r = Exited n" "shiftfs_verdict child n ctr"
    using exits_in_childD [OF shiftfs_check_child [OF assms(1)] assms(2)] assms(3) by (auto simp: forked_def)
  have "answer \<longleftrightarrow> n = 0" if "os_pid env \<noteq> 0" "os_status env = Some n" "module_listed modules ''shiftfs'' = Inr True"
    "runShiftfsCheckOnHost env rd modules magic statfs dir overlay [] = (Ret answer, tr)" for env answer tr
    using shiftfs_answer [OF that(1,4,3)] that(2) by simp
  then show ?thesis using n by (auto simp: shiftfs_verdict_def made_def)
qed

section \<open>Shm sysctls\<close>

lemma shm_parent_only [simp]: "OpOpenRW f \<notin> parent_only" "OpClose f \<notin> parent_only"
  by (auto simp: parent_only_def)

lemma shm_try_trace:
  "shm_try env f tr = (r, tr') \<Longrightarrow>
   r = Ret () \<and> (\<exists>b. tr' = tr @ [(OpOpenRW f, True), (OpClose f, b)]) \<or> r = Exited 2 \<and> tr' = tr @ [(OpOpenRW f, False)]"
  by (auto simp: shm_try_def io_defs split: option.splits)

lemma shm_tries_verdict:
  "ioMap (shm_try env) fs tr = (r, tr') \<Longrightarrow> distinct fs \<Longrightarrow> \<forall>f \<in> set fs. (OpOpenRW f, True) \<notin> set tr \<Longrightarrow>
   \<not> made parent_only tr \<Longrightarrow> \<not> made parent_only tr' \<and>
   (r = Ret () \<and> (\<forall>f \<in> set fs. (OpOpenRW f, True) \<in> set tr') \<or> r = Exited 2 \<and> (\<exists>f \<in> set fs. (OpOpenRW f, True) \<notin> set tr'))"
proof (induction fs arbitrary: tr)
  case (Cons f fs)
  obtain r1 tr1 where t: "shm_try env f tr = (r1, tr1)" by fastforce
  from shm_try_trace [OF this] show ?case
  proof
    assume ok: "r1 = Ret () \<and> (\<exists>b. tr1 = tr @ [(OpOpenRW f, True), (OpClose f, b)])"
    then have rest: "ioMap (shm_try env) fs tr1 = (r, tr')" using Cons.prems(1) t by (simp add: ioBind_def)
    moreover have "\<forall>f \<in> set fs. (OpOpenRW f, True) \<notin> set tr1" "\<not> made parent_only tr1" "(OpOpenRW f, True) \<in> set tr1"
      using ok Cons.prems by auto
    moreover from this(3) have "(OpOpenRW f, True) \<in> set tr'"
      using grows_mem [of "ioMap (shm_try env) fs" tr1 r tr'] rest by (auto intro: grow_rules)
    ultimately show ?thesis using Cons.IH [of tr1] Cons.prems(2) by auto
  next
    assume "r1 = Exited 2 \<and> tr1 = tr @ [(OpOpenRW f, False)]"
    then have "r = Exited 2" "tr' = tr @ [(OpOpenRW f, False)]" using Cons.prems(1) t by (simp_all add: ioBind_def)
    then show ?thesis using Cons.prems by simp
  qed
qed (simp add: ioReturn_def)

text \<open>What the exit of the child says: status 0 for all three files opened for writing.\<close>

definition shm_verdict :: "int \<Rightarrow> trace \<Rightarrow> bool" where
  "shm_verdict n tr \<longleftrightarrow> \<not> made parent_only tr \<and> n \<in> {0, 1, 2} \<and>
     (n = 0 \<longleftrightarrow> (\<forall>f \<in> set shm_sysctls. (OpOpenRW f, True) \<in> set tr))"

abbreviation shm_marks :: "sys_op set" where
  "shm_marks \<equiv> parent_only \<union> OpOpenRW ` set shm_sysctls"

lemma shm_not_opened:
  assumes "\<not> made shm_marks tr"
  shows "\<not> made parent_only tr" and "\<forall>f \<in> set shm_sysctls. (OpOpenRW f, b) \<notin> set tr"
  using assms by (auto simp: made_def)

lemma shm_exec_verdict:
  assumes "\<not> made shm_marks tr"
  shows "\<exists>n tr'. shm_exec env tr = (Exited n, tr') \<and> shm_verdict n tr'"
proof -
  note no = shm_not_opened [OF assms]
  have d: "distinct shm_sysctls" by (simp add: shm_sysctls_def)
  have early: "shm_verdict 1 (tr @ t)" if "t = [(OpSetresuid, False)] \<or> t = [(OpSetresuid, True), (OpSetresgid, False)]" for t
    using that no by (auto simp: shm_verdict_def shm_sysctls_def)
  let ?t = "(tr @ [(OpSetresuid, True)]) @ [(OpSetresgid, True)]"
  obtain r1 tr1 where t: "ioMap (shm_try env) shm_sysctls ?t = (r1, tr1)" by fastforce
  have n: "\<forall>f \<in> set shm_sysctls. (OpOpenRW f, True) \<notin> set ?t" "\<not> made parent_only ?t" using no by auto
  obtain r tr' where run: "shm_exec env tr = (r, tr')" by fastforce
  then have "\<exists>n. r = Exited n \<and> shm_verdict n tr'"
    unfolding shm_exec_def
  proof (elim sys_or_exit)
    assume "ioBind (ioMap (shm_try env) shm_sysctls) (\<lambda>_. ioExit 0) ?t = (r, tr')"
    then show ?thesis using shm_tries_verdict [OF t d n] t
      by (auto simp: ioBind_def ioExit_def shm_verdict_def)
  qed (use early in auto)
  then show ?thesis using run by blast
qed

lemma shm_check_child:
  assumes "os_pid env = 0"
  shows "exits_in_child shm_marks shm_verdict (ShmSysctlUserNamespaced env rd not_exited)"
proof -
  have wait: "shm_verdict 1 tr" if "\<not> made shm_marks tr" for tr
    using shm_not_opened [OF that] by (auto simp: shm_verdict_def shm_sysctls_def)
  have "exits_in_child shm_marks shm_verdict (CreateUsernsProcess env rd shm_idmap (shm_exec env) (os_cwd env) True True)"
    and "no_return shm_marks (CreateUsernsProcess env rd shm_idmap (shm_exec env) (os_cwd env) True True)"
    by (rule CreateUsernsProcess_child [OF assms shm_exec_verdict wait]; auto)+
  note create = exits_no_return [OF this(2,1)]
  show ?thesis
    by (auto simp: ShmSysctlUserNamespaced_def intro!: child_rules create)
qed

text \<open>
  C17. The check of the shm sysctls from end to end. In the child, the check ends in \<open>os.Exit\<close> with a status from 0 to 2
  and does nothing that is the parent's; and if that status is the one the parent waits for, the answer of
  the parent is yes exactly when the child opened all three files for writing.
\<close>

theorem shm_check_end_to_end:
  assumes "os_pid child = 0"
    and "ShmSysctlUserNamespaced child rd not_exited [] = (r, ctr)" and "(OpClone fl, True) \<in> set ctr"
  shows "\<exists>n \<in> {0, 1, 2}. r = Exited n \<and> (\<forall>op b. (op, b) \<in> set ctr \<longrightarrow> op \<notin> parent_only) \<and>
    (\<forall>env answer tr. os_status env = Some n \<and> ShmSysctlUserNamespaced env rd not_exited [] = (Ret answer, tr) \<longrightarrow>
       (answer \<longleftrightarrow> (\<forall>f \<in> set shm_sysctls. (OpOpenRW f, True) \<in> set ctr)))"
proof -
  obtain n where n: "r = Exited n" "shm_verdict n ctr"
    using exits_in_childD [OF shm_check_child [OF assms(1)] assms(2)] assms(3) by (auto simp: forked_def)
  have "answer \<longleftrightarrow> n = 0"
    if "os_status env = Some n" "ShmSysctlUserNamespaced env rd not_exited [] = (Ret answer, tr)" for env answer tr
    using that by (auto simp: ShmSysctlUserNamespaced_def ioBind_def ioReturn_def split: prod.splits outcome.splits if_splits)
  then show ?thesis using n by (auto simp: shm_verdict_def made_def)
qed

section \<open>Witnesses\<close>


abbreviation demo_shiftfs_check :: "int \<Rightarrow> (unit shiftfs_err, bool) io" where
  "demo_shiftfs_check p \<equiv> runShiftfsCheckOnHost (shiftfs_demo_os p) (\<lambda>_ _. Inr (mapping_text shiftfs_idmap))
      (Inr (unlines [''shiftfs 1 0''], None)) linux_magic (\<lambda>_. Inr 0xef53) ''/var/tmp'' False"

lemma demo_child_wait: "fst (child_wait (\<lambda>_ _. Inr (mapping_text m)) m)"
  by (simp add: child_wait_def upt_conv_Cons readIDMapFile_text)

lemmas demo_shiftfs_defs = runShiftfsCheckOnHost_def KernelModSupported_def shiftfs_demo_modules shiftfs_demo_fs shiftfs_in_tmp_def shiftfs_marked_def
  shiftfs_child_def CreateUsernsProcess_def write_mappings_def shiftfs_exec_def Mount_def Mark_def Unmount_def io_defs Let_def

theorem shiftfs_check_end_to_end_witness:
  "\<exists>ctr tr. demo_shiftfs_check 0 [] = (Exited 0, ctr) \<and> demo_shiftfs_check 42 [] = (Ret True, tr) \<and>
     (rename_op (shiftfs_demo_os 0), True) \<in> set ctr \<and> (\<forall>op b. (op, b) \<in> set ctr \<longrightarrow> op \<notin> parent_only)"
proof -
  obtain r ctr where run: "demo_shiftfs_check 0 [] = (r, ctr)" by fastforce
  obtain q tr where prun: "demo_shiftfs_check 42 [] = (q, tr)" by fastforce
  have "fst (demo_shiftfs_check 42 []) = Ret True" by (simp add: demo_shiftfs_defs)
  then have q: "q = Ret True" using prun by simp
  have c: "fst (demo_shiftfs_check 0 []) = Exited 0 \<and> (OpClone (clone_flags True False), True) \<in> set (snd (demo_shiftfs_check 0 []))"
    by (simp add: demo_shiftfs_defs demo_child_wait)
  then have r: "r = Exited 0" "(OpClone (clone_flags True False), True) \<in> set ctr" using run by simp_all
  have pid: "os_pid (shiftfs_demo_os 0) = 0" by simp
  from shiftfs_check_end_to_end [OF pid run r(2)] obtain n where "r = Exited n" and safe: "\<forall>op b. (op, b) \<in> set ctr \<longrightarrow> op \<notin> parent_only"
    and imp: "os_pid (shiftfs_demo_os 42) \<noteq> 0 \<and> os_status (shiftfs_demo_os 42) = Some n \<and>
        module_listed (Inr (unlines [''shiftfs 1 0''], None :: unit option)) ''shiftfs'' = Inr True \<and>
        demo_shiftfs_check 42 [] = (Ret True, tr) \<longrightarrow> True = ((rename_op (shiftfs_demo_os 0), True) \<in> set ctr)"
    by (elim bexE conjE allE [of _ "shiftfs_demo_os 42"] allE [of _ True] allE [of _ tr])
  have "n = 0" using \<open>r = Exited n\<close> r(1) by simp
  then have "(rename_op (shiftfs_demo_os 0), True) \<in> set ctr"
    using imp prun q shiftfs_demo_modules by simp
  with safe show ?thesis using run prun q r(1) by blast
qed

theorem shm_check_end_to_end_witness:
  "\<exists>ctr. ShmSysctlUserNamespaced (demo_os 0) (\<lambda>_ _. Inr (mapping_text shm_idmap)) () [] = (Exited 0, ctr) \<and>
     (\<forall>op b. (op, b) \<in> set ctr \<longrightarrow> op \<notin> parent_only)"
proof -
  let ?run = "ShmSysctlUserNamespaced (demo_os 0) (\<lambda>_ _. Inr (mapping_text shm_idmap)) () []"
  obtain r ctr where run: "?run = (r, ctr)" by fastforce
  have "fst ?run = Exited 0 \<and> (OpClone (clone_flags True True), True) \<in> set (snd ?run)"
    by (simp add: ShmSysctlUserNamespaced_def CreateUsernsProcess_def demo_child_wait shm_exec_def shm_try_def shm_sysctls_def io_defs Let_def)
  then have r: "r = Exited 0" "(OpClone (clone_flags True True), True) \<in> set ctr" using run by simp_all
  from shm_check_end_to_end [OF _ run r(2)] r(1) run show ?thesis by auto
qed

end
