(* ===== verification/OtherBuilds.thy ===== *)
theory OtherBuilds
  imports CapProcess CapsFile IdMapMount
begin

text \<open>
  The functions that stand in where a feature is not built: \<open>capability/capability_noop.go\<close> on systems other than
  Linux, and \<open>idMap/idMapMount_unsupported.go\<close> without the build tag \<open>idmapped_mnt\<close> or without cgo. An error is
  its message.
\<close>

definition newPid_noop :: "int \<Rightarrow> string + capsV3" where
  "newPid_noop p = Inl ''not supported''"

definition newFile_noop :: "string \<Rightarrow> string + capsFile" where
  "newFile_noop p = Inl ''not supported''"

definition IDMapMount_unsupported :: "string \<Rightarrow> string \<Rightarrow> bool \<Rightarrow> string option" where
  "IDMapMount_unsupported usernsPath mountPath unmountFirst = Some ''idmapped mount unsupported in this Sysbox build.''"

definition IDMapMountSupported_unsupported :: "string \<Rightarrow> string + bool" where
  "IDMapMountSupported_unsupported dir = Inr False"

definition IDMapMountSupportedOnOverlayfs_unsupported :: "string \<Rightarrow> string + bool" where
  "IDMapMountSupportedOnOverlayfs_unsupported dir = Inr False"

definition IDMapMountSupportedOnPath_unsupported :: "string \<Rightarrow> string + bool" where
  "IDMapMountSupportedOnPath_unsupported p = Inr False"

definition OverlayfsOnIDMapMountSupported_unsupported :: "string \<Rightarrow> string + bool" where
  "OverlayfsOnIDMapMountSupported_unsupported dir = Inr False"

text \<open>
  Both builds agree where the full one says no without a test: on a kernel before 5.12 the check answers with the same
  value, and makes no system call.
\<close>

lemma IDMapMountSupported_agrees:
  assumes "checkKernelVersion uname 5 12 = Inr (Inr False)"
  shows "mapE (\<lambda>m. m []) (IDMapMountSupported env rd pause uname dir) =
    Inr (case IDMapMountSupported_unsupported dir of Inr b \<Rightarrow> Ret b, [])"
  using assms by (simp add: IDMapMountSupported_def supported_since_def IDMapMountSupported_unsupported_def ioReturn_def)

end
