(* ===== verification/IdShift.thy ===== *)
theory IdShift
  imports GoStrings "HOL-Library.Word"
begin

text \<open>
  \<open>idShiftUtils/idShiftUtils.go\<close>: shifting the owners and the access control lists of a directory
  tree. The file system is a record of operations over a state the code does not look into; the tree
  walk of \<open>godirwalk\<close> is the sequence of the paths it hands to the callback and of the errors it meets itself.
\<close>

section \<open>Types\<close>

datatype IDShiftType = NoShift | Shiftfs | IDMappedMount | IDMappedMountOrShiftfs | Chown

datatype aclType = aclTypeAccess | aclTypeDefault

record IDMapping =
  im_ContainerID :: "32 word"
  im_HostID :: "32 word"
  im_Size :: "32 word"

text \<open>An entry of the \<open>go-acl\<close> package: of the tags the code tells two from the others.\<close>

datatype acl_tag = TagUser | TagGroup | TagOther nat

record AclEntry =
  Tag :: acl_tag
  Qualifier :: string
  Perms :: nat

text \<open>The parts of \<open>os.FileMode\<close> the code looks at, and the permission bits.\<close>

record FileMode =
  mode_dir :: bool
  mode_symlink :: bool
  mode_regular :: bool
  mode_setuid :: bool
  mode_setgid :: bool
  mode_perm :: "9 word"

record Stat =
  st_Ino :: nat
  st_Uid :: "32 word"
  st_Gid :: "32 word"
  st_Nlink :: nat
  st_Mode :: FileMode

text \<open>
  Operations on the file system. \<open>fsetxattr\<close> is the attempt to set an empty access ACL; it gives
  whether the error was ENOTSUP.
\<close>

record ('e, 's) fs_ops =
  op_open :: "string \<Rightarrow> 's \<Rightarrow> bool"
  op_fsetxattr_notsup :: "string \<Rightarrow> 's \<Rightarrow> bool \<times> 's"
  op_lstat :: "string \<Rightarrow> 's \<Rightarrow> 'e + Stat"
  op_lchown :: "string \<Rightarrow> 32 word \<Rightarrow> 32 word \<Rightarrow> 's \<Rightarrow> 'e option \<times> 's"
  op_chmod :: "string \<Rightarrow> FileMode \<Rightarrow> 's \<Rightarrow> 'e option \<times> 's"
  acl_get :: "aclType \<Rightarrow> string \<Rightarrow> 's \<Rightarrow> 'e + AclEntry list"
  acl_set :: "aclType \<Rightarrow> string \<Rightarrow> AclEntry list \<Rightarrow> 's \<Rightarrow> 'e option \<times> 's"

definition checkACLSupport :: "('e, 's) fs_ops \<Rightarrow> string \<Rightarrow> 's \<Rightarrow> bool \<times> 's" where
  "checkACLSupport ops path s =
    (if \<not> op_open ops path s then (False, s)
     else let (notsup, s') = op_fsetxattr_notsup ops path s in (\<not> notsup, s'))"

section \<open>Access control lists\<close>

text \<open>
  The new qualifier: the id is cut to \<open>int32\<close>, the offset added with wrap-around, and the sum
  sign-extended to \<open>uint64\<close>.
\<close>

definition shift_qualifier :: "32 word \<Rightarrow> string \<Rightarrow> string option" where
  "shift_qualifier off q = (case ParseUint 32 q of
      None \<Rightarrow> None
    | Some n \<Rightarrow> Some (show_nat (nat (sint ((of_nat n :: 32 word) + off) mod 2 ^ 64))))"

text \<open>The loop over the entries: an entry whose qualifier does not parse is left out (\<open>continue\<close>).\<close>

fun shift_acl :: "32 word \<Rightarrow> 32 word \<Rightarrow> AclEntry list \<Rightarrow> AclEntry list \<Rightarrow> bool \<Rightarrow> AclEntry list \<times> bool" where
  "shift_acl uidOffset gidOffset [] newACL aclShifted = (newACL, aclShifted)"
| "shift_acl uidOffset gidOffset (e # es) newACL aclShifted =
     (if Tag e = TagUser then
        (case shift_qualifier uidOffset (Qualifier e) of
           None \<Rightarrow> shift_acl uidOffset gidOffset es newACL aclShifted
         | Some q \<Rightarrow> shift_acl uidOffset gidOffset es (newACL @ [e\<lparr>Qualifier := q\<rparr>]) True)
      else if Tag e = TagGroup then
        (case shift_qualifier gidOffset (Qualifier e) of
           None \<Rightarrow> shift_acl uidOffset gidOffset es newACL aclShifted
         | Some q \<Rightarrow> shift_acl uidOffset gidOffset es (newACL @ [e\<lparr>Qualifier := q\<rparr>]) True)
      else shift_acl uidOffset gidOffset es (newACL @ [e]) aclShifted)"

definition shiftAclType ::
  "('e, 's) fs_ops \<Rightarrow> aclType \<Rightarrow> string \<Rightarrow> 32 word \<Rightarrow> 32 word \<Rightarrow> 's \<Rightarrow> 'e option \<times> 's" where
  "shiftAclType ops aclT path uidOffset gidOffset s =
    (case acl_get ops aclT path s of
       Inl e \<Rightarrow> (Some e, s)
     | Inr facl \<Rightarrow>
         let (newACL, aclShifted) = shift_acl uidOffset gidOffset facl [] False
         in if aclShifted then acl_set ops aclT path newACL s else (None, s))"

definition shiftAclIds ::
  "('e, 's) fs_ops \<Rightarrow> string \<Rightarrow> bool \<Rightarrow> 32 word \<Rightarrow> 32 word \<Rightarrow> 's \<Rightarrow> 'e option \<times> 's" where
  "shiftAclIds ops path isDir uidOffset gidOffset s =
    (case shiftAclType ops aclTypeAccess path uidOffset gidOffset s of
       (Some e, s) \<Rightarrow> (Some e, s)
     | (None, s) \<Rightarrow>
         if isDir then shiftAclType ops aclTypeDefault path uidOffset gidOffset s else (None, s))"

section \<open>Owners\<close>

text \<open>
  The callback of the walk on one path, over the map of the hard links seen so far and the file
  system. The map is keyed by the inode number.
\<close>

type_synonym hard_links = "nat \<rightharpoonup> 32 word \<times> 32 word"

definition shift_target ::
  "32 word \<Rightarrow> 32 word \<Rightarrow> Stat \<Rightarrow> hard_links \<Rightarrow> (32 word \<times> 32 word) \<times> hard_links" where
  "shift_target uidOffset gidOffset st hardLinks =
    (let target = (st_Uid st + uidOffset, st_Gid st + gidOffset)
     in if st_Nlink st > 1 then
          (case hardLinks (st_Ino st) of
             Some owner \<Rightarrow> (owner, hardLinks)
           | None \<Rightarrow> (target, hardLinks(st_Ino st \<mapsto> target)))
        else (target, hardLinks))"

definition shift_node ::
  "('e, 's) fs_ops \<Rightarrow> bool \<Rightarrow> 32 word \<Rightarrow> 32 word \<Rightarrow> string \<Rightarrow> hard_links \<times> 's \<Rightarrow> 'e option \<times> hard_links \<times> 's" where
  "shift_node ops aclSupported uidOffset gidOffset path hs =
    (case hs of (hardLinks, s) \<Rightarrow>
       case op_lstat ops path s of
         Inl e \<Rightarrow> (Some e, hardLinks, s)
       | Inr st \<Rightarrow>
           let (target, hardLinks) = shift_target uidOffset gidOffset st hardLinks
           in case op_lchown ops path (fst target) (snd target) s of
                (Some e, s) \<Rightarrow> (Some e, hardLinks, s)
              | (None, s) \<Rightarrow>
                  case (if mode_regular (st_Mode st) \<and> (mode_setuid (st_Mode st) \<or> mode_setgid (st_Mode st))
                        then op_chmod ops path (st_Mode st) s else (None, s)) of
                    (Some e, s) \<Rightarrow> (Some e, hardLinks, s)
                  | (None, s) \<Rightarrow>
                      if \<not> mode_symlink (st_Mode st) \<and> aclSupported
                      then (case shiftAclIds ops path (mode_dir (st_Mode st)) uidOffset gidOffset s of
                              (err, s) \<Rightarrow> (err, hardLinks, s))
                      else (None, hardLinks, s))"

text \<open>
  What \<open>godirwalk\<close> does next, below \<open>baseDir\<close> and itself first: it hands a path to the callback, or meets an error of its own, as
  for a directory it cannot list.
\<close>

datatype 'e walk_item = Visit string | WalkErr string 'e

text \<open>
  The error callback, for either kind of error: \<open>True\<close> is \<open>SkipNode\<close>, for symbolic links, \<open>False\<close> is \<open>Halt\<close>. The walk goes on
  after a skipped node, which has no nodes below it.
\<close>

definition error_skips :: "('e, 's) fs_ops \<Rightarrow> string \<Rightarrow> 's \<Rightarrow> bool" where
  "error_skips ops path s = (case op_lstat ops path s of Inl e \<Rightarrow> False | Inr st \<Rightarrow> mode_symlink (st_Mode st))"

fun shift_walk ::
  "('e, 's) fs_ops \<Rightarrow> bool \<Rightarrow> 32 word \<Rightarrow> 32 word \<Rightarrow> 'e walk_item list \<Rightarrow> hard_links \<times> 's \<Rightarrow> 'e option \<times> hard_links \<times> 's" where
  "shift_walk ops acl uo go [] hs = (None, hs)"
| "shift_walk ops acl uo go (Visit p # xs) hs =
     (case shift_node ops acl uo go p hs of
        (None, hs') \<Rightarrow> shift_walk ops acl uo go xs hs'
      | (Some e, hs') \<Rightarrow>
          if error_skips ops p (snd hs') then shift_walk ops acl uo go xs hs' else (Some e, hs'))"
| "shift_walk ops acl uo go (WalkErr p e # xs) hs =
     (if error_skips ops p (snd hs) then shift_walk ops acl uo go xs hs else (Some e, hs))"

definition ShiftIdsWithChown ::
  "('e, 's) fs_ops \<Rightarrow> string \<Rightarrow> 'e walk_item list \<Rightarrow> 32 word \<Rightarrow> 32 word \<Rightarrow> 's \<Rightarrow> 'e option \<times> 's" where
  "ShiftIdsWithChown ops baseDir walk uidOffset gidOffset s =
    (let (aclSupported, s1) = checkACLSupport ops baseDir s;
         (err, _, s2) = shift_walk ops aclSupported uidOffset gidOffset walk (\<lambda>_. None, s1)
     in (err, s2))"

text \<open>
  \<open>GetDirIDs\<close>; with no error callback, the first failing \<open>Lstat\<close> or error of the walk ends it. \<open>to_slice\<close> lists the elements of
  a set of the \<open>golang-set\<close> package in some order.
\<close>

fun dir_ids :: "('e, 's) fs_ops \<Rightarrow> 's \<Rightarrow> 'e walk_item list \<Rightarrow> 32 word set \<times> 32 word set \<Rightarrow> 'e + 32 word set \<times> 32 word set" where
  "dir_ids ops s [] ids = Inr ids"
| "dir_ids ops s (Visit p # xs) (us, gs) =
     (case op_lstat ops p s of
        Inl e \<Rightarrow> Inl e
      | Inr st \<Rightarrow> dir_ids ops s xs (insert (st_Uid st) us, insert (st_Gid st) gs))"
| "dir_ids ops s (WalkErr p e # xs) ids = Inl e"

definition GetDirIDs ::
  "(32 word set \<Rightarrow> 32 word list) \<Rightarrow> ('e, 's) fs_ops \<Rightarrow> 's \<Rightarrow> 'e walk_item list \<Rightarrow> 'e + 32 word list \<times> 32 word list" where
  "GetDirIDs to_slice ops s walk = (case dir_ids ops s walk ({}, {}) of
      Inl e \<Rightarrow> Inl e | Inr (us, gs) \<Rightarrow> Inr (to_slice us, to_slice gs))"

section \<open>The file system the code relies on\<close>

text \<open>\<open>lchown\<close> with an id of -1 leaves that id as it is.\<close>

definition chowned :: "32 word \<times> 32 word \<Rightarrow> 32 word \<times> 32 word \<Rightarrow> 32 word \<times> 32 word" where
  "chowned target old = (if fst target = - 1 then fst old else fst target, if snd target = - 1 then snd old else snd target)"

lemma chowned_idem [simp]: "chowned t (chowned t old) = chowned t old"
  by (simp add: chowned_def)

text \<open>
  The documented behaviour of the calls on the paths \<open>Ps\<close>: \<open>ino\<close> is the inode of a path and \<open>nlink\<close> its number
  of links, owners and access control lists belong to inodes; \<open>lchown\<close> sets the owner, \<open>acl_set\<close> the
  list it is called for, and no call touches anything else of the two. The probe is a call too: its empty value is no list in the
  format of the attribute, so the kernel refuses it and keeps the list there is.
\<close>

definition fs_law ::
  "('e, 's) fs_ops \<Rightarrow> string set \<Rightarrow> (string \<Rightarrow> nat) \<Rightarrow> (nat \<Rightarrow> nat) \<Rightarrow>
   ('s \<Rightarrow> nat \<Rightarrow> 32 word \<times> 32 word) \<Rightarrow> ('s \<Rightarrow> aclType \<Rightarrow> nat \<Rightarrow> AclEntry list) \<Rightarrow> bool" where
  "fs_law ops Ps ino nlink owner acls \<longleftrightarrow>
     (\<forall>p \<in> Ps. \<forall>s. \<exists>m. op_lstat ops p s = Inr \<lparr>st_Ino = ino p, st_Uid = fst (owner s (ino p)),
         st_Gid = snd (owner s (ino p)), st_Nlink = nlink (ino p), st_Mode = m\<rparr>) \<and>
     (\<forall>p \<in> Ps. \<forall>u g s. \<exists>s'. op_lchown ops p u g s = (None, s') \<and>
         owner s' = (owner s)(ino p := chowned (u, g) (owner s (ino p))) \<and> acls s' = acls s) \<and>
     (\<forall>p \<in> Ps. \<forall>m s. owner (snd (op_chmod ops p m s)) = owner s \<and> acls (snd (op_chmod ops p m s)) = acls s \<and>
         fst (op_chmod ops p m s) = None) \<and>
     (\<forall>p \<in> Ps. \<forall>t s. acl_get ops t p s = Inr (acls s t (ino p))) \<and>
     (\<forall>p \<in> Ps. \<forall>t es s. \<exists>s'. acl_set ops t p es s = (None, s') \<and> owner s' = owner s \<and>
         acls s' = (acls s)(t := (acls s t)(ino p := es))) \<and>
     (\<forall>p s. owner (snd (op_fsetxattr_notsup ops p s)) = owner s \<and> acls (snd (op_fsetxattr_notsup ops p s)) = acls s)"

definition shift_owner :: "32 word \<Rightarrow> 32 word \<Rightarrow> 32 word \<times> 32 word \<Rightarrow> 32 word \<times> 32 word" where
  "shift_owner uo go ow = (fst ow + uo, snd ow + go)"

definition shift_entries :: "32 word \<Rightarrow> 32 word \<Rightarrow> AclEntry list \<Rightarrow> AclEntry list" where
  "shift_entries uo go es = (let (new, shifted) = shift_acl uo go es [] False in if shifted then new else es)"

lemma shiftAclType_law:
  assumes "fs_law ops Ps ino nlink owner acls" and "p \<in> Ps"
  obtains s' where "shiftAclType ops t p uo go s = (None, s')" "owner s' = owner s"
    "acls s' = (acls s)(t := (acls s t)(ino p := shift_entries uo go (acls s t (ino p))))"
proof -
  obtain new b where n: "shift_acl uo go (acls s t (ino p)) [] False = (new, b)" by fastforce
  have g: "acl_get ops t p s = Inr (acls s t (ino p))" using assms by (simp add: fs_law_def)
  obtain s1 where "acl_set ops t p new s = (None, s1)" "owner s1 = owner s"
      "acls s1 = (acls s)(t := (acls s t)(ino p := new))"
    using assms unfolding fs_law_def by blast
  then show ?thesis using that n g by (cases b) (simp_all add: shiftAclType_def shift_entries_def)
qed

lemma shiftAclIds_law:
  assumes "fs_law ops Ps ino nlink owner acls" and "p \<in> Ps"
  obtains s' where "shiftAclIds ops p d uo go s = (None, s')" "owner s' = owner s"
    "acls s' aclTypeAccess = (acls s aclTypeAccess)(ino p := shift_entries uo go (acls s aclTypeAccess (ino p)))"
proof -
  obtain s1 where s1: "shiftAclType ops aclTypeAccess p uo go s = (None, s1)" "owner s1 = owner s"
      "acls s1 = (acls s)(aclTypeAccess := (acls s aclTypeAccess)(ino p := shift_entries uo go (acls s aclTypeAccess (ino p))))"
    using shiftAclType_law [OF assms] by blast
  obtain s2 where "shiftAclType ops aclTypeDefault p uo go s1 = (None, s2)" "owner s2 = owner s1"
      "acls s2 = (acls s1)(aclTypeDefault := (acls s1 aclTypeDefault)(ino p := shift_entries uo go (acls s1 aclTypeDefault (ino p))))"
    using shiftAclType_law [OF assms] by blast
  then show ?thesis using that s1 by (cases d) (simp_all add: shiftAclIds_def)
qed

lemma lchown_law:
  assumes "fs_law ops Ps ino nlink owner acls" and "p \<in> Ps"
  shows "\<exists>s'. op_lchown ops p (fst t) (snd t) s = (None, s') \<and>
    owner s' = (owner s)(ino p := chowned t (owner s (ino p))) \<and> acls s' = acls s"
proof -
  have "\<exists>s'. op_lchown ops p u g s = (None, s') \<and>
      owner s' = (owner s)(ino p := chowned (u, g) (owner s (ino p))) \<and> acls s' = acls s" for u g
    using assms unfolding fs_law_def by blast
  from this [of "fst t" "snd t"] show ?thesis by simp
qed

text \<open>What the callback does on one path.\<close>

lemma shift_node_law:
  assumes law: "fs_law ops Ps ino nlink owner acls" and p: "p \<in> Ps"
  obtains s' where "shift_node ops acl uo go p (hl, s) =
      (None, if nlink (ino p) > 1 \<and> hl (ino p) = None then hl(ino p \<mapsto> shift_owner uo go (owner s (ino p))) else hl, s')"
    "owner s' = (owner s)(ino p := chowned
       (case hl (ino p) of Some ow \<Rightarrow> if nlink (ino p) > 1 then ow else shift_owner uo go (owner s (ino p))
        | None \<Rightarrow> shift_owner uo go (owner s (ino p))) (owner s (ino p)))"
    "acl \<and> (\<forall>s st. op_lstat ops p s = Inr st \<longrightarrow> \<not> mode_symlink (st_Mode st)) \<longrightarrow>
       acls s' aclTypeAccess = (acls s aclTypeAccess)(ino p := shift_entries uo go (acls s aclTypeAccess (ino p)))"
proof -
  obtain m where st: "op_lstat ops p s = Inr \<lparr>st_Ino = ino p, st_Uid = fst (owner s (ino p)),
      st_Gid = snd (owner s (ino p)), st_Nlink = nlink (ino p), st_Mode = m\<rparr>"
    using law p unfolding fs_law_def by blast
  let ?t = "case hl (ino p) of Some ow \<Rightarrow> if nlink (ino p) > 1 then ow else shift_owner uo go (owner s (ino p))
        | None \<Rightarrow> shift_owner uo go (owner s (ino p))"
  obtain s1 where s1: "op_lchown ops p (fst ?t) (snd ?t) s = (None, s1)"
      "owner s1 = (owner s)(ino p := chowned ?t (owner s (ino p)))" "acls s1 = acls s"
    using lchown_law [OF law p, of ?t s] by blast
  define c where "c = (if mode_regular m \<and> (mode_setuid m \<or> mode_setgid m) then op_chmod ops p m s1 else (None, s1))"
  have c: "fst c = None" "owner (snd c) = owner s1" "acls (snd c) = acls s1"
    using law p by (simp_all add: c_def fs_law_def)
  then have c': "c = (None, snd c)" by (metis prod.collapse)
  obtain s3 where s3: "shiftAclIds ops p (mode_dir m) uo go (snd c) = (None, s3)" "owner s3 = owner (snd c)"
      "acls s3 aclTypeAccess = (acls (snd c) aclTypeAccess)(ino p := shift_entries uo go (acls (snd c) aclTypeAccess (ino p)))"
    using shiftAclIds_law [OF law p] by blast
  let ?hl = "if nlink (ino p) > 1 \<and> hl (ino p) = None then hl(ino p \<mapsto> shift_owner uo go (owner s (ino p))) else hl"
  have tgt: "shift_target uo go \<lparr>st_Ino = ino p, st_Uid = fst (owner s (ino p)),
      st_Gid = snd (owner s (ino p)), st_Nlink = nlink (ino p), st_Mode = m\<rparr> hl = (?t, ?hl)"
    by (auto simp: shift_target_def shift_owner_def Let_def split: option.split)
  have "shift_node ops acl uo go p (hl, s) = (None, ?hl, if \<not> mode_symlink m \<and> acl then s3 else snd c)"
    unfolding shift_node_def prod.case st sum.case tgt Let_def s1(1) option.case Stat.simps c_def [symmetric]
    by (subst c') (simp add: s3(1))
  moreover have "owner (if \<not> mode_symlink m \<and> acl then s3 else snd c) = (owner s)(ino p := chowned ?t (owner s (ino p)))"
    using s1 c s3 by simp
  moreover have "acl \<and> (\<forall>s st. op_lstat ops p s = Inr st \<longrightarrow> \<not> mode_symlink (st_Mode st)) \<longrightarrow>
       acls (if \<not> mode_symlink m \<and> acl then s3 else snd c) aclTypeAccess =
         (acls s aclTypeAccess)(ino p := shift_entries uo go (acls s aclTypeAccess (ino p)))"
    using s1 c s3 st by fastforce
  ultimately show ?thesis by (rule that)
qed

section \<open>The walk\<close>

text \<open>
  What holds after the paths \<open>ps\<close>: the inodes seen have been shifted once, and the map holds the new owner
  of those with more than one link.
\<close>

definition walk_inv where
  "walk_inv ino nlink uo go (own0 :: nat \<Rightarrow> 32 word \<times> 32 word) ps hl own \<longleftrightarrow>
     own = (\<lambda>i. if i \<in> ino ` set ps then chowned (shift_owner uo go (own0 i)) (own0 i) else own0 i) \<and>
     hl = (\<lambda>i. if i \<in> ino ` set ps \<and> nlink i > (1::nat) then Some (shift_owner uo go (own0 i)) else None)"

lemma walk_inv_step:
  assumes "walk_inv ino nlink uo go own0 ps hl own"
    and "\<And>q. q \<in> set ps \<Longrightarrow> ino q = ino p \<Longrightarrow> nlink (ino p) > 1"
  shows "walk_inv ino nlink uo go own0 (ps @ [p])
    (if nlink (ino p) > 1 \<and> hl (ino p) = None then hl(ino p \<mapsto> shift_owner uo go (own (ino p))) else hl)
    (own(ino p := chowned (case hl (ino p) of Some ow \<Rightarrow> if nlink (ino p) > 1 then ow else shift_owner uo go (own (ino p))
        | None \<Rightarrow> shift_owner uo go (own (ino p))) (own (ino p))))"
proof -
  define S where "S = ino ` set ps"
  define T where "T = (\<lambda>i. shift_owner uo go (own0 i))"
  have own: "own = (\<lambda>i. if i \<in> S then chowned (T i) (own0 i) else own0 i)"
    and hl: "hl = (\<lambda>i. if i \<in> S \<and> nlink i > 1 then Some (T i) else None)"
    using assms(1) unfolding walk_inv_def S_def T_def by blast+
  have im: "ino ` set (ps @ [p]) = insert (ino p) S" by (simp add: S_def)
  have T: "shift_owner uo go (own0 i) = T i" for i by (simp add: T_def)
  show ?thesis
  proof (cases "ino p \<in> S")
    case True
    then have n: "nlink (ino p) > 1" using assms(2) unfolding S_def by force
    have "insert (ino p) S = S" using True by (rule insert_absorb)
    moreover have "hl (ino p) = Some (T (ino p))" using True n by (simp add: hl)
    moreover have "own (ino p) = chowned (T (ino p)) (own0 (ino p))" using True by (simp add: own)
    ultimately show ?thesis
      unfolding walk_inv_def im T using n by (simp add: fun_upd_idem own [symmetric] hl [symmetric, unfolded One_nat_def])
  next
    case False
    then have h: "hl (ino p) = None" and o: "own (ino p) = own0 (ino p)" by (simp_all add: hl own)
    have "own(ino p := chowned (T (ino p)) (own0 (ino p))) =
        (\<lambda>i. if i \<in> insert (ino p) S then chowned (T i) (own0 i) else own0 i)"
      by (rule ext) (simp add: own)
    moreover have "(if nlink (ino p) > 1 then hl(ino p \<mapsto> T (ino p)) else hl) =
        (\<lambda>i. if i \<in> insert (ino p) S \<and> nlink i > 1 then Some (T i) else None)"
      by (rule ext) (simp add: hl)
    ultimately show ?thesis
      unfolding walk_inv_def im h o option.case T by simp
  qed
qed

lemma shift_walk_owner:
  assumes "fs_law ops Ps ino nlink owner acls" and "set ps \<subseteq> Ps" and "distinct (done @ ps)"
    and "\<And>p q. p \<in> set (done @ ps) \<Longrightarrow> q \<in> set (done @ ps) \<Longrightarrow> p \<noteq> q \<Longrightarrow> ino q = ino p \<Longrightarrow> nlink (ino p) > 1"
    and "walk_inv ino nlink uo go own0 done hl (owner s)"
  shows "\<exists>hl' s'. shift_walk ops acl uo go (map Visit ps) (hl, s) = (None, hl', s') \<and>
    walk_inv ino nlink uo go own0 (done @ ps) hl' (owner s')"
  using assms(2-5)
proof (induction ps arbitrary: "done" hl s)
  case (Cons p ps)
  have p: "p \<in> Ps" using Cons.prems(1) by simp
  obtain s1 where s1: "shift_node ops acl uo go p (hl, s) =
      (None, if nlink (ino p) > 1 \<and> hl (ino p) = None then hl(ino p \<mapsto> shift_owner uo go (owner s (ino p))) else hl, s1)"
    "owner s1 = (owner s)(ino p := chowned
       (case hl (ino p) of Some ow \<Rightarrow> if nlink (ino p) > 1 then ow else shift_owner uo go (owner s (ino p))
        | None \<Rightarrow> shift_owner uo go (owner s (ino p))) (owner s (ino p)))"
    using shift_node_law [OF assms(1) p] by blast
  have more: "nlink (ino p) > 1" if "q \<in> set done" "ino q = ino p" for q
  proof -
    have "p \<notin> set done" using Cons.prems(2) by simp
    then show ?thesis using Cons.prems(3) [of p q] that by auto
  qed
  have
    "walk_inv ino nlink uo go own0 (done @ [p])
      (if nlink (ino p) > 1 \<and> hl (ino p) = None then hl(ino p \<mapsto> shift_owner uo go (owner s (ino p))) else hl) (owner s1)"
    unfolding s1(2) by (rule walk_inv_step [OF Cons.prems(4)]) (rule more)
  from Cons.IH [OF _ _ _ this] obtain hl' s' where
    "shift_walk ops acl uo go (map Visit ps) (if nlink (ino p) > 1 \<and> hl (ino p) = None
       then hl(ino p \<mapsto> shift_owner uo go (owner s (ino p))) else hl, s1) = (None, hl', s')"
    "walk_inv ino nlink uo go own0 (done @ p # ps) hl' (owner s')"
    using Cons.prems(1-3) by auto
  then show ?case by (simp add: s1(1) del: not_None_eq)
qed simp

lemma shift_walk_append:
  "shift_walk ops acl uo go (xs @ ys) hs =
    (case shift_walk ops acl uo go xs hs of (None, hs') \<Rightarrow> shift_walk ops acl uo go ys hs' | (Some e, hs') \<Rightarrow> (Some e, hs'))"
  by (induction ops acl uo go xs hs rule: shift_walk.induct) (auto split: prod.split option.split)

lemma shift_walk_once:
  assumes "fs_law ops (set paths) ino nlink owner acls" and "distinct paths"
    and "\<And>p q. p \<in> set paths \<Longrightarrow> q \<in> set paths \<Longrightarrow> p \<noteq> q \<Longrightarrow> ino p = ino q \<Longrightarrow> nlink (ino p) > 1"
    and c: "checkACLSupport ops baseDir s = (acl, s1)"
  obtains hl' s' where "shift_walk ops acl uo go (map Visit paths) (\<lambda>_. None, s1) = (None, hl', s')"
    "owner s' = (\<lambda>i. if i \<in> ino ` set paths
      then chowned (fst (owner s i) + uo, snd (owner s i) + go) (owner s i) else owner s i)"
proof -
  have "owner (snd (op_fsetxattr_notsup ops baseDir s)) = owner s" using assms(1) by (simp add: fs_law_def)
  then have "owner s1 = owner s" using c by (auto simp: checkACLSupport_def split: if_splits prod.splits)
  then have "walk_inv ino nlink uo go (owner s) [] (\<lambda>_. None) (owner s1)" by (simp add: walk_inv_def)
  moreover have "distinct ([] @ paths)" using assms(2) by simp
  moreover have "nlink (ino p) > 1" if "p \<in> set ([] @ paths)" "q \<in> set ([] @ paths)" "p \<noteq> q" "ino q = ino p" for p q
    using assms(3) [of p q] that by simp
  ultimately obtain hl' s' where
    "shift_walk ops acl uo go (map Visit paths) (\<lambda>_. None, s1) = (None, hl', s')"
    "walk_inv ino nlink uo go (owner s) ([] @ paths) hl' (owner s')"
    using shift_walk_owner [OF assms(1) subset_refl, of "[]"] by blast
  then show ?thesis using that by (simp add: walk_inv_def shift_owner_def cong: if_cong)
qed

text \<open>
  C11. On a file system that behaves as documented, \<open>ShiftIdsWithChown\<close> over distinct paths, those of the
  same inode having more than one link, returns no error and shifts the owner of every inode reached exactly
  once, whatever the number of links and the order of the walk, by the offsets modulo 2^32 (a sum of
  -1 leaves the id as it is), and the owner of no other inode.
\<close>

theorem ShiftIdsWithChown_once:
  assumes "fs_law ops (set paths) ino nlink owner acls" and "distinct paths"
    and "\<And>p q. p \<in> set paths \<Longrightarrow> q \<in> set paths \<Longrightarrow> p \<noteq> q \<Longrightarrow> ino p = ino q \<Longrightarrow> nlink (ino p) > 1"
  shows "\<exists>s'. ShiftIdsWithChown ops baseDir (map Visit paths) uo go s = (None, s') \<and>
    owner s' = (\<lambda>i. if i \<in> ino ` set paths
      then chowned (fst (owner s i) + uo, snd (owner s i) + go) (owner s i) else owner s i)"
proof -
  obtain acl s1 where c: "checkACLSupport ops baseDir s = (acl, s1)" by fastforce
  obtain hl' s' where "shift_walk ops acl uo go (map Visit paths) (\<lambda>_. None, s1) = (None, hl', s')"
    "owner s' = (\<lambda>i. if i \<in> ino ` set paths
      then chowned (fst (owner s i) + uo, snd (owner s i) + go) (owner s i) else owner s i)"
    by (rule shift_walk_once [OF assms c])
  then show ?thesis using c by (simp add: ShiftIdsWithChown_def)
qed

text \<open>
  C29. A shift that meets an error stops half way and undoes nothing. When the walk, after it visited \<open>paths\<close>, cannot list a
  directory \<open>d\<close> (any node but a symbolic link), \<open>ShiftIdsWithChown\<close> returns that error whatever the rest of the tree is, with the owners
  of exactly the inodes visited shifted; so a second call, on a tree that can be listed by then, shifts those twice
  and the others once.
\<close>

theorem ShiftIdsWithChown_half_done:
  assumes "fs_law ops (set (paths @ rest)) ino nlink owner acls" and "distinct (paths @ rest)"
    and "\<And>p q. p \<in> set (paths @ rest) \<Longrightarrow> q \<in> set (paths @ rest) \<Longrightarrow> p \<noteq> q \<Longrightarrow> ino p = ino q \<Longrightarrow> nlink (ino p) > 1"
    and "\<And>s st. op_lstat ops d s = Inr st \<Longrightarrow> \<not> mode_symlink (st_Mode st)"
  shows "\<exists>s1 s2. ShiftIdsWithChown ops baseDir (map Visit paths @ WalkErr d e # walk) uo go s = (Some e, s1) \<and>
    owner s1 = (\<lambda>i. if i \<in> ino ` set paths then chowned (shift_owner uo go (owner s i)) (owner s i) else owner s i) \<and>
    ShiftIdsWithChown ops baseDir (map Visit (paths @ rest)) uo go s1 = (None, s2) \<and>
    (\<forall>i. owner s2 i =
       (if i \<in> ino ` set paths then chowned (shift_owner uo go (owner s1 i)) (owner s1 i)
        else if i \<in> ino ` set rest then chowned (shift_owner uo go (owner s i)) (owner s i) else owner s i))"
proof -
  obtain acl t where c: "checkACLSupport ops baseDir s = (acl, t)" by fastforce
  have law: "fs_law ops (set paths) ino nlink owner acls" using assms(1) unfolding fs_law_def by simp
  have d: "distinct paths" using assms(2) by simp
  obtain hl' s1 where w: "shift_walk ops acl uo go (map Visit paths) (\<lambda>_. None, t) = (None, hl', s1)"
    and o1: "owner s1 = (\<lambda>i. if i \<in> ino ` set paths then chowned (shift_owner uo go (owner s i)) (owner s i) else owner s i)"
    unfolding shift_owner_def
    by (rule shift_walk_once [OF law d _ c, where uo = uo and go = go]) (use assms(3) in auto)
  have "\<not> error_skips ops d s1" using assms(4) by (auto simp: error_skips_def split: sum.split)
  then have r1: "ShiftIdsWithChown ops baseDir (map Visit paths @ WalkErr d e # walk) uo go s = (Some e, s1)"
    using c w by (simp add: ShiftIdsWithChown_def shift_walk_append)
  obtain acl' t' where c': "checkACLSupport ops baseDir s1 = (acl', t')" by fastforce
  obtain hl2 s2 where w2: "shift_walk ops acl' uo go (map Visit (paths @ rest)) (\<lambda>_. None, t') = (None, hl2, s2)"
    and o2: "owner s2 = (\<lambda>i. if i \<in> ino ` set (paths @ rest) then chowned (shift_owner uo go (owner s1 i)) (owner s1 i) else owner s1 i)"
    unfolding shift_owner_def
    by (rule shift_walk_once [OF assms(1-3) c', where uo = uo and go = go])
  have r2: "ShiftIdsWithChown ops baseDir (map Visit (paths @ rest)) uo go s1 = (None, s2)"
    using c' w2 by (simp add: ShiftIdsWithChown_def)
  have "owner s2 i =
       (if i \<in> ino ` set paths then chowned (shift_owner uo go (owner s1 i)) (owner s1 i)
        else if i \<in> ino ` set rest then chowned (shift_owner uo go (owner s i)) (owner s i) else owner s i)" for i
    unfolding o2 using o1 by auto
  with r1 o1 r2 show ?thesis by blast
qed

lemma shift_walk_acl:
  assumes law: "fs_law ops Ps ino nlink owner acls" and "set ps \<subseteq> Ps"
    and ns: "\<And>p s st. p \<in> Ps \<Longrightarrow> op_lstat ops p s = Inr st \<Longrightarrow> \<not> mode_symlink (st_Mode st)"
  shows "\<exists>hl' s'. shift_walk ops True uo go (map Visit ps) (hl, s) = (None, hl', s') \<and>
    (\<forall>i. acls s' aclTypeAccess i =
       (shift_entries uo go ^^ length (filter (\<lambda>p. ino p = i) ps)) (acls s aclTypeAccess i))"
  using assms(2)
proof (induction ps arbitrary: hl s)
  case (Cons p ps)
  have p: "p \<in> Ps" using Cons.prems by simp
  obtain hl1 s1 where n: "shift_node ops True uo go p (hl, s) = (None, hl1, s1)"
    and a: "acls s1 aclTypeAccess = (acls s aclTypeAccess)(ino p := shift_entries uo go (acls s aclTypeAccess (ino p)))"
    by (rule shift_node_law [OF law p, of True uo go hl s]) (use ns [OF p] in blast)
  obtain hl' s' where "shift_walk ops True uo go (map Visit ps) (hl1, s1) = (None, hl', s')"
    "\<And>i. acls s' aclTypeAccess i = (shift_entries uo go ^^ length (filter (\<lambda>p. ino p = i) ps)) (acls s1 aclTypeAccess i)"
    using Cons.IH [of hl1 s1] Cons.prems by auto
  then show ?case using n a by (auto simp: funpow_swap1)
qed simp


section \<open>Entries of an access control list\<close>

lemma sint_32: "sint (w :: 32 word) = (if uint w < 2 ^ 31 then uint w else uint w - 2 ^ 32)"
proof -
  have b: "0 \<le> uint w" "uint w < 2 ^ 32" using uint_lt2p [of w] by simp_all
  have "sint w = signed_take_bit 31 (uint w)" by (simp add: sint_uint)
  also have "\<dots> = (uint w + 2 ^ 31) mod 2 ^ 32 - 2 ^ 31" by (simp add: signed_take_bit_eq_take_bit_shift take_bit_eq_mod)
  also have "\<dots> = (if uint w < 2 ^ 31 then uint w else uint w - 2 ^ 32)"
  proof (cases "uint w < 2 ^ 31")
    case True
    then show ?thesis using b by simp
  next
    case False
    have "(uint w + 2 ^ 31) mod 2 ^ 32 = (uint w + 2 ^ 31 - 2 ^ 32) mod 2 ^ 32"
      by (rule minus_mod_self2 [symmetric])
    also have "\<dots> = uint w + 2 ^ 31 - 2 ^ 32" by (rule mod_pos_pos_trivial) (use b False in simp_all)
    finally show ?thesis using False by simp
  qed
  finally show ?thesis .
qed

lemma shift_qualifier_eq:
  assumes "n < 2 ^ 32"
  shows "shift_qualifier off (show_nat n) = Some (show_nat
    (let m = unat ((of_nat n :: 32 word) + off) in if m < 2 ^ 31 then m else m + (2 ^ 64 - 2 ^ 32)))"
proof -
  define w where "w = (of_nat n :: 32 word) + off"
  have u: "uint w = int (unat w)" by simp
  have b: "unat w < 2 ^ 32" using unsigned_less [of w, where ?'a = nat] by simp
  have "nat (sint w mod 2 ^ 64) = (if unat w < 2 ^ 31 then unat w else unat w + (2 ^ 64 - 2 ^ 32))"
  proof (cases "unat w < 2 ^ 31")
    case True
    then have "int (unat w) < int (2 ^ 31)" by (simp only: of_nat_less_iff)
    then have "uint w < 2 ^ 31" unfolding u by simp
    then have "sint w = int (unat w)" unfolding sint_32 by (simp only: if_True u)
    moreover have "int (unat w) mod 2 ^ 64 = int (unat w)"
    proof -
      have "int (unat w) < int (2 ^ 32)" using b by (simp only: of_nat_less_iff)
      then have "int (unat w) < 2 ^ 64" by (rule less_trans) simp
      then show ?thesis by (simp only: mod_pos_pos_trivial of_nat_0_le_iff)
    qed
    ultimately have "sint w mod 2 ^ 64 = int (unat w)" by (simp only:)
    then show ?thesis using True by (simp only: nat_int if_True)
  next
    case False
    then have "\<not> int (unat w) < int (2 ^ 31)" by (simp only: of_nat_less_iff not_False_eq_True)
    then have "\<not> uint w < 2 ^ 31" unfolding u by simp
    then have "sint w = int (unat w) - 2 ^ 32" unfolding sint_32 by (simp only: if_False u)
    then have "sint w mod 2 ^ 64 = (int (unat w) - 2 ^ 32 + 2 ^ 64) mod 2 ^ 64"
      by (simp only: mod_add_self2)
    also have "\<dots> = int (unat w) - 2 ^ 32 + 2 ^ 64"
      by (rule mod_pos_pos_trivial) (use uint_lt2p [of w] in \<open>simp_all flip: u\<close>)
    also have "\<dots> = int (unat w + (2 ^ 64 - 2 ^ 32))" by simp
    finally have "sint w mod 2 ^ 64 = int (unat w + (2 ^ 64 - 2 ^ 32))" .
    then show ?thesis using False by (simp only: nat_int if_False)
  qed
  then show ?thesis
    unfolding shift_qualifier_def ParseUint_show_nat [OF assms] option.case w_def [symmetric] Let_def by (simp only:)
qed

text \<open>An entry for an id; the entries of the owner, the owning group, the mask and the others have no qualifier.\<close>

definition acl_entry :: "acl_tag \<times> nat \<times> nat \<Rightarrow> AclEntry" where
  "acl_entry e = (case e of (t, i, p) \<Rightarrow>
     \<lparr>Tag = t, Qualifier = (case t of TagOther k \<Rightarrow> '''' | _ \<Rightarrow> show_nat i), Perms = p\<rparr>)"

definition shifted_id :: "32 word \<Rightarrow> nat \<Rightarrow> nat" where
  "shifted_id off n = (let m = unat ((of_nat n :: 32 word) + off) in if m < 2 ^ 31 then m else m + (2 ^ 64 - 2 ^ 32))"

definition shifted_entry :: "32 word \<Rightarrow> 32 word \<Rightarrow> acl_tag \<times> nat \<times> nat \<Rightarrow> acl_tag \<times> nat \<times> nat" where
  "shifted_entry uo go e = (case e of (t, i, p) \<Rightarrow>
     (t, (case t of TagUser \<Rightarrow> shifted_id uo i | TagGroup \<Rightarrow> shifted_id go i | TagOther k \<Rightarrow> i), p))"

lemma shift_acl_entries:
  "\<forall>e \<in> set es. fst (snd e) < 2 ^ 32 \<Longrightarrow>
   shift_acl uo go (map acl_entry es) new b = (new @ map (acl_entry \<circ> shifted_entry uo go) es,
     b \<or> (\<exists>e \<in> set es. fst e = TagUser \<or> fst e = TagGroup))"
proof (induction es arbitrary: new b)
  case (Cons e es)
  obtain t i p where e: "e = (t, i, p)" by (cases e)
  have q: "shift_qualifier off (show_nat i) = Some (show_nat (shifted_id off i))" for off
    using Cons.prems by (simp add: e shift_qualifier_eq shifted_id_def)
  have "\<forall>e \<in> set es. fst (snd e) < 2 ^ 32" using Cons.prems by simp
  note IH = Cons.IH [OF this]
  have a: "acl_entry (TagUser, j, p) = \<lparr>Tag = TagUser, Qualifier = show_nat j, Perms = p\<rparr>"
    "acl_entry (TagGroup, j, p) = \<lparr>Tag = TagGroup, Qualifier = show_nat j, Perms = p\<rparr>"
    "acl_entry (TagOther k, j, p) = \<lparr>Tag = TagOther k, Qualifier = [], Perms = p\<rparr>" for j k
    by (simp_all add: acl_entry_def)
  have h: "shifted_entry uo go (TagUser, i, p) = (TagUser, shifted_id uo i, p)"
    "shifted_entry uo go (TagGroup, i, p) = (TagGroup, shifted_id go i, p)"
    "shifted_entry uo go (TagOther k, i, p) = (TagOther k, i, p)" for k
    by (simp_all add: shifted_entry_def)
  show ?case by (cases t) (simp_all add: e a h q IH)
qed simp

lemma shift_acl_drops:
  assumes "Tag e = TagUser \<or> Tag e = TagGroup" and "ParseUint 32 (Qualifier e) = None"
  shows "shift_acl uo go (es @ e # es') new b = shift_acl uo go (es @ es') new b"
  using assms
  by (induction es arbitrary: new b) (auto simp: shift_qualifier_def split: option.splits)

text \<open>
  C30. Shifting a list whose entries name ids below 2^32: every entry stays, in its place and with its
  permissions, users moved by the user offset, groups by the group offset and the other entries as they
  are. The new id is the sum modulo 2^32 when that is below 2^31; above, the text written is
  the sum plus 2^64 - 2^32.
\<close>

theorem shift_entries_ids:
  assumes "\<And>t i p. (t, i, p) \<in> set es \<Longrightarrow> i < 2 ^ 32"
  shows "shift_entries uo go (map acl_entry es) = map (acl_entry \<circ> shifted_entry uo go) es"
proof -
  have keep: "map (acl_entry \<circ> shifted_entry uo go) es = map acl_entry es"
    if "\<not> (\<exists>e \<in> set es. fst e = TagUser \<or> fst e = TagGroup)"
    using that by (fastforce simp: acl_entry_def shifted_entry_def split: acl_tag.splits)
  have "\<forall>e \<in> set es. fst (snd e) < 2 ^ 32" using assms by force
  from shift_acl_entries [OF this, of uo go "[]" False] show ?thesis
    using keep by (simp add: shift_entries_def)
qed

section \<open>A concrete file system\<close>

type_synonym demo_state = "(nat \<Rightarrow> 32 word \<times> 32 word) \<times> (aclType \<Rightarrow> nat \<Rightarrow> AclEntry list)"

definition demo_ino :: "string \<Rightarrow> nat" where
  "demo_ino p = (if p = ''/d'' then 1 else 2)"

definition demo_mode :: "string \<Rightarrow> FileMode" where
  "demo_mode p = \<lparr>mode_dir = (p = ''/d''), mode_symlink = False, mode_regular = (p \<noteq> ''/d''),
     mode_setuid = True, mode_setgid = False, mode_perm = 0\<rparr>"

definition demo_fs :: "(string, demo_state) fs_ops" where
  "demo_fs = \<lparr>op_open = (\<lambda>p s. True), op_fsetxattr_notsup = (\<lambda>p s. (False, s)),
     op_lstat = (\<lambda>p s. Inr \<lparr>st_Ino = demo_ino p, st_Uid = fst (fst s (demo_ino p)),
       st_Gid = snd (fst s (demo_ino p)), st_Nlink = 2, st_Mode = demo_mode p\<rparr>),
     op_lchown = (\<lambda>p u g s. (None, (fst s)(demo_ino p := chowned (u, g) (fst s (demo_ino p))), snd s)),
     op_chmod = (\<lambda>p m s. (None, s)),
     acl_get = (\<lambda>t p s. Inr (snd s t (demo_ino p))),
     acl_set = (\<lambda>t p es s. (None, fst s, (snd s)(t := (snd s t)(demo_ino p := es))))\<rparr>"

lemma demo_law: "fs_law demo_fs Ps demo_ino (\<lambda>_. 2) fst snd"
  by (simp add: fs_law_def demo_fs_def)

definition demo_state0 :: demo_state where
  "demo_state0 = (\<lambda>i. (0, 0), \<lambda>t i. map acl_entry [(TagUser, 1000, 6), (TagOther 3, 0, 4)])"

lemma ShiftIdsWithChown_once_witness:
  "\<exists>s'. ShiftIdsWithChown demo_fs ''/d'' (map Visit [''/d'', ''/d/a'', ''/d/b'']) 165536 165536 demo_state0 = (None, s') \<and>
    fst s' 2 = (165536, 165536)"
proof -
  let ?P = "[''/d'', ''/d/a'', ''/d/b'']"
  have "distinct ?P" by simp
  from ShiftIdsWithChown_once [OF demo_law this, of "''/d''" 165536 165536 demo_state0] obtain s' where
    s: "ShiftIdsWithChown demo_fs ''/d'' (map Visit ?P) 165536 165536 demo_state0 = (None, s')"
    "fst s' = (\<lambda>i. if i \<in> demo_ino ` set ?P
      then chowned (fst (fst demo_state0 i) + 165536, snd (fst demo_state0 i) + 165536) (fst demo_state0 i)
      else fst demo_state0 i)" by auto
  have "fst s' 2 = (165536, 165536)" unfolding s(2) by (simp add: demo_ino_def demo_state0_def chowned_def)
  with s(1) show ?thesis by blast
qed

lemma ShiftIdsWithChown_half_done_witness:
  "\<exists>s1 s2. ShiftIdsWithChown demo_fs ''/d'' (map Visit [''/d''] @ WalkErr ''/d'' ''EACCES'' # []) 1000 1000 demo_state0 =
      (Some ''EACCES'', s1) \<and>
    ShiftIdsWithChown demo_fs ''/d'' (map Visit ([''/d''] @ [''/d/a''])) 1000 1000 s1 = (None, s2) \<and>
    fst s2 1 = (2000, 2000) \<and> fst s2 2 = (1000, 1000)"
proof -
  have d: "distinct ([''/d''] @ [''/d/a''])" by simp
  have l: "\<not> mode_symlink (st_Mode st)" if "op_lstat demo_fs ''/d'' s = Inr st" for s st
    using that by (auto simp: demo_fs_def demo_mode_def)
  have "\<exists>s1 s2. ShiftIdsWithChown demo_fs ''/d'' (map Visit [''/d''] @ WalkErr ''/d'' ''EACCES'' # []) 1000 1000 demo_state0 =
      (Some ''EACCES'', s1) \<and>
    fst s1 = (\<lambda>i. if i \<in> demo_ino ` set [''/d''] then chowned (shift_owner 1000 1000 (fst demo_state0 i)) (fst demo_state0 i)
      else fst demo_state0 i) \<and>
    ShiftIdsWithChown demo_fs ''/d'' (map Visit ([''/d''] @ [''/d/a''])) 1000 1000 s1 = (None, s2) \<and>
    (\<forall>i. fst s2 i = (if i \<in> demo_ino ` set [''/d''] then chowned (shift_owner 1000 1000 (fst s1 i)) (fst s1 i)
      else if i \<in> demo_ino ` set [''/d/a''] then chowned (shift_owner 1000 1000 (fst demo_state0 i)) (fst demo_state0 i)
      else fst demo_state0 i))"
    by (rule ShiftIdsWithChown_half_done [OF demo_law d _ l]) simp
  then obtain s1 s2 where s:
    "ShiftIdsWithChown demo_fs ''/d'' (map Visit [''/d''] @ WalkErr ''/d'' ''EACCES'' # []) 1000 1000 demo_state0 = (Some ''EACCES'', s1)"
    "fst s1 = (\<lambda>i. if i \<in> demo_ino ` set [''/d''] then chowned (shift_owner 1000 1000 (fst demo_state0 i)) (fst demo_state0 i)
      else fst demo_state0 i)"
    "ShiftIdsWithChown demo_fs ''/d'' (map Visit ([''/d''] @ [''/d/a''])) 1000 1000 s1 = (None, s2)"
    "\<forall>i. fst s2 i = (if i \<in> demo_ino ` set [''/d''] then chowned (shift_owner 1000 1000 (fst s1 i)) (fst s1 i)
      else if i \<in> demo_ino ` set [''/d/a''] then chowned (shift_owner 1000 1000 (fst demo_state0 i)) (fst demo_state0 i)
      else fst demo_state0 i)"
    by (elim exE conjE) (rule that)
  have "fst s2 1 = (2000, 2000)" "fst s2 2 = (1000, 1000)"
    by (simp_all add: s(2,4) demo_ino_def demo_state0_def chowned_def shift_owner_def)
  with s(1,3) show ?thesis by blast
qed

lemma demo_entries:
  assumes "i < 2 ^ 30"
  shows "shift_entries 165536 165536 (map acl_entry [(TagUser, i, 6), (TagOther 3, 0, 4)]) =
    map acl_entry [(TagUser, i + 165536, 6), (TagOther 3, 0, 4)]"
proof -
  let ?es = "[(TagUser, i, 6), (TagOther 3, 0, 4)] :: (acl_tag \<times> nat \<times> nat) list"
  have "\<forall>e \<in> set ?es. fst (snd e) < 2 ^ 32" using assms by simp
  from shift_acl_entries [OF this, of 165536 165536 "[]" False]
  have "shift_entries 165536 165536 (map acl_entry ?es) = map (acl_entry \<circ> shifted_entry 165536 165536) ?es"
    by (simp add: shift_entries_def del: list.map)
  moreover have "shifted_id 165536 i = i + 165536"
  proof -
    have "(of_nat i :: 32 word) + 165536 = of_nat (i + 165536)" by simp
    then have "unat ((of_nat i :: 32 word) + 165536) = (i + 165536) mod 2 ^ 32"
      by (simp only: unsigned_of_nat) (simp add: take_bit_eq_mod)
    then show ?thesis using assms by (simp add: shifted_id_def)
  qed
  ultimately show ?thesis by (simp add: shifted_entry_def)
qed


lemma shift_entries_ids_witness:
  "shift_entries 165536 165536 (map acl_entry [(TagUser, 1000, 6), (TagGroup, 2147483648, 4)]) =
    map acl_entry [(TagUser, 166536, 6), (TagGroup, 18446744071562233504, 4)]"
proof -
  let ?es = "[(TagUser, 1000, 6), (TagGroup, 2147483648, 4)] :: (acl_tag \<times> nat \<times> nat) list"
  have "shift_entries 165536 165536 (map acl_entry ?es) = map (acl_entry \<circ> shifted_entry 165536 165536) ?es"
    by (rule shift_entries_ids) auto
  also have "\<dots> = map acl_entry [(TagUser, 166536, 6), (TagGroup, 18446744071562233504, 4)]"
    by (simp add: shifted_entry_def shifted_id_def)
  finally show ?thesis .
qed

section \<open>The ids of a tree\<close>

text \<open>The error that ends the walk at an item.\<close>

definition item_err :: "('e, 's) fs_ops \<Rightarrow> 's \<Rightarrow> 'e walk_item \<Rightarrow> 'e option" where
  "item_err ops s x = (case x of
      Visit p \<Rightarrow> (case op_lstat ops p s of Inl e \<Rightarrow> Some e | Inr st \<Rightarrow> None)
    | WalkErr p e \<Rightarrow> Some e)"

lemma item_err_None: "item_err ops s x = None \<longleftrightarrow> (\<exists>p st. x = Visit p \<and> op_lstat ops p s = Inr st)"
  by (auto simp: item_err_def split: walk_item.splits sum.splits)

lemma dir_ids_cases:
  "(case dir_ids ops s xs (us0, gs0) of
      Inl e \<Rightarrow> \<exists>ys x zs. xs = ys @ x # zs \<and> item_err ops s x = Some e \<and> list_all (\<lambda>x. item_err ops s x = None) ys
    | Inr (us, gs) \<Rightarrow> list_all (\<lambda>x. item_err ops s x = None) xs \<and>
        us = us0 \<union> {st_Uid st |st. \<exists>p. Visit p \<in> set xs \<and> op_lstat ops p s = Inr st} \<and>
        gs = gs0 \<union> {st_Gid st |st. \<exists>p. Visit p \<in> set xs \<and> op_lstat ops p s = Inr st})"
proof (induction xs arbitrary: us0 gs0)
  case (Cons x xs)
  show ?case
  proof (cases "item_err ops s x")
    case (Some e)
    then have "dir_ids ops s (x # xs) (us0, gs0) = Inl e"
      by (auto simp: item_err_def split: walk_item.splits sum.splits)
    then show ?thesis using Some by (auto intro!: exI [of _ "[]"])
  next
    case None
    then obtain p st where x: "x = Visit p" "op_lstat ops p s = Inr st" by (auto simp: item_err_None)
    note IH = Cons.IH [of "insert (st_Uid st) us0" "insert (st_Gid st) gs0"]
    show ?thesis
    proof (cases "dir_ids ops s xs (insert (st_Uid st) us0, insert (st_Gid st) gs0)")
      case (Inl e)
      then obtain ys y zs where "xs = ys @ y # zs" "item_err ops s y = Some e" "list_all (\<lambda>x. item_err ops s x = None) ys"
        using IH by auto
      then show ?thesis using Inl x None by (auto intro!: exI [of _ "x # ys"])
    next
      case (Inr r)
      then show ?thesis using IH x None by (cases r) auto
    qed
  qed
qed simp

text \<open>
  \<open>GetDirIDs\<close> gives the user ids and the group ids that occur in the tree, each once; when a path
  cannot be read it gives the error of the first such path and no ids.
\<close>

theorem GetDirIDs_exact:
  assumes "\<And>A. finite A \<Longrightarrow> set (to_slice A) = A \<and> distinct (to_slice A)"
  shows "case GetDirIDs to_slice ops s walk of
      Inl e \<Rightarrow> \<exists>ys x zs. walk = ys @ x # zs \<and> item_err ops s x = Some e \<and> list_all (\<lambda>x. item_err ops s x = None) ys
    | Inr (us, gs) \<Rightarrow> list_all (\<lambda>x. item_err ops s x = None) walk \<and> distinct us \<and> distinct gs \<and>
        set us = {st_Uid st |st. \<exists>p. Visit p \<in> set walk \<and> op_lstat ops p s = Inr st} \<and>
        set gs = {st_Gid st |st. \<exists>p. Visit p \<in> set walk \<and> op_lstat ops p s = Inr st}"
proof -
  have f: "set (to_slice A) = A \<and> distinct (to_slice A)" for A :: "32 word set"
    by (rule assms) simp
  show ?thesis using dir_ids_cases [where ops = ops and s = s and xs = walk and ?us0.0 = "{}" and ?gs0.0 = "{}"]
    by (cases "dir_ids ops s walk ({}, {})") (auto simp: GetDirIDs_def f split: prod.splits)
qed

lemma GetDirIDs_exact_witness:
  "\<exists>us gs. GetDirIDs sorted_list_of_set demo_fs demo_state0 (map Visit [''/d'', ''/d/a'']) = Inr (us, gs) \<and> set us = {0} \<and> distinct gs"
proof -
  have s: "set (sorted_list_of_set A) = A \<and> distinct (sorted_list_of_set A)" if "finite A" for A :: "32 word set"
    using that by simp
  have l: "op_lstat demo_fs p demo_state0 = Inr st \<longleftrightarrow> st = \<lparr>st_Ino = demo_ino p, st_Uid = 0,
       st_Gid = 0, st_Nlink = 2, st_Mode = demo_mode p\<rparr>" for p st
    by (auto simp: demo_fs_def demo_state0_def)
  obtain us gs where "GetDirIDs sorted_list_of_set demo_fs demo_state0 (map Visit [''/d'', ''/d/a'']) = Inr (us, gs)"
    by (simp add: GetDirIDs_def demo_fs_def)
  then show ?thesis
    using GetDirIDs_exact [where to_slice = sorted_list_of_set and ops = demo_fs and s = demo_state0 and
      walk = "map Visit [''/d'', ''/d/a'']", OF s]
    by (auto simp: l intro: exI [of _ "\<lparr>st_Ino = demo_ino ''/d'', st_Uid = 0, st_Gid = 0, st_Nlink = 2, st_Mode = demo_mode ''/d''\<rparr>"])
qed

end
