(* ===== verification/IdShiftUndo.thy ===== *)
theory IdShiftUndo
  imports IdShift
begin

text \<open>
  Two calls of \<open>idShiftUtils/idShiftUtils.go\<close> after one another: \<open>ShiftIdsWithChown\<close> by an offset and back,
  which is how a container's root file system is prepared and reverted, and \<open>GetDirIDs\<close> on a shifted tree.
\<close>

section \<open>One call\<close>

definition visits :: "(string \<Rightarrow> nat) \<Rightarrow> string list \<Rightarrow> nat \<Rightarrow> nat" where
  "visits ino paths i = length (filter (\<lambda>p. ino p = i) paths)"

lemma visits_distinct:
  assumes "distinct ps" and "distinct qs" and "set ps = set qs"
  shows "visits ino ps = visits ino qs"
proof
  fix i
  have "visits ino xs i = card {p \<in> set xs. ino p = i}" if "distinct xs" for xs :: "string list"
    using distinct_card [OF distinct_filter [OF that], of "\<lambda>p. ino p = i"] by (simp add: visits_def)
  then show "visits ino ps i = visits ino qs i" using assms by simp
qed

text \<open>What is asked of a tree, for both the owners and the lists to be shifted: \<open>distinct\<close> paths, more than one link where two name an inode, no symbolic links and a file system with access control lists.\<close>

definition plain_tree where
  "plain_tree ops (nlink :: nat \<Rightarrow> nat) ino baseDir paths \<longleftrightarrow>
     (\<forall>p q. p \<in> set paths \<and> q \<in> set paths \<and> p \<noteq> q \<and> ino p = ino q \<longrightarrow> nlink (ino p) > 1) \<and>
     (\<forall>p s st. p \<in> set paths \<and> op_lstat ops p s = Inr st \<longrightarrow> \<not> mode_symlink (st_Mode st)) \<and>
     (\<forall>s. op_open ops baseDir s \<and> \<not> fst (op_fsetxattr_notsup ops baseDir s))"

lemma shift_effect:
  assumes law: "fs_law ops (set paths) ino nlink owner acls" and d: "distinct paths"
    and t: "plain_tree ops nlink ino baseDir paths"
  obtains s' where "ShiftIdsWithChown ops baseDir (map Visit paths) uo go s = (None, s')"
    "owner s' = (\<lambda>i. if i \<in> ino ` set paths then chowned (shift_owner uo go (owner s i)) (owner s i) else owner s i)"
    "\<And>i. acls s' aclTypeAccess i = (shift_entries uo go ^^ visits ino paths i) (acls s aclTypeAccess i)"
proof -
  define s1 where "s1 = snd (op_fsetxattr_notsup ops baseDir s)"
  have s1: "acls s1 = acls s" "owner s1 = owner s" using law by (simp_all add: s1_def fs_law_def)
  have c: "checkACLSupport ops baseDir s = (True, s1)"
    using t by (simp add: plain_tree_def checkACLSupport_def s1_def split_beta)
  have links: "nlink (ino p) > 1" if "p \<in> set ([] @ paths)" "q \<in> set ([] @ paths)" "p \<noteq> q" "ino q = ino p" for p q
    using that t by (metis append_Nil plain_tree_def)
  have ns: "\<not> mode_symlink (st_Mode st)" if "p \<in> set paths" "op_lstat ops p s = Inr st" for p s st
    using that t by (simp add: plain_tree_def)
  have d': "distinct ([] @ paths)" using d by simp
  have "walk_inv ino nlink uo go (owner s) [] (\<lambda>_. None) (owner s1)" by (simp add: walk_inv_def s1)
  then have "\<exists>hl' s'. shift_walk ops True uo go (map Visit paths) (\<lambda>_. None, s1) = (None, hl', s') \<and>
      walk_inv ino nlink uo go (owner s) ([] @ paths) hl' (owner s')"
    by (intro shift_walk_owner [OF law subset_refl d' links])
  then obtain hl' s' where
    w: "shift_walk ops True uo go (map Visit paths) (\<lambda>_. None, s1) = (None, hl', s')"
      "walk_inv ino nlink uo go (owner s) paths hl' (owner s')"
    unfolding append_Nil by (elim exE conjE)
  moreover have "\<forall>i. acls s' aclTypeAccess i = (shift_entries uo go ^^ visits ino paths i) (acls s aclTypeAccess i)"
    using shift_walk_acl [OF law subset_refl ns, where uo = uo and go = go and hl = "\<lambda>_. None" and s = s1]
    by (simp add: w(1) s1 visits_def)
  ultimately show ?thesis using that [of s'] c by (simp add: ShiftIdsWithChown_def walk_inv_def)
qed

lemma dir_ids_law:
  assumes law: "fs_law ops Ps ino nlink owner acls" and "set ps \<subseteq> Ps"
  shows "dir_ids ops s (map Visit ps) (us, gs) =
    Inr (us \<union> (\<lambda>p. fst (owner s (ino p))) ` set ps, gs \<union> (\<lambda>p. snd (owner s (ino p))) ` set ps)"
  using assms(2)
proof (induction ps arbitrary: us gs)
  case (Cons p ps)
  obtain m where "op_lstat ops p s = Inr \<lparr>st_Ino = ino p, st_Uid = fst (owner s (ino p)),
      st_Gid = snd (owner s (ino p)), st_Nlink = nlink (ino p), st_Mode = m\<rparr>"
    using law Cons.prems unfolding fs_law_def by fastforce
  then show ?case using Cons by (simp add: insert_commute)
qed simp

section \<open>Entries under several shifts\<close>

text \<open>The entry after \<open>k\<close> shifts, of ids that stay below 2^31.\<close>

definition id_after :: "32 word \<Rightarrow> nat \<Rightarrow> nat \<Rightarrow> nat" where
  "id_after off k i = unat ((of_nat i :: 32 word) + of_nat k * off)"

definition tag_offset :: "32 word \<Rightarrow> 32 word \<Rightarrow> acl_tag \<Rightarrow> 32 word" where
  "tag_offset uo go t = (case t of TagUser \<Rightarrow> uo | TagGroup \<Rightarrow> go | TagOther k \<Rightarrow> 0)"

definition entry_after :: "32 word \<Rightarrow> 32 word \<Rightarrow> nat \<Rightarrow> acl_tag \<times> nat \<times> nat \<Rightarrow> acl_tag \<times> nat \<times> nat" where
  "entry_after uo go k e = (case e of (t, i, p) \<Rightarrow> (t, id_after (tag_offset uo go t) k i, p))"

definition entries_after :: "32 word \<Rightarrow> 32 word \<Rightarrow> nat \<Rightarrow> (acl_tag \<times> nat \<times> nat) list \<Rightarrow> AclEntry list" where
  "entries_after uo go k es = map acl_entry (map (entry_after uo go k) es)"

definition ids_small :: "32 word \<Rightarrow> 32 word \<Rightarrow> nat \<Rightarrow> (acl_tag \<times> nat \<times> nat) list \<Rightarrow> bool" where
  "ids_small uo go k es \<longleftrightarrow> (\<forall>(t, i, p) \<in> set es. i < 2 ^ 31 \<and> (\<forall>j \<le> k. id_after (tag_offset uo go t) j i < 2 ^ 31))"

lemma id_after_0: "i < 2 ^ 31 \<Longrightarrow> id_after off 0 i = i"
  by (simp add: id_after_def unsigned_of_nat take_bit_nat_eq_self)

lemma shifted_id_after:
  "id_after off (Suc k) i < 2 ^ 31 \<Longrightarrow> shifted_id off (id_after off k i) = id_after off (Suc k) i"
  "id_after off k i < 2 ^ 31 \<Longrightarrow> shifted_id (- off) (id_after off (Suc k) i) = id_after off k i"
  by (simp_all add: shifted_id_def id_after_def algebra_simps)

lemma shifted_entry_after:
  assumes "id_after (tag_offset uo go t) k i < 2 ^ 31" and "id_after (tag_offset uo go t) (Suc k) i < 2 ^ 31"
  shows "acl_entry (shifted_entry uo go (entry_after uo go k (t, i, p))) = acl_entry (entry_after uo go (Suc k) (t, i, p))"
    and "acl_entry (shifted_entry (- uo) (- go) (entry_after uo go (Suc k) (t, i, p))) = acl_entry (entry_after uo go k (t, i, p))"
  using assms by (cases t; simp add: acl_entry_def shifted_entry_def entry_after_def tag_offset_def shifted_id_after)+

lemma shift_entries_map:
  assumes "\<forall>e \<in> set es. fst (snd e) < 2 ^ 32"
  shows "shift_entries uo go (map acl_entry es) = map (acl_entry \<circ> shifted_entry uo go) es"
proof -
  have "map (acl_entry \<circ> shifted_entry uo go) es = map acl_entry es"
    if "\<not> (\<exists>e \<in> set es. fst e = TagUser \<or> fst e = TagGroup)"
    using that by (fastforce simp: acl_entry_def shifted_entry_def split: acl_tag.splits)
  then show ?thesis using shift_acl_entries [OF assms, of uo go "[]" False] by (simp add: shift_entries_def)
qed

lemma shift_entries_after:
  assumes "ids_small uo go (Suc k) es"
  shows "shift_entries uo go (entries_after uo go k es) = entries_after uo go (Suc k) es"
    and "shift_entries (- uo) (- go) (entries_after uo go (Suc k) es) = entries_after uo go k es"
proof -
  have i: "id_after (tag_offset uo go t) j i < 2 ^ 31" if "(t, i, p) \<in> set es" "j \<le> Suc k" for t i p j
    using assms that unfolding ids_small_def by blast
  have b: "\<forall>e \<in> set (map (entry_after uo go j) es). fst (snd e) < 2 ^ 32" if "j \<le> Suc k" for j
  proof
    fix e assume "e \<in> set (map (entry_after uo go j) es)"
    then obtain t i p where "(t, i, p) \<in> set es" "e = entry_after uo go j (t, i, p)" by auto
    then show "fst (snd e) < 2 ^ 32" using i [OF _ that] by (force simp: entry_after_def)
  qed
  have e: "acl_entry (shifted_entry uo go (entry_after uo go k e)) = acl_entry (entry_after uo go (Suc k) e)"
    "acl_entry (shifted_entry (- uo) (- go) (entry_after uo go (Suc k) e)) = acl_entry (entry_after uo go k e)"
    if "e \<in> set es" for e
  proof -
    obtain t i p where e: "e = (t, i, p)" by (cases e)
    note b = i [OF that [unfolded e]]
    show "acl_entry (shifted_entry uo go (entry_after uo go k e)) = acl_entry (entry_after uo go (Suc k) e)"
      "acl_entry (shifted_entry (- uo) (- go) (entry_after uo go (Suc k) e)) = acl_entry (entry_after uo go k e)"
      unfolding e by (rule shifted_entry_after; rule b; simp)+
  qed
  show "shift_entries uo go (entries_after uo go k es) = entries_after uo go (Suc k) es"
    using e(1) unfolding entries_after_def shift_entries_map [OF b [of k, OF le_SucI [OF order_refl]]] by simp
  show "shift_entries (- uo) (- go) (entries_after uo go (Suc k) es) = entries_after uo go k es"
    using e(2) unfolding entries_after_def shift_entries_map [OF b [of "Suc k", OF order_refl]] by simp
qed

lemma ids_small_mono: "ids_small uo go k es \<Longrightarrow> j \<le> k \<Longrightarrow> ids_small uo go j es"
  unfolding ids_small_def by (auto intro: order_trans)

lemma shift_entries_there:
  "ids_small uo go k es \<Longrightarrow> (shift_entries uo go ^^ k) (map acl_entry es) = entries_after uo go k es"
proof (induction k)
  case 0
  have "entry_after uo go 0 e = e" if "e \<in> set es" for e
    using 0 that by (cases e) (force simp: entry_after_def ids_small_def id_after_0)
  then show ?case by (simp add: entries_after_def)
next
  case (Suc k)
  then show ?case using ids_small_mono [OF Suc.prems, of k] by (simp add: shift_entries_after)
qed

lemma shift_entries_back:
  "ids_small uo go k es \<Longrightarrow> (shift_entries (- uo) (- go) ^^ k) (entries_after uo go k es) = map acl_entry es"
proof (induction k)
  case 0
  then show ?case using shift_entries_there [of uo go 0 es] by simp
next
  case (Suc k)
  then show ?case using ids_small_mono [OF Suc.prems, of k]
    by (simp only: funpow_Suc_right comp_apply shift_entries_after le_SucI order_refl)
qed

section \<open>Round trip\<close>

lemma chowned_back:
  assumes "fst ow \<notin> {- 1, - 1 - uo}" and "snd ow \<notin> {- 1, - 1 - go}"
  shows "chowned (shift_owner uo go ow) ow = shift_owner uo go ow"
    and "chowned (shift_owner (- uo) (- go) (shift_owner uo go ow)) (shift_owner uo go ow) = ow"
proof -
  have "fst ow + uo \<noteq> - 1" "snd ow + go \<noteq> - 1" using assms by (auto simp: eq_diff_eq)
  then show "chowned (shift_owner uo go ow) ow = shift_owner uo go ow"
    by (simp add: chowned_def shift_owner_def)
  show "chowned (shift_owner (- uo) (- go) (shift_owner uo go ow)) (shift_owner uo go ow) = ow"
    using assms by (simp add: chowned_def shift_owner_def)
qed



text \<open>
  The ids \<open>GetDirIDs\<close> finds below a directory after a shift are the ids it found before, moved by the
  offsets, when none of the moved ids is -1.
\<close>

theorem GetDirIDs_after_shift:
  assumes "fs_law ops (set paths) ino nlink owner acls" and "distinct paths"
    and "plain_tree ops nlink ino baseDir paths"
    and "\<And>i. i \<in> ino ` set paths \<Longrightarrow> fst (owner s i) + uo \<noteq> - 1 \<and> snd (owner s i) + go \<noteq> - 1"
  shows "\<exists>s' us gs. ShiftIdsWithChown ops baseDir (map Visit paths) uo go s = (None, s') \<and>
    GetDirIDs to_slice ops s (map Visit paths) = Inr (to_slice us, to_slice gs) \<and>
    GetDirIDs to_slice ops s' (map Visit paths) = Inr (to_slice ((\<lambda>u. u + uo) ` us), to_slice ((\<lambda>g. g + go) ` gs))"
proof -
  obtain s' where s': "ShiftIdsWithChown ops baseDir (map Visit paths) uo go s = (None, s')"
    "owner s' = (\<lambda>i. if i \<in> ino ` set paths then chowned (shift_owner uo go (owner s i)) (owner s i) else owner s i)"
    using shift_effect [OF assms(1-3)] by blast
  have o: "owner s' (ino p) = (fst (owner s (ino p)) + uo, snd (owner s (ino p)) + go)" if "p \<in> set paths" for p
    using assms(4) [of "ino p"] that by (simp add: s'(2) chowned_def shift_owner_def)
  let ?ids = "\<lambda>f t. (\<lambda>p. f (owner t (ino p))) ` set paths"
  have g: "GetDirIDs to_slice ops t (map Visit paths) = Inr (to_slice (?ids fst t), to_slice (?ids snd t))" for t
    by (simp add: GetDirIDs_def dir_ids_law [OF assms(1) subset_refl])
  have "?ids fst s' = (\<lambda>u. u + uo) ` ?ids fst s" "?ids snd s' = (\<lambda>g. g + go) ` ?ids snd s"
    by (simp_all add: image_image o cong: image_cong_simp)
  then show ?thesis using s'(1) g [of s] g [of s'] by metis
qed

lemma GetDirIDs_after_shift_witness:
  "\<exists>s' us gs. ShiftIdsWithChown demo_fs ''/d'' (map Visit [''/d'', ''/d/a'', ''/d/b'']) 165536 165536 demo_state0 = (None, s') \<and>
    GetDirIDs sorted_list_of_set demo_fs demo_state0 (map Visit [''/d'', ''/d/a'', ''/d/b'']) = Inr (sorted_list_of_set us, sorted_list_of_set gs) \<and>
    GetDirIDs sorted_list_of_set demo_fs s' (map Visit [''/d'', ''/d/a'', ''/d/b'']) =
      Inr (sorted_list_of_set ((\<lambda>u. u + 165536) ` us), sorted_list_of_set ((\<lambda>g. g + 165536) ` gs))"
  by (rule GetDirIDs_after_shift [OF demo_law])
    (auto simp: plain_tree_def demo_fs_def demo_mode_def demo_state0_def)

end
