(* ===== verification/Slices.thy ===== *)
theory Slices
  imports GoStrings "HOL-Library.Sublist"
begin

text \<open>
  The helpers on slices of \<open>utils/slices.go\<close> and the environment variables of \<open>utils/env.go\<close>. A loop
  with a \<open>found\<close> flag and a \<open>break\<close> is the search it performs; a nil slice and an empty one are the
  same list.
\<close>

section \<open>Strings\<close>

fun slice_Contains :: "'a list \<Rightarrow> 'a \<Rightarrow> bool" where
  "slice_Contains [] x = False"
| "slice_Contains (y # a) x = (if y = x then True else slice_Contains a x)"

text \<open>The inner loop of the removals: \<open>eq\<close> compares the element with one of \<open>db\<close>.\<close>

fun found_in :: "('a \<Rightarrow> 'a \<Rightarrow> bool) \<Rightarrow> 'a \<Rightarrow> 'a list \<Rightarrow> bool" where
  "found_in eq x [] = False"
| "found_in eq x (e # db) = (if eq x e then True else found_in eq x db)"

fun remove_loop :: "('a \<Rightarrow> bool) \<Rightarrow> 'a list \<Rightarrow> 'a list \<Rightarrow> 'a list" where
  "remove_loop drop_it [] r = r"
| "remove_loop drop_it (x # s) r = remove_loop drop_it s (if \<not> drop_it x then r @ [x] else r)"

definition StringSliceContains :: "string list \<Rightarrow> string \<Rightarrow> bool" where
  "StringSliceContains a x = slice_Contains a x"

fun slice_Equal :: "'a list \<Rightarrow> 'a list \<Rightarrow> bool" where
  "slice_Equal a b =
    (if length a \<noteq> length b then False
     else list_all (\<lambda>i. a ! i = b ! i) [0..<length a])"

definition StringSliceEqual :: "string list \<Rightarrow> string list \<Rightarrow> bool" where
  "StringSliceEqual a b = slice_Equal a b"

definition StringSliceRemove :: "string list \<Rightarrow> string list \<Rightarrow> string list" where
  "StringSliceRemove s db = remove_loop (\<lambda>x. found_in (\<lambda>a e. a = e) x db) s []"

definition StringSliceRemoveMatch :: "string list \<Rightarrow> (string \<Rightarrow> bool) \<Rightarrow> string list" where
  "StringSliceRemoveMatch s match = remove_loop match s []"

text \<open>\<open>keys\<close> is the map of the strings seen so far.\<close>

fun uniquify_loop :: "string list \<Rightarrow> (string \<rightharpoonup> bool) \<Rightarrow> string list \<Rightarrow> string list" where
  "uniquify_loop [] keys result = result"
| "uniquify_loop (str # s) keys result =
     (if keys str = None then uniquify_loop s (keys(str \<mapsto> True)) (result @ [str])
      else uniquify_loop s keys result)"

definition StringSliceUniquify :: "string list \<Rightarrow> string list" where
  "StringSliceUniquify s = uniquify_loop s (\<lambda>_. None) []"

fun shortest_loop :: "string list \<Rightarrow> string \<Rightarrow> string" where
  "shortest_loop [] shortest = shortest"
| "shortest_loop (str # s) shortest =
     shortest_loop s (if length str < length shortest then str else shortest)"

definition StringSliceFindShortest :: "string list \<Rightarrow> string" where
  "StringSliceFindShortest s = (if length s = 0 then [] else shortest_loop s (s ! 0))"

section \<open>Mounts\<close>

text \<open>\<open>specs.Mount\<close> of the OCI runtime specification 1.0.2.\<close>

record Mount =
  Destination :: string
  MountType :: string
  Source :: string
  Options :: "string list"

definition MountSliceEqual :: "Mount list \<Rightarrow> Mount list \<Rightarrow> bool" where
  "MountSliceEqual a b =
    (if length a \<noteq> length b then False
     else list_all (\<lambda>i. \<not> (Destination (a ! i) \<noteq> Destination (b ! i) \<or> Source (a ! i) \<noteq> Source (b ! i) \<or>
        MountType (a ! i) \<noteq> MountType (b ! i) \<or> \<not> slice_Equal (Options (a ! i)) (Options (b ! i)))) [0..<length a])"

definition MountSliceRemove :: "Mount list \<Rightarrow> Mount list \<Rightarrow> (Mount \<Rightarrow> Mount \<Rightarrow> bool) \<Rightarrow> Mount list" where
  "MountSliceRemove s db cmp = remove_loop (\<lambda>x. found_in cmp x db) s []"

definition MountSliceRemoveMatch :: "Mount list \<Rightarrow> (Mount \<Rightarrow> bool) \<Rightarrow> Mount list" where
  "MountSliceRemoveMatch s match = remove_loop match s []"

fun MountSliceContains :: "Mount list \<Rightarrow> Mount \<Rightarrow> (Mount \<Rightarrow> Mount \<Rightarrow> bool) \<Rightarrow> bool" where
  "MountSliceContains [] x match = False"
| "MountSliceContains (m # s) x match = (if match m x then True else MountSliceContains s x match)"

section \<open>Environment variables\<close>

text \<open>The name and the value, \<open>None\<close> being the error.\<close>

definition GetEnvVarInfo :: "string \<Rightarrow> (string \<times> string) option" where
  "GetEnvVarInfo v =
    (let tokens = split_on (CHR ''='') v
     in if length tokens \<noteq> 2 then None else Some (tokens ! 0, tokens ! 1))"

text \<open>\<open>run\<close> executes a command with its arguments and tells whether it succeeded.\<close>

definition CmdExists :: "(string \<Rightarrow> string list \<Rightarrow> bool) \<Rightarrow> string \<Rightarrow> bool" where
  "CmdExists run name = (if \<not> run ''/bin/sh'' [''-c'', ''command -v '' @ name] then False else True)"

section \<open>The loops as list functions\<close>

lemma found_in_iff: "found_in eq x db \<longleftrightarrow> (\<exists>e \<in> set db. eq x e)"
  by (induction db) auto

lemma remove_loop_eq: "remove_loop p s r = r @ filter (\<lambda>x. \<not> p x) s"
  by (induction s arbitrary: r) simp_all

lemma slice_Contains_iff: "slice_Contains a x \<longleftrightarrow> x \<in> set a"
  by (induction a) auto

lemma slice_Equal_iff: "slice_Equal a b \<longleftrightarrow> a = b"
  unfolding slice_Equal.simps list_all_iff by (auto intro: nth_equalityI)

lemma MountSliceContains_iff: "MountSliceContains s x match \<longleftrightarrow> (\<exists>m \<in> set s. match m x)"
  by (induction s) auto

lemma Mount_eq:
  "m = n \<longleftrightarrow> Destination m = Destination n \<and> MountType m = MountType n \<and> Source m = Source n \<and> Options m = Options n"
  for m n :: Mount
  by (cases m; cases n) simp

lemma MountSliceEqual_iff: "MountSliceEqual a b \<longleftrightarrow> a = b"
proof -
  have e: "(\<not> (Destination m \<noteq> Destination n \<or> Source m \<noteq> Source n \<or> MountType m \<noteq> MountType n \<or>
      \<not> slice_Equal (Options m) (Options n))) = (m = n)" for m n :: Mount
    by (simp only: slice_Equal_iff Mount_eq) blast
  have "MountSliceEqual a b \<longleftrightarrow> length a = length b \<and> (\<forall>i < length a. a ! i = b ! i)"
    unfolding MountSliceEqual_def e by (auto simp: list_all_iff)
  then show ?thesis by (simp only: list_eq_iff_nth_eq)
qed

lemma uniquify_loop_eq:
  "uniquify_loop s keys result = result @ uniquify_loop s keys []"
proof (induction s arbitrary: keys result)
  case (Cons str s)
  show ?case
  proof (cases "keys str = None")
    case True
    then show ?thesis
      using Cons.IH [of "keys(str \<mapsto> True)" "result @ [str]"] Cons.IH [of "keys(str \<mapsto> True)" "[str]"]
      by (simp del: fun_upd_apply)
  next
    case False
    then show ?thesis using Cons.IH [of keys result] by (simp del: not_None_eq)
  qed
qed simp

lemma uniquify_loop_Cons:
  "keys str = None \<Longrightarrow> uniquify_loop (str # s) keys [] = str # uniquify_loop s (keys(str \<mapsto> True)) []"
  using uniquify_loop_eq [of s "keys(str \<mapsto> True)" "[str]"] by (simp del: fun_upd_apply)

lemma uniquify_loop_props:
  "distinct (uniquify_loop s keys []) \<and> set (uniquify_loop s keys []) = set s - dom keys \<and> subseq (uniquify_loop s keys []) s"
proof (induction s arbitrary: keys)
  case (Cons str s)
  show ?case
  proof (cases "keys str = None")
    case True
    have "dom (keys(str \<mapsto> True)) = insert str (dom keys)" by simp
    then show ?thesis
      using True Cons.IH [of "keys(str \<mapsto> True)"] uniquify_loop_Cons [of keys str s]
      by (auto simp del: fun_upd_apply simp: domIff)
  next
    case False
    then have "str \<in> dom keys" by auto
    then show ?thesis using False Cons.IH [of keys] by (auto simp del: not_None_eq)
  qed
qed simp

lemma remdups_snoc: "remdups (xs @ [x]) = filter (\<lambda>y. y \<noteq> x) (remdups xs) @ [x]"
  by (induction xs) auto

lemma uniquify_loop_first:
  "uniquify_loop s keys [] = rev (remdups (rev (filter (\<lambda>x. keys x = None) s)))"
proof (induction s arbitrary: keys)
  case (Cons str s)
  show ?case
  proof (cases "keys str = None")
    case True
    have "filter (\<lambda>x. (keys(str \<mapsto> True)) x = None) s = filter (\<lambda>x. x \<noteq> str) (filter (\<lambda>x. keys x = None) s)"
      unfolding filter_filter by (rule filter_cong) auto
    then have "uniquify_loop s (keys(str \<mapsto> True)) [] =
        rev (filter (\<lambda>x. x \<noteq> str) (remdups (rev (filter (\<lambda>x. keys x = None) s))))"
      unfolding Cons.IH by (simp add: remdups_filter rev_filter)
    then show ?thesis
      using True uniquify_loop_Cons [of keys str s] by (simp add: remdups_snoc del: fun_upd_apply)
  next
    case False
    then show ?thesis using Cons.IH [of keys] by (simp del: not_None_eq)
  qed
qed simp

section \<open>Properties\<close>

text \<open>
  The removals are filters: \<open>StringSliceRemove\<close> and \<open>MountSliceRemove\<close> keep, in order and with repetitions, exactly the
  elements that match none of \<open>db\<close>; so after a removal no element of \<open>db\<close> is contained, and equality and containment decide
  equality and membership.
\<close>

theorem slice_removals:
  "StringSliceRemove s db = filter (\<lambda>x. \<not> StringSliceContains db x) s \<and>
   (\<forall>x. StringSliceContains (StringSliceRemove s db) x \<longleftrightarrow> x \<in> set s \<and> x \<notin> set db) \<and>
   StringSliceRemoveMatch s p = filter (\<lambda>x. \<not> p x) s \<and>
   MountSliceRemove ms mdb cmp = filter (\<lambda>m. \<not> (\<exists>e \<in> set mdb. cmp m e)) ms \<and>
   MountSliceRemoveMatch ms mp = filter (\<lambda>m. \<not> mp m) ms \<and>
   (MountSliceContains ms m cmp \<longleftrightarrow> (\<exists>e \<in> set ms. cmp e m)) \<and>
   (StringSliceEqual s db \<longleftrightarrow> s = db) \<and> (MountSliceEqual ms mdb \<longleftrightarrow> ms = mdb)"
  by (auto simp: StringSliceRemove_def StringSliceContains_def StringSliceRemoveMatch_def MountSliceRemove_def
      MountSliceRemoveMatch_def StringSliceEqual_def remove_loop_eq found_in_iff slice_Contains_iff slice_Equal_iff
      MountSliceContains_iff MountSliceEqual_iff simp del: slice_Equal.simps intro!: filter_cong)

text \<open>
  \<open>StringSliceUniquify\<close> keeps the first occurrence of every string, in order: it is the reference definition that drops
  repeated elements from the right, without a duplicate, with the same elements, and doing it again changes nothing.
\<close>

theorem StringSliceUniquify_first:
  "StringSliceUniquify s = rev (remdups (rev s)) \<and> distinct (StringSliceUniquify s) \<and>
   set (StringSliceUniquify s) = set s \<and> subseq (StringSliceUniquify s) s \<and>
   StringSliceUniquify (StringSliceUniquify s) = StringSliceUniquify s"
proof -
  have eq: "StringSliceUniquify t = rev (remdups (rev t))" for t
    by (simp add: StringSliceUniquify_def uniquify_loop_first)
  moreover have "subseq (StringSliceUniquify s) s"
    using uniquify_loop_props [of s "\<lambda>_. None"] by (simp add: StringSliceUniquify_def)
  ultimately show ?thesis by simp
qed

lemma shortest_loop_props:
  "length (shortest_loop s t) \<le> length t \<and> (\<forall>u \<in> set s. length (shortest_loop s t) \<le> length u) \<and>
   (shortest_loop s t = t \<or> (\<exists>i < length s. shortest_loop s t = s ! i \<and> length (s ! i) < length t \<and>
      (\<forall>j < i. length (s ! i) < length (s ! j))))"
proof (induction s arbitrary: t)
  case (Cons u s)
  show ?case
  proof (cases "length u < length t")
    case True
    note IH = Cons.IH [of u]
    have "shortest_loop s u = u \<or> (\<exists>i < length s. shortest_loop s u = s ! i \<and> length (s ! i) < length u \<and>
      (\<forall>j < i. length (s ! i) < length (s ! j)))" using IH by blast
    then have "\<exists>i < length (u # s). shortest_loop s u = (u # s) ! i \<and> length ((u # s) ! i) < length t \<and>
      (\<forall>j < i. length ((u # s) ! i) < length ((u # s) ! j))"
    proof
      assume "shortest_loop s u = u"
      then show ?thesis using True by (intro exI [of _ 0]) simp
    next
      assume "\<exists>i < length s. shortest_loop s u = s ! i \<and> length (s ! i) < length u \<and>
        (\<forall>j < i. length (s ! i) < length (s ! j))"
      then obtain i where i: "i < length s" "shortest_loop s u = s ! i" "length (s ! i) < length u"
        "\<forall>j < i. length (s ! i) < length (s ! j)" by blast
      then show ?thesis using True by (intro exI [of _ "Suc i"]) (auto simp: nth_Cons split: nat.split)
    qed
    then show ?thesis using IH True by auto
  next
    case False
    note IH = Cons.IH [of t]
    have "shortest_loop s t = t \<or> (\<exists>i < length (u # s). shortest_loop s t = (u # s) ! i \<and> length ((u # s) ! i) < length t \<and>
      (\<forall>j < i. length ((u # s) ! i) < length ((u # s) ! j)))"
      using IH
    proof (elim conjE disjE)
      assume "\<exists>i < length s. shortest_loop s t = s ! i \<and> length (s ! i) < length t \<and>
        (\<forall>j < i. length (s ! i) < length (s ! j))"
      then obtain i where i: "i < length s" "shortest_loop s t = s ! i" "length (s ! i) < length t"
        "\<forall>j < i. length (s ! i) < length (s ! j)" by blast
      then show ?thesis using False by (intro disjI2 exI [of _ "Suc i"]) (auto simp: nth_Cons split: nat.split)
    qed simp
    then show ?thesis using IH False by auto
  qed
qed simp

text \<open>
  \<open>StringSliceFindShortest\<close> on a slice that is not empty gives its first element of minimal length; on an empty one the empty
  string.
\<close>

theorem StringSliceFindShortest_first:
  "(s = [] \<longrightarrow> StringSliceFindShortest s = []) \<and>
   (s \<noteq> [] \<longrightarrow> (\<exists>i < length s. StringSliceFindShortest s = s ! i \<and> (\<forall>u \<in> set s. length (s ! i) \<le> length u) \<and>
      (\<forall>j < i. length (s ! i) < length (s ! j))))"
proof (cases s)
  case (Cons t ts)
  have "StringSliceFindShortest s = shortest_loop ts t" by (simp add: StringSliceFindShortest_def Cons)
  moreover have "\<exists>i < length s. shortest_loop ts t = s ! i \<and> (\<forall>u \<in> set s. length (s ! i) \<le> length u) \<and>
      (\<forall>j < i. length (s ! i) < length (s ! j))"
    using shortest_loop_props [of ts t]
  proof (elim conjE disjE)
    assume "shortest_loop ts t = t" and "\<forall>u \<in> set ts. length (shortest_loop ts t) \<le> length u"
    then show ?thesis by (intro exI [of _ 0]) (simp add: Cons)
  next
    assume a: "\<forall>u \<in> set ts. length (shortest_loop ts t) \<le> length u" "length (shortest_loop ts t) \<le> length t"
      and "\<exists>i < length ts. shortest_loop ts t = ts ! i \<and> length (ts ! i) < length t \<and>
        (\<forall>j < i. length (ts ! i) < length (ts ! j))"
    then obtain i where i: "i < length ts" "shortest_loop ts t = ts ! i" "length (ts ! i) < length t"
        "\<forall>j < i. length (ts ! i) < length (ts ! j)" by blast
    then show ?thesis using a by (intro exI [of _ "Suc i"]) (auto simp: Cons nth_Cons split: nat.split)
  qed
  ultimately show ?thesis by (simp add: Cons)
qed (simp add: StringSliceFindShortest_def)

theorem StringSliceFindShortest_first_witness:
  "length (StringSliceFindShortest [''/a/b'', ''/a'', ''/c'']) = 2"
proof -
  let ?s = "[''/a/b'', ''/a'', ''/c'']"
  have "\<exists>i < length ?s. StringSliceFindShortest ?s = ?s ! i \<and> (\<forall>u \<in> set ?s. length (?s ! i) \<le> length u) \<and>
      (\<forall>j < i. length (?s ! i) < length (?s ! j))"
    using conjunct2 [OF StringSliceFindShortest_first [of ?s]] by (rule mp) simp
  then obtain i where i: "i < length ?s" "StringSliceFindShortest ?s = ?s ! i" "length (?s ! i) \<le> length ''/a''"
    by auto
  have "i = 0 \<or> i = 1 \<or> i = 2" using i(1) by auto
  then show ?thesis using i by auto
qed

text \<open>
  \<open>GetEnvVarInfo\<close> takes a variable apart into what it was put together from when neither part has an equals sign, and reports an
  error for every variable whose value has one, though such values are legal.
\<close>

theorem GetEnvVarInfo_exact:
  "GetEnvVarInfo v = Some (n, x) \<longleftrightarrow> v = n @ ''='' @ x \<and> CHR ''='' \<notin> set n \<and> CHR ''='' \<notin> set x"
proof
  assume "GetEnvVarInfo v = Some (n, x)"
  then have s: "split_on (CHR ''='') v = [n, x]"
    by (auto simp: GetEnvVarInfo_def Let_def numeral_2_eq_2 length_Suc_conv split: if_splits)
  have "v = str_join [CHR ''=''] (split_on (CHR ''='') v)" by (simp add: str_join_split_on)
  then show "v = n @ ''='' @ x \<and> CHR ''='' \<notin> set n \<and> CHR ''='' \<notin> set x"
    using s split_on_no_sep [of _ "CHR ''=''" v] by auto
next
  assume v: "v = n @ ''='' @ x \<and> CHR ''='' \<notin> set n \<and> CHR ''='' \<notin> set x"
  then have "split_on (CHR ''='') v = [n, x]" by (simp add: split_on_append_sep split_on_id)
  then show "GetEnvVarInfo v = Some (n, x)" by (simp add: GetEnvVarInfo_def)
qed

end
