(* ===== verification/FilepathOrder.thy ===== *)
theory FilepathOrder
  imports GoFilepath "HOL-Library.Multiset"
begin

text \<open>
  \<open>FilepathSort\<close> of \<open>utils/filepath.go\<close>: paths sorted by the number of their elements. Go's \<open>sort.Sort\<close> is an
  argument; what its documentation promises for a strict weak order is the locale \<open>go_sort\<close>.
\<close>

section \<open>The code\<close>

definition Less :: "string list \<Rightarrow> nat \<Rightarrow> nat \<Rightarrow> bool" where
  "Less fp i j =
    (let iClean = Clean (fp ! i); jClean = Clean (fp ! j);
         iElems = split_on (CHR ''/'') iClean; jElems = split_on (CHR ''/'') jClean
     in length iElems < length jElems)"

text \<open>The comparison of two paths behind \<open>Less\<close>.\<close>

definition path_less :: "string \<Rightarrow> string \<Rightarrow> bool" where
  "path_less p q = Less [p, q] 0 1"

definition Swap :: "string list \<Rightarrow> nat \<Rightarrow> nat \<Rightarrow> string list" where
  "Swap fp i j = (let tmp = fp ! i; fp = fp[i := fp ! j] in fp[j := tmp])"

definition FilepathSort :: "((string \<Rightarrow> string \<Rightarrow> bool) \<Rightarrow> string list \<Rightarrow> string list) \<Rightarrow> string list \<Rightarrow> string list" where
  "FilepathSort sort_Sort paths = sort_Sort path_less paths"

section \<open>The contract of sort.Sort\<close>

definition strict_weak :: "('a \<Rightarrow> 'a \<Rightarrow> bool) \<Rightarrow> bool" where
  "strict_weak lt \<longleftrightarrow> (\<forall>x. \<not> lt x x) \<and> (\<forall>x y z. lt x y \<and> lt y z \<longrightarrow> lt x z) \<and>
     (\<forall>x y z. \<not> lt x y \<and> \<not> lt y x \<and> \<not> lt y z \<and> \<not> lt z y \<longrightarrow> \<not> lt x z \<and> \<not> lt z x)"

locale go_sort =
  fixes srt :: "('a \<Rightarrow> 'a \<Rightarrow> bool) \<Rightarrow> 'a list \<Rightarrow> 'a list"
  assumes sort_perm: "mset (srt lt xs) = mset xs"
    and sort_order: "strict_weak lt \<Longrightarrow> sorted_wrt (\<lambda>x y. \<not> lt y x) (srt lt xs)"
begin

text \<open>Of two elements the smaller one comes first.\<close>

lemma sort_before:
  assumes "strict_weak lt" and "lt x y" and "srt lt xs = as @ y # bs"
  shows "x \<notin> set bs"
  using sort_order [OF assms(1), of xs] assms(2,3) by (auto simp: sorted_wrt_append)

end

text \<open>Insertion sort, what \<open>sort.Sort\<close> does with up to twelve elements, meets the contract.\<close>

fun insert_by :: "('a \<Rightarrow> 'a \<Rightarrow> bool) \<Rightarrow> 'a \<Rightarrow> 'a list \<Rightarrow> 'a list" where
  "insert_by lt x [] = [x]"
| "insert_by lt x (y # ys) = (if lt y x then y # insert_by lt x ys else x # y # ys)"

definition insertion_sort :: "('a \<Rightarrow> 'a \<Rightarrow> bool) \<Rightarrow> 'a list \<Rightarrow> 'a list" where
  "insertion_sort lt xs = foldr (insert_by lt) xs []"

lemma mset_insert_by: "mset (insert_by lt x ys) = add_mset x (mset ys)"
  by (induction ys) auto

lemma set_insert_by: "set (insert_by lt x ys) = insert x (set ys)"
  by (induction ys) auto

lemma strict_weak_trans:
  "strict_weak lt \<Longrightarrow> \<not> lt y x \<Longrightarrow> \<not> lt z y \<Longrightarrow> \<not> lt z x"
  unfolding strict_weak_def by metis

lemma sorted_insert_by:
  assumes "strict_weak lt"
  shows "sorted_wrt (\<lambda>x y. \<not> lt y x) ys \<Longrightarrow> sorted_wrt (\<lambda>x y. \<not> lt y x) (insert_by lt x ys)"
proof (induction ys)
  case (Cons y ys)
  show ?case
  proof (cases "lt y x")
    case True
    then have "\<not> lt x y" using assms unfolding strict_weak_def by metis
    then show ?thesis using True Cons by (auto simp: set_insert_by)
  next
    case False
    then show ?thesis using Cons.prems strict_weak_trans [OF assms, of y x] by auto
  qed
qed simp

interpretation insertion: go_sort insertion_sort
proof unfold_locales
  fix lt :: "'a \<Rightarrow> 'a \<Rightarrow> bool" and xs :: "'a list"
  show "mset (insertion_sort lt xs) = mset xs" by (induction xs) (simp_all add: insertion_sort_def mset_insert_by)
  show "strict_weak lt \<Longrightarrow> sorted_wrt (\<lambda>x y. \<not> lt y x) (insertion_sort lt xs)"
    by (induction xs) (simp_all add: insertion_sort_def sorted_insert_by)
qed

section \<open>The order of paths\<close>

definition path_elems :: "string \<Rightarrow> nat" where
  "path_elems p = length (split_on (CHR ''/'') (Clean p))"

lemma path_less_eq: "path_less p q \<longleftrightarrow> path_elems p < path_elems q"
  by (simp add: path_less_def Less_def path_elems_def Let_def)

lemma Less_path_less: "Less fp i j = path_less (fp ! i) (fp ! j)"
  by (simp add: path_less_def Less_def)

lemma path_less_strict_weak: "strict_weak path_less"
  by (auto simp: strict_weak_def path_less_eq)

lemma path_elems_abs: "list_all plain_comp cs \<Longrightarrow> cs \<noteq> [] \<Longrightarrow> path_elems (abs_path cs) = Suc (length cs)"
  using split_abs_path [of cs] by (simp add: path_elems_def Clean_abs_path list_all_iff plain_comp_def)

lemma path_elems_root: "path_elems ''/'' = 2"
  by (simp add: path_elems_def Clean_def clean_step_def)

text \<open>
  C38. \<open>FilepathSort\<close> permutes the paths and puts every directory before what is below it: with a sort that keeps its
  contract, an absolute path in normal form never comes before one of its parents, except for the root, which counts as many
  elements as the directories in it and may come after them.
\<close>

theorem FilepathSort_hierarchical:
  assumes "go_sort srt"
    and "list_all plain_comp (cs @ ds)" and "cs \<noteq> []" and "ds \<noteq> []"
    and "FilepathSort srt paths = as @ abs_path (cs @ ds) # bs"
  shows "mset (FilepathSort srt paths) = mset paths \<and> abs_path cs \<notin> set bs \<and>
    (\<forall>c. plain_comp c \<longrightarrow> \<not> path_less ''/'' (abs_path [c]) \<and> \<not> path_less (abs_path [c]) ''/'')"
proof -
  have "path_less (abs_path cs) (abs_path (cs @ ds))"
    using path_elems_abs [of cs] path_elems_abs [of "cs @ ds"] assms(2-4) by (simp add: path_less_eq)
  then have "abs_path cs \<notin> set bs"
    using go_sort.sort_before [OF assms(1) path_less_strict_weak] assms(5) by (simp add: FilepathSort_def)
  moreover have "mset (FilepathSort srt paths) = mset paths"
    using go_sort.sort_perm [OF assms(1)] by (simp add: FilepathSort_def)
  moreover have "path_elems (abs_path [c]) = 2" if "plain_comp c" for c
    using path_elems_abs [of "[c]"] that by simp
  ultimately show ?thesis by (simp add: path_less_eq path_elems_root)
qed

text \<open>The swap that the sort uses exchanges two elements.\<close>

lemma Swap_mset: "i < length fp \<Longrightarrow> j < length fp \<Longrightarrow> mset (Swap fp i j) = mset fp"
  by (simp add: Swap_def Let_def mset_swap)

theorem FilepathSort_hierarchical_witness:
  "\<exists>as bs. FilepathSort insertion_sort [''/a/b'', ''/a'', ''/''] = as @ abs_path [''a'', ''b''] # bs \<and> abs_path [''a''] \<notin> set bs"
proof -
  have e: "path_elems ''/a/b'' = 3" "path_elems ''/a'' = 2"
    using path_elems_abs [of "[''a'', ''b'']"] path_elems_abs [of "[''a'']"] by (simp_all add: plain_comp_def)
  have "FilepathSort insertion_sort [''/a/b'', ''/a'', ''/''] = [''/a'', ''/''] @ abs_path [''a'', ''b''] # []"
    by (simp add: FilepathSort_def insertion_sort_def path_less_eq e path_elems_root)
  moreover have "list_all plain_comp ([''a''] @ [''b''])" by (simp add: plain_comp_def)
  ultimately show ?thesis
    using FilepathSort_hierarchical [OF insertion.go_sort_axioms, of "[''a'']" "[''b'']"] by fastforce
qed

end
