(* ===== verification/PidFile.thy ===== *)
theory PidFile
  imports GoFilepath
begin

text \<open>
  The pid files of \<open>utils/pidfile.go\<close>, over a state that holds the contents of files and, for each process,
  the target of its \<open>/proc/<pid>/exe\<close> link. Creating a pid file is a check followed by a write, so the two are
  also steps of their own that other processes can come between.
\<close>

section \<open>State\<close>

datatype 'e pf_err = NotExist | ReadErr 'e | BadPid | Running int | WriteErr 'e | RemoveErr 'e

text \<open>
  \<open>files\<close> are the regular files, \<open>read_fault\<close>, \<open>write_fault\<close> and \<open>remove_fault\<close> the errors that calls meet
  other than a missing file (a write that fails may leave the file truncated, a removal may have removed
  some of the files), \<open>exe\<close> the program a process runs, if it can be read.
\<close>

record 'e pf_world =
  files :: "string \<rightharpoonup> string"
  read_fault :: "string \<Rightarrow> 'e option"
  write_fault :: "string \<Rightarrow> ('e \<times> string option) option"
  remove_fault :: "string \<Rightarrow> ('e \<times> string set) option"
  exe :: "int \<rightharpoonup> string"

definition ReadFile :: "string \<Rightarrow> 'e pf_world \<Rightarrow> 'e pf_err + string" where
  "ReadFile f w = (case read_fault w f of
      Some e \<Rightarrow> Inl (ReadErr e)
    | None \<Rightarrow> (case files w f of None \<Rightarrow> Inl NotExist | Some bs \<Rightarrow> Inr bs))"

definition WriteFile :: "string \<Rightarrow> string \<Rightarrow> 'e pf_world \<Rightarrow> 'e pf_err option \<times> 'e pf_world" where
  "WriteFile f bs w = (case write_fault w f of
      Some (e, left) \<Rightarrow> (Some (WriteErr e),
        (case left of None \<Rightarrow> w | Some bs' \<Rightarrow> w\<lparr>files := (files w)(f \<mapsto> bs')\<rparr>))
    | None \<Rightarrow> (None, w\<lparr>files := (files w)(f \<mapsto> bs)\<rparr>))"

section \<open>Operations\<close>

definition readPidFile :: "string \<Rightarrow> 'e pf_world \<Rightarrow> 'e pf_err + int" where
  "readPidFile pidFile w = (case ReadFile pidFile w of
      Inl e \<Rightarrow> Inl e
    | Inr bs \<Rightarrow> (case Atoi (TrimSpace bs) of None \<Rightarrow> Inl BadPid | Some p \<Rightarrow> Inr p))"

definition isProgramRunning :: "string \<Rightarrow> int \<Rightarrow> 'e pf_world \<Rightarrow> bool" where
  "isProgramRunning program p w = (case exe w p of
      None \<Rightarrow> False
    | Some target \<Rightarrow> if program \<noteq> Base target then False else True)"

text \<open>\<open>os.IsNotExist\<close> holds of the error of a missing file, not of the one of \<open>Atoi\<close>.\<close>

definition CheckPidFile :: "string \<Rightarrow> string \<Rightarrow> 'e pf_world \<Rightarrow> 'e pf_err option" where
  "CheckPidFile program pidFile w = (case readPidFile pidFile w of
      Inl e \<Rightarrow> if e \<noteq> NotExist then Some e else None
    | Inr p \<Rightarrow> if isProgramRunning program p w then Some (Running p) else None)"

definition pid_text :: "int \<Rightarrow> string" where
  "pid_text p = show_int p @ [CHR 0x0A]"

definition writePid :: "int \<Rightarrow> string \<Rightarrow> 'e pf_world \<Rightarrow> 'e pf_err option \<times> 'e pf_world" where
  "writePid self pidFile w = WriteFile pidFile (pid_text self) w"

definition CreatePidFile :: "int \<Rightarrow> string \<Rightarrow> string \<Rightarrow> 'e pf_world \<Rightarrow> 'e pf_err option \<times> 'e pf_world" where
  "CreatePidFile self program pidFile w = (case CheckPidFile program pidFile w of
      Some e \<Rightarrow> (Some e, w)
    | None \<Rightarrow> writePid self pidFile w)"

text \<open>\<open>os.RemoveAll\<close>: the path and everything below it; a missing file is no error.\<close>

definition DestroyPidFile :: "string \<Rightarrow> 'e pf_world \<Rightarrow> 'e pf_err option \<times> 'e pf_world" where
  "DestroyPidFile pidFile w = (case remove_fault w pidFile of
      Some (e, gone) \<Rightarrow> (Some (RemoveErr e), w\<lparr>files := files w |` (- gone)\<rparr>)
    | None \<Rightarrow> (None, w\<lparr>files := (\<lambda>f. if f = pidFile \<or> HasPrefix f (pidFile @ ''/'') then None else files w f)\<rparr>))"

section \<open>What a pid file says\<close>

lemma show_int_hd: "show_int p \<noteq> [] \<and> \<not> is_space (hd (show_int p)) \<and> \<not> is_space (last (show_int p))"
proof -
  have n: "\<not> is_space (last (show_nat k))" "\<not> is_space (hd (show_nat k))" for k
    using show_nat_digits digit_not_special last_in_set hd_in_set show_nat_not_Nil by metis+
  then show ?thesis by (auto simp: show_int_def is_space_def)
qed

lemma str_trim_tail: "P c \<Longrightarrow> str_trim P (s @ [c]) = str_trim P s"
proof (cases "\<forall>x \<in> set s. P x")
  case True
  have 1: "dropWhile P s = []" using True by simp
  have 2: "dropWhile P (s @ [c]) = dropWhile P [c]" using True by (simp add: dropWhile_append2)
  show "P c \<Longrightarrow> str_trim P (s @ [c]) = str_trim P s" unfolding str_trim_def 1 2 by simp
next
  case False
  then have "dropWhile P (s @ [c]) = dropWhile P s @ [c]" by (auto simp: dropWhile_append1)
  then show "P c \<Longrightarrow> str_trim P (s @ [c]) = str_trim P s" by (simp add: str_trim_def)
qed

lemma Atoi_pid_text:
  assumes "- (2 ^ 63) \<le> p" and "p < 2 ^ 63"
  shows "Atoi (TrimSpace (pid_text p)) = Some p"
proof -
  have "TrimSpace (pid_text p) = show_int p"
    using show_int_hd [of p] unfolding TrimSpace_def pid_text_def
    by (subst str_trim_tail) (auto simp: is_space_def intro: str_trim_id)
  then show ?thesis using Atoi_show_int [OF assms] by simp
qed

lemma CheckPidFile_after_write:
  assumes "files w f = Some (pid_text p)" and "read_fault w f = None" and "- (2 ^ 63) \<le> p" and "p < 2 ^ 63"
  shows "CheckPidFile prog f w = (if \<exists>target. exe w p = Some target \<and> Base target = prog then Some (Running p) else None)"
  using assms by (auto simp: CheckPidFile_def readPidFile_def ReadFile_def Atoi_pid_text isProgramRunning_def split: option.split)

text \<open>
  C33. A pid file that \<open>CreatePidFile\<close> made keeps a second instance out exactly while the process it names runs a program of
  that name. With readable and writable files: \<open>CreatePidFile\<close> in a place with no pid file succeeds and changes no other
  file; while the writer runs the program every later \<open>CreatePidFile\<close>, also the writer's own, fails with its pid and
  changes nothing; once it does not, or after \<open>DestroyPidFile\<close>, the next one succeeds.
\<close>

theorem CreatePidFile_excludes:
  assumes "files w f = None" and "read_fault w f = None" and "write_fault w f = None" and "remove_fault w f = None"
    and "- (2 ^ 63) \<le> p" and "p < 2 ^ 63"
  shows "\<exists>w1. CreatePidFile p prog f w = (None, w1) \<and> (\<forall>g. g \<noteq> f \<longrightarrow> files w1 g = files w g) \<and>
    (\<forall>ex q. let w2 = w1\<lparr>exe := ex\<rparr> in
       (if \<exists>target. ex p = Some target \<and> Base target = prog
        then CreatePidFile q prog f w2 = (Some (Running p), w2)
        else fst (CreatePidFile q prog f w2) = None \<and> files (snd (CreatePidFile q prog f w2)) f = Some (pid_text q)) \<and>
       fst (DestroyPidFile f w2) = None \<and> fst (CreatePidFile q prog f (snd (DestroyPidFile f w2))) = None)"
proof -
  define w1 where "w1 = w\<lparr>files := (files w)(f \<mapsto> pid_text p)\<rparr>"
  have "CreatePidFile p prog f w = (None, w1)"
    using assms by (simp add: CreatePidFile_def CheckPidFile_def readPidFile_def ReadFile_def writePid_def WriteFile_def w1_def)
  moreover have "\<forall>g. g \<noteq> f \<longrightarrow> files w1 g = files w g" by (simp add: w1_def)
  moreover have "(if \<exists>target. ex p = Some target \<and> Base target = prog
        then CreatePidFile q prog f (w1\<lparr>exe := ex\<rparr>) = (Some (Running p), w1\<lparr>exe := ex\<rparr>)
        else fst (CreatePidFile q prog f (w1\<lparr>exe := ex\<rparr>)) = None \<and>
          files (snd (CreatePidFile q prog f (w1\<lparr>exe := ex\<rparr>))) f = Some (pid_text q))" for ex q
    using CheckPidFile_after_write [of "w1\<lparr>exe := ex\<rparr>" f p prog] assms
    by (auto simp: w1_def CreatePidFile_def writePid_def WriteFile_def)
  moreover have "fst (DestroyPidFile f (w1\<lparr>exe := ex\<rparr>)) = None \<and>
      fst (CreatePidFile q prog f (snd (DestroyPidFile f (w1\<lparr>exe := ex\<rparr>)))) = None" for ex q
    using assms by (simp add: w1_def DestroyPidFile_def CreatePidFile_def CheckPidFile_def readPidFile_def ReadFile_def
        writePid_def WriteFile_def)
  ultimately show ?thesis by (auto simp: Let_def)
qed

definition pf_demo :: "unit pf_world" where
  "pf_demo = \<lparr>files = (\<lambda>_. None), read_fault = (\<lambda>_. None), write_fault = (\<lambda>_. None), remove_fault = (\<lambda>_. None),
     exe = (\<lambda>p. if p = 7 \<or> p = 8 then Some ''/usr/bin/sysbox-mgr'' else None)\<rparr>"

lemma Base_demo: "Base ''/usr/bin/sysbox-mgr'' = ''sysbox-mgr''"
  by (simp add: Base_def last_component_def)

theorem CreatePidFile_excludes_witness:
  "\<exists>w1. CreatePidFile 7 ''sysbox-mgr'' ''/run/mgr.pid'' pf_demo = (None, w1) \<and>
     CreatePidFile 8 ''sysbox-mgr'' ''/run/mgr.pid'' w1 = (Some (Running 7), w1)"
proof -
  obtain w1 where w1: "CreatePidFile 7 ''sysbox-mgr'' ''/run/mgr.pid'' pf_demo = (None, w1)"
    and all: "\<And>ex q. (if \<exists>target. ex 7 = Some target \<and> Base target = ''sysbox-mgr''
      then CreatePidFile q ''sysbox-mgr'' ''/run/mgr.pid'' (w1\<lparr>exe := ex\<rparr>) = (Some (Running 7), w1\<lparr>exe := ex\<rparr>)
      else fst (CreatePidFile q ''sysbox-mgr'' ''/run/mgr.pid'' (w1\<lparr>exe := ex\<rparr>)) = None \<and>
        files (snd (CreatePidFile q ''sysbox-mgr'' ''/run/mgr.pid'' (w1\<lparr>exe := ex\<rparr>))) ''/run/mgr.pid'' = Some (pid_text q))"
    using CreatePidFile_excludes [of pf_demo "''/run/mgr.pid''" 7 "''sysbox-mgr''"]
    unfolding Let_def by (force simp: pf_demo_def)
  have "w1\<lparr>exe := exe pf_demo\<rparr> = w1"
    using w1 by (auto simp: CreatePidFile_def writePid_def WriteFile_def split: option.splits)
  moreover have "\<exists>target. exe pf_demo 7 = Some target \<and> Base target = ''sysbox-mgr''"
    by (simp add: pf_demo_def Base_demo)
  ultimately show ?thesis using w1 all [of "exe pf_demo" 8] by auto
qed

section \<open>Two instances at once\<close>

text \<open>
  The steps of several processes that create the same pid file: each checks, and if the check passed it writes.
  \<open>passed\<close> are the processes whose check passed, \<open>created\<close> those for which \<open>CreatePidFile\<close> returned no error.
\<close>

record 'e pf_race =
  world :: "'e pf_world"
  passed :: "int set"
  created :: "int set"

inductive pf_step :: "string \<Rightarrow> string \<Rightarrow> 'e pf_race \<Rightarrow> 'e pf_race \<Rightarrow> bool" for prog f where
  pf_check: "CheckPidFile prog f (world s) = None \<Longrightarrow> pf_step prog f s (s\<lparr>passed := insert p (passed s)\<rparr>)"
| pf_write: "p \<in> passed s \<Longrightarrow> writePid p f (world s) = (None, w) \<Longrightarrow>
    pf_step prog f s (s\<lparr>world := w, passed := passed s - {p}, created := insert p (created s)\<rparr>)"

text \<open>
  C34. The check and the write are not one step: two processes that run the program at the same time can both create the pid
  file without an error, after which it names the one that wrote last, and the other is not noticed.
\<close>

theorem pid_file_race:
  assumes "files w f = None" and "read_fault w f = None" and "write_fault w f = None" and "p \<noteq> q"
  shows "\<exists>s. (pf_step prog f)\<^sup>*\<^sup>* \<lparr>world = w, passed = {}, created = {}\<rparr> s \<and>
    {p, q} \<subseteq> created s \<and> files (world s) f = Some (pid_text q)"
proof -
  let ?w1 = "w\<lparr>files := (files w)(f \<mapsto> pid_text p)\<rparr>" and ?w2 = "w\<lparr>files := (files w)(f \<mapsto> pid_text q)\<rparr>"
  have c: "CheckPidFile prog f w = None" using assms by (simp add: CheckPidFile_def readPidFile_def ReadFile_def)
  have 1: "pf_step prog f \<lparr>world = w, passed = {}, created = {}\<rparr> \<lparr>world = w, passed = {p}, created = {}\<rparr>"
    using pf_check [of prog f "\<lparr>world = w, passed = {}, created = {}\<rparr>" p] c by simp
  have 2: "pf_step prog f \<lparr>world = w, passed = {p}, created = {}\<rparr> \<lparr>world = w, passed = {q, p}, created = {}\<rparr>"
    using pf_check [of prog f "\<lparr>world = w, passed = {p}, created = {}\<rparr>" q] c by simp
  have 3: "pf_step prog f \<lparr>world = w, passed = {q, p}, created = {}\<rparr> \<lparr>world = ?w1, passed = {q}, created = {p}\<rparr>"
    using pf_write [of p "\<lparr>world = w, passed = {q, p}, created = {}\<rparr>" f ?w1 prog] assms(3,4)
    by (simp add: writePid_def WriteFile_def insert_Diff_if)
  have 4: "pf_step prog f \<lparr>world = ?w1, passed = {q}, created = {p}\<rparr> \<lparr>world = ?w2, passed = {}, created = {q, p}\<rparr>"
    using pf_write [of q "\<lparr>world = ?w1, passed = {q}, created = {p}\<rparr>" f ?w2 prog] assms(3)
    by (simp add: writePid_def WriteFile_def)
  have "(pf_step prog f)\<^sup>*\<^sup>* \<lparr>world = w, passed = {}, created = {}\<rparr> \<lparr>world = ?w2, passed = {}, created = {q, p}\<rparr>"
    by (rule converse_rtranclp_into_rtranclp, rule 1, rule converse_rtranclp_into_rtranclp, rule 2,
        rule converse_rtranclp_into_rtranclp, rule 3, rule r_into_rtranclp, rule 4)
  then show ?thesis 
    by (intro exI [of _ "\<lparr>world = ?w2, passed = {}, created = {q, p}\<rparr>"]) simp
qed

section \<open>A replaced program\<close>

text \<open>
  When the file of a running program was removed or replaced, the kernel appends \<open> (deleted)\<close> to the target of its
  link; \<open>CheckPidFile\<close> then takes the program to be stopped, so a second instance starts beside a running one after an upgrade.
\<close>

theorem deleted_program_not_seen:
  assumes "files w f = Some (pid_text p)" and "read_fault w f = None" and "- (2 ^ 63) \<le> p" and "p < 2 ^ 63"
    and "exe w p = Some (d @ ''/'' @ prog @ '' (deleted)'')" and "CHR ''/'' \<notin> set prog"
  shows "CheckPidFile prog f w = None"
proof -
  have "last_component (d @ CHR ''/'' # t) = t" if "CHR ''/'' \<notin> set t" for t
  proof -
    have "split_on (CHR ''/'') (d @ CHR ''/'' # t) = split_on (CHR ''/'') d @ [t]"
      using that by (induction d) (auto simp: split_on_id split: list.split)
    then show ?thesis by (simp add: last_component_def)
  qed
  from this [of "prog @ '' (deleted)''"] have "Base (d @ ''/'' @ prog @ '' (deleted)'') = prog @ '' (deleted)''"
    using assms(6) by (simp add: Base_def)
  then have "\<not> (\<exists>target. exe w p = Some target \<and> Base target = prog)" using assms(5) by simp
  then show ?thesis using CheckPidFile_after_write [OF assms(1-4)] by simp
qed

theorem pid_file_race_witness:
  "\<exists>s. (pf_step ''sysbox-mgr'' ''/run/mgr.pid'')\<^sup>*\<^sup>* \<lparr>world = pf_demo, passed = {}, created = {}\<rparr> s \<and> {7, 8} \<subseteq> created s"
proof -
  have "files pf_demo ''/run/mgr.pid'' = None" "read_fault pf_demo ''/run/mgr.pid'' = None"
    "write_fault pf_demo ''/run/mgr.pid'' = None" "(7 :: int) \<noteq> 8" by (simp_all add: pf_demo_def)
  from pid_file_race [OF this, of "''sysbox-mgr''"] show ?thesis by blast
qed

theorem deleted_program_not_seen_witness:
  "CheckPidFile ''sysbox-mgr'' ''/run/mgr.pid'' (pf_demo\<lparr>files := [''/run/mgr.pid'' \<mapsto> pid_text 7],
     exe := [7 \<mapsto> ''/usr/bin'' @ ''/'' @ ''sysbox-mgr'' @ '' (deleted)'']\<rparr>) = None"
  by (rule deleted_program_not_seen [where d = "''/usr/bin''" and p = 7]) (simp_all add: pf_demo_def)

end
