(* ===== verification/DockerUtils.thy ===== *)
theory DockerUtils
  imports GoFilepath
begin

text \<open>
  \<open>dockerUtils/dockerUtils.go\<close>: a session with the Docker daemon, the queries over it, and the decision whether a
  container belongs to Docker. The client of \<open>moby/moby\<close> is an argument; every function gives its result and the calls
  of the daemon it made, in order.
\<close>

section \<open>Types\<close>

datatype ErrCode = DockerConnErr | DockerDiscErr | DockerInfoErr | DockerContInfoErr | DockerOtherErr

text \<open>The causes that the messages name; \<open>Plain\<close> is an error returned as it came.\<close>

datatype 'e docker_msg =
    Caused 'e
  | CausedBoth 'e 'e
  | ContainerNotFound string
  | ManyContainers string
  | OpenFailed string 'e
  | ReadFailed string 'e

datatype 'e docker_err = DockerErr (Code: ErrCode) (msg: "'e docker_msg") | Plain 'e

definition newDockerErr :: "ErrCode \<Rightarrow> 'e docker_msg \<Rightarrow> 'e docker_err" where
  "newDockerErr code m = DockerErr code m"

record ContainerInfo =
  Rootfs :: string
  AutoRemove :: bool

text \<open>\<open>cli\<close> is the client, of the type \<open>'c\<close>.\<close>

record 'c Docker =
  cli :: 'c
  dataRoot :: string

text \<open>
  What the client's answers hold of what the code reads; \<open>None\<close> is a nil pointer, and \<open>InspHostConfig\<close> the flag
  \<open>AutoRemove\<close> of the host configuration.
\<close>

record Summary = ImageID :: string

record Inspect =
  GraphDriver :: "(string \<times> (string \<rightharpoonup> string)) option"
  InspHostConfig :: "bool option"

record Volume =
  VolName :: string
  Mountpoint :: string

record ('c, 'e) docker_client =
  client_New :: "'e + 'c"
  client_Info :: "'c \<Rightarrow> 'e + string"
  client_Close :: "'c \<Rightarrow> 'e option"
  client_ContainerList :: "'c \<Rightarrow> string \<Rightarrow> 'e + Summary list"
  client_ContainerInspect :: "'c \<Rightarrow> string \<Rightarrow> 'e + Inspect"
  client_VolumeList :: "'c \<Rightarrow> 'e + Volume list"

datatype docker_call = CallNew | CallInfo | CallClose | CallList string | CallInspect string | CallVolumes

section \<open>The session\<close>

definition DockerConnect :: "('c, 'e) docker_client \<Rightarrow> ('e docker_err + 'c Docker) \<times> docker_call list" where
  "DockerConnect api = (case client_New api of
      Inl e \<Rightarrow> (Inl (newDockerErr DockerConnErr (Caused e)), [CallNew])
    | Inr c \<Rightarrow>
        (case client_Info api c of
           Inl e \<Rightarrow>
             (case client_Close api c of
                Some e2 \<Rightarrow> (Inl (newDockerErr DockerInfoErr (CausedBoth e e2)), [CallNew, CallInfo, CallClose])
              | None \<Rightarrow> (Inl (newDockerErr DockerInfoErr (Caused e)), [CallNew, CallInfo, CallClose]))
         | Inr root \<Rightarrow> (Inr \<lparr>cli = c, dataRoot = root\<rparr>, [CallNew, CallInfo])))"

definition Disconnect :: "('c, 'e) docker_client \<Rightarrow> 'c Docker \<Rightarrow> 'e docker_err option \<times> docker_call list" where
  "Disconnect api d = (case client_Close api (cli d) of
      Some e \<Rightarrow> (Some (newDockerErr DockerDiscErr (Caused e)), [CallClose])
    | None \<Rightarrow> (None, [CallClose]))"

definition GetDataRoot :: "'c Docker \<Rightarrow> string" where
  "GetDataRoot d = dataRoot d"

section \<open>Queries\<close>

definition ContainerGetImageID ::
  "('c, 'e) docker_client \<Rightarrow> 'c Docker \<Rightarrow> string \<Rightarrow> ('e docker_err + string) \<times> docker_call list" where
  "ContainerGetImageID api d containerID =
    ((case client_ContainerList api (cli d) containerID of
        Inl e \<Rightarrow> Inl (newDockerErr DockerContInfoErr (Caused e))
      | Inr containers \<Rightarrow>
          if length containers = 0 then Inl (newDockerErr DockerContInfoErr (ContainerNotFound containerID))
          else if length containers > 1 then Inl (newDockerErr DockerContInfoErr (ManyContainers containerID))
          else Inr (ImageID (containers ! 0))),
     [CallList containerID])"

text \<open>
  A missing key of the driver's data reads as the empty string. The driver is tested for nil, the host configuration is not.
\<close>

definition ContainerGetInfo ::
  "('c, 'e) docker_client \<Rightarrow> 'c Docker \<Rightarrow> string \<Rightarrow> ('e docker_err + ContainerInfo) go \<times> docker_call list" where
  "ContainerGetInfo api d containerID =
    ((case client_ContainerInspect api (cli d) containerID of
        Inl e \<Rightarrow> Inr (Inl (Plain e))
      | Inr info \<Rightarrow>
          let rootfs = (case GraphDriver info of
                None \<Rightarrow> []
              | Some (name, data) \<Rightarrow>
                  if name = ''overlay2'' then (case data ''MergedDir'' of None \<Rightarrow> [] | Some dir \<Rightarrow> dir) else [])
          in (case InspHostConfig info of
                None \<Rightarrow> Inl NilDereference
              | Some autoRemove \<Rightarrow> Inr (Inr \<lparr>Rootfs = rootfs, AutoRemove = autoRemove\<rparr>))),
     [CallInspect containerID])"

text \<open>The loop over the volumes, which ends at the first match.\<close>

fun filter_volumes :: "string \<Rightarrow> Volume list \<Rightarrow> Volume list \<Rightarrow> Volume list" where
  "filter_volumes mountPoint [] filteredVolumes = filteredVolumes"
| "filter_volumes mountPoint (vol # vols) filteredVolumes =
     (if Mountpoint vol = mountPoint then filteredVolumes @ [vol]
      else filter_volumes mountPoint vols filteredVolumes)"

definition ListVolumesAt ::
  "('c, 'e) docker_client \<Rightarrow> 'c Docker \<Rightarrow> string \<Rightarrow> ('e docker_err + Volume list) \<times> docker_call list" where
  "ListVolumesAt api d mountPoint =
    ((case client_VolumeList api (cli d) of
        Inl e \<Rightarrow> Inl (Plain e)
      | Inr items \<Rightarrow> Inr (filter_volumes mountPoint items [])),
     [CallVolumes])"

section \<open>The root file system\<close>

text \<open>
  Opening and reading directories: \<open>open_err\<close> is the error of \<open>os.Open\<close>, \<open>entries\<close> the names in the order the file system
  lists them, \<open>read_err\<close> an error before the first name. \<open>Readdirnames\<close> with a positive number gives at most that many
  names, and the error \<open>io.EOF\<close> for a directory without entries.
\<close>

record 'e dirs =
  open_err :: "string \<Rightarrow> 'e option"
  read_err :: "string \<Rightarrow> 'e option"
  entries :: "string \<Rightarrow> string list"

definition Readdirnames :: "'e dirs \<Rightarrow> 'e \<Rightarrow> string \<Rightarrow> nat \<Rightarrow> 'e + string list" where
  "Readdirnames fs eof path n = (case read_err fs path of
      Some e \<Rightarrow> Inl e
    | None \<Rightarrow> if entries fs path = [] then Inl eof else Inr (take n (entries fs path)))"

definition dockerDirs :: "string list" where
  "dockerDirs = [''image'', ''network'', ''containers'', ''swarm'']"

fun search_dirs :: "'e dirs \<Rightarrow> 'e \<Rightarrow> nat \<Rightarrow> string \<Rightarrow> bool \<times> 'e docker_err option" where
  "search_dirs fs eof 0 path = (False, None)"
| "search_dirs fs eof (Suc n) path =
     (let path = Dir path
      in case open_err fs path of
           Some e \<Rightarrow> (False, Some (newDockerErr DockerOtherErr (OpenFailed path e)))
         | None \<Rightarrow>
             (case Readdirnames fs eof path 30 of
                Inl e \<Rightarrow> (False, Some (newDockerErr DockerOtherErr (ReadFailed path e)))
              | Inr filenames \<Rightarrow>
                  if list_all (\<lambda>d. d \<in> set filenames) dockerDirs then (True, None)
                  else search_dirs fs eof n path))"

definition isDockerRootfs :: "bool \<Rightarrow> 'e dirs \<Rightarrow> 'e \<Rightarrow> string \<Rightarrow> bool \<times> 'e docker_err option" where
  "isDockerRootfs testMode fs eof rootfs =
    (if \<not> testMode \<and> str_contains rootfs ''/var/lib/docker'' then (True, None)
     else search_dirs fs eof 5 rootfs)"

section \<open>The decision\<close>

definition ContainerIsDocker ::
  "bool \<Rightarrow> 'e dirs \<Rightarrow> 'e \<Rightarrow> ('c, 'e) docker_client \<Rightarrow> string \<Rightarrow> string \<Rightarrow> (bool \<times> 'e docker_err option) \<times> docker_call list" where
  "ContainerIsDocker testMode fs eof api i rootfs =
    (case isDockerRootfs testMode fs eof rootfs of (isDocker, err) \<Rightarrow>
       if err = None \<and> isDocker then ((True, None), [])
       else case DockerConnect api of
           (Inr docker, cs) \<Rightarrow>
             (case ContainerGetImageID api docker i of (r, cs') \<Rightarrow>
                (((case r of Inl e \<Rightarrow> False | Inr imageID \<Rightarrow> True), None), cs @ cs' @ snd (Disconnect api docker)))
         | (Inl derr, cs) \<Rightarrow> ((isDocker, err), cs))"

section \<open>Properties\<close>

text \<open>The directory \<open>k\<close> levels above a path.\<close>

definition parent :: "nat \<Rightarrow> string \<Rightarrow> string" where
  "parent k path = (Dir ^^ k) path"

definition is_docker_dir :: "'e dirs \<Rightarrow> string \<Rightarrow> bool" where
  "is_docker_dir fs path \<longleftrightarrow> set dockerDirs \<subseteq> set (take 30 (entries fs path))"

definition readable :: "'e dirs \<Rightarrow> string \<Rightarrow> bool" where
  "readable fs path \<longleftrightarrow> open_err fs path = None \<and> read_err fs path = None \<and> entries fs path \<noteq> []"

lemma search_step:
  "search_dirs fs eof (Suc n) path =
    (if \<not> readable fs (Dir path) then (False, snd (search_dirs fs eof (Suc n) path))
     else if is_docker_dir fs (Dir path) then (True, None) else search_dirs fs eof n (Dir path))"
  "\<not> readable fs (Dir path) \<Longrightarrow> \<exists>m. snd (search_dirs fs eof (Suc n) path) = Some (DockerErr DockerOtherErr m)"
  by (auto simp: Let_def readable_def is_docker_dir_def Readdirnames_def newDockerErr_def list_all_iff split: option.split)

lemma search_dirs_cases:
  "(\<exists>k < n. (\<forall>j \<le> k. readable fs (parent (Suc j) path)) \<and> is_docker_dir fs (parent (Suc k) path) \<and>
       search_dirs fs eof n path = (True, None)) \<or>
   (\<exists>k < n. \<not> readable fs (parent (Suc k) path) \<and>
       (\<forall>j < k. readable fs (parent (Suc j) path) \<and> \<not> is_docker_dir fs (parent (Suc j) path)) \<and>
       (\<exists>m. search_dirs fs eof n path = (False, Some (DockerErr DockerOtherErr m)))) \<or>
   (\<forall>k < n. readable fs (parent (Suc k) path) \<and> \<not> is_docker_dir fs (parent (Suc k) path)) \<and>
       search_dirs fs eof n path = (False, None)"
proof (induction n arbitrary: path)
  case (Suc n)
  have up: "parent (Suc (Suc k)) path = parent (Suc k) (Dir path)" for k
    by (simp add: parent_def funpow_swap1)
  have one: "parent (Suc 0) path = Dir path" by (simp add: parent_def)
  consider "\<not> readable fs (Dir path)" | "readable fs (Dir path)" "is_docker_dir fs (Dir path)"
    | "readable fs (Dir path)" "\<not> is_docker_dir fs (Dir path)" by blast
  then show ?case
  proof cases
    case 1
    then have "\<exists>m. search_dirs fs eof (Suc n) path = (False, Some (DockerErr DockerOtherErr m))"
      using search_step by (metis prod.collapse fst_conv snd_conv)
    then show ?thesis using 1 one by (intro disjI2 disjI1 exI [of _ 0]) simp
  next
    case 2
    then have "search_dirs fs eof (Suc n) path = (True, None)" using search_step(1) by metis
    then show ?thesis using 2 one by (intro disjI1 exI [of _ 0]) simp
  next
    case 3
    then have s: "search_dirs fs eof (Suc n) path = search_dirs fs eof n (Dir path)" using search_step(1) by metis
    have all: "(\<forall>j < Suc k. P (parent (Suc j) path)) \<longleftrightarrow> P (Dir path) \<and> (\<forall>j < k. P (parent (Suc j) (Dir path)))" for k P
      by (simp only: All_less_Suc2 up one)
    show ?thesis using Suc.IH [of "Dir path"]
    proof (elim disjE exE conjE)
      fix k assume "k < n" "\<forall>j \<le> k. readable fs (parent (Suc j) (Dir path))" "is_docker_dir fs (parent (Suc k) (Dir path))"
        "search_dirs fs eof n (Dir path) = (True, None)"
      then show ?thesis using 3 s all [of "Suc k" "readable fs"] up
        by (intro disjI1 exI [of _ "Suc k"]) (simp add: less_Suc_eq_le)
    next
      fix k m assume "k < n" "\<not> readable fs (parent (Suc k) (Dir path))"
        "\<forall>j < k. readable fs (parent (Suc j) (Dir path)) \<and> \<not> is_docker_dir fs (parent (Suc j) (Dir path))"
        "search_dirs fs eof n (Dir path) = (False, Some (DockerErr DockerOtherErr m))"
      then show ?thesis using 3 s all [of k "\<lambda>p. readable fs p \<and> \<not> is_docker_dir fs p"] up
        by (intro disjI2 disjI1 exI [of _ "Suc k"]) simp
    next
      assume "\<forall>k < n. readable fs (parent (Suc k) (Dir path)) \<and> \<not> is_docker_dir fs (parent (Suc k) (Dir path))"
        "search_dirs fs eof n (Dir path) = (False, None)"
      then show ?thesis using 3 s all [of n "\<lambda>p. readable fs p \<and> \<not> is_docker_dir fs p"] by simp
    qed
  qed
qed simp

text \<open>
  \<open>isDockerRootfs\<close> outside of test mode says yes exactly for a path that contains \<open>/var/lib/docker\<close>, or when one of its five
  next parents lists \<open>image\<close>, \<open>network\<close>, \<open>containers\<close> and \<open>swarm\<close> among its first 30 names and every directory up to it can be read
  and is not empty; it reports an error, and then no, exactly when it meets a directory below such a parent, or below all five, that
  cannot be opened or read or is empty.
\<close>

theorem isDockerRootfs_exact:
  "(fst (isDockerRootfs False fs eof rootfs) \<longleftrightarrow>
      str_contains rootfs ''/var/lib/docker'' \<or>
      (\<exists>k < 5. (\<forall>j \<le> k. readable fs (parent (Suc j) rootfs)) \<and> is_docker_dir fs (parent (Suc k) rootfs))) \<and>
   (snd (isDockerRootfs False fs eof rootfs) \<noteq> None \<longleftrightarrow>
      \<not> str_contains rootfs ''/var/lib/docker'' \<and>
      (\<exists>k < 5. \<not> readable fs (parent (Suc k) rootfs) \<and>
         (\<forall>j < k. readable fs (parent (Suc j) rootfs) \<and> \<not> is_docker_dir fs (parent (Suc j) rootfs))))"
proof (cases "str_contains rootfs ''/var/lib/docker''")
  case False
  let ?R = "\<lambda>j. readable fs (parent (Suc j) rootfs)" and ?D = "\<lambda>j. is_docker_dir fs (parent (Suc j) rootfs)"
  have r: "isDockerRootfs False fs eof rootfs = search_dirs fs eof 5 rootfs" by (simp add: isDockerRootfs_def False)
  from search_dirs_cases [of 5 fs rootfs eof] show ?thesis
  proof (elim disjE exE conjE)
    fix k assume k: "k < 5" "\<forall>j \<le> k. ?R j" "?D k" "search_dirs fs eof 5 rootfs = (True, None)"
    have "\<not> (\<exists>i < 5. \<not> ?R i \<and> (\<forall>j < i. ?R j \<and> \<not> ?D j))" using k(2,3) by (meson not_le)
    then show ?thesis using False r k by auto
  next
    fix k m assume k: "k < 5" "\<not> ?R k" "\<forall>j < k. ?R j \<and> \<not> ?D j"
      "search_dirs fs eof 5 rootfs = (False, Some (DockerErr DockerOtherErr m))"
    have "\<not> (\<exists>i < 5. (\<forall>j \<le> i. ?R j) \<and> ?D i)" using k(2,3) by (meson not_le le_refl)
    then show ?thesis using False r k by auto
  qed (use False r in auto)
qed (simp add: isDockerRootfs_def)

lemma image_id_known:
  "(case fst (ContainerGetImageID api d i) of Inl e \<Rightarrow> False | Inr imageID \<Rightarrow> True) \<longleftrightarrow>
    (\<exists>s. client_ContainerList api (cli d) i = Inr [s])"
proof (cases "client_ContainerList api (cli d) i")
  case (Inr xs)
  then show ?thesis by (cases xs; cases "tl xs") (auto simp: ContainerGetImageID_def)
qed (simp add: ContainerGetImageID_def)

text \<open>
  C35. \<open>ContainerIsDocker\<close> does not call the daemon when the root file system decides; otherwise, when the daemon answers, it gives no
  error and says yes exactly when the daemon knows exactly one container of the id, with the session closed as its last
  call; and when it cannot connect it gives what the root file system gave, its error included.
\<close>

theorem ContainerIsDocker_cases:
  assumes "isDockerRootfs testMode fs eof rootfs = (isDocker, err)"
    and "ContainerIsDocker testMode fs eof api i rootfs = (result, calls)"
  shows "(isDocker \<and> err = None \<longrightarrow> result = (True, None) \<and> calls = []) \<and>
    (\<not> (isDocker \<and> err = None) \<longrightarrow>
       (\<forall>c root. client_New api = Inr c \<and> client_Info api c = Inr root \<longrightarrow>
          snd result = None \<and> (fst result \<longleftrightarrow> (\<exists>s. client_ContainerList api c i = Inr [s])) \<and>
          calls = [CallNew, CallInfo, CallList i, CallClose]) \<and>
       (\<forall>e. fst (DockerConnect api) = Inl e \<longrightarrow> result = (isDocker, err)))"
proof (cases "isDocker \<and> err = None")
  case True
  then show ?thesis using assms by (simp add: ContainerIsDocker_def)
next
  case False
  have "snd result = None \<and> (fst result \<longleftrightarrow> (\<exists>s. client_ContainerList api c i = Inr [s])) \<and>
      calls = [CallNew, CallInfo, CallList i, CallClose]"
    if "client_New api = Inr c" and "client_Info api c = Inr root" for c root
  proof -
    have conn: "DockerConnect api = (Inr \<lparr>cli = c, dataRoot = root\<rparr>, [CallNew, CallInfo])"
      using that by (simp add: DockerConnect_def)
    have "snd (Disconnect api d) = [CallClose]" for d by (simp add: Disconnect_def split: option.split)
    then show ?thesis using assms False conn image_id_known [of api "\<lparr>cli = c, dataRoot = root\<rparr>" i]
      by (auto simp: ContainerIsDocker_def ContainerGetImageID_def)
  qed
  moreover have "result = (isDocker, err)" if "fst (DockerConnect api) = Inl e" for e
    using assms False that by (cases "DockerConnect api") (auto simp: ContainerIsDocker_def)
  ultimately show ?thesis using False by blast
qed

text \<open>
  \<open>ContainerGetInfo\<close> makes one call. A root file system other than the empty path is the \<open>MergedDir\<close> of a container on
  \<open>overlay2\<close>; the flag is the daemon's; and it panics exactly for an answer without host configuration.
\<close>

theorem ContainerGetInfo_rootfs:
  "snd (ContainerGetInfo api d i) = [CallInspect i] \<and>
   (fst (ContainerGetInfo api d i) = Inl NilDereference \<longleftrightarrow>
      (\<exists>info. client_ContainerInspect api (cli d) i = Inr info \<and> InspHostConfig info = None)) \<and>
   (\<forall>c. fst (ContainerGetInfo api d i) = Inr (Inr c) \<longrightarrow>
      (\<exists>info. client_ContainerInspect api (cli d) i = Inr info \<and> InspHostConfig info = Some (AutoRemove c) \<and>
         (Rootfs c \<noteq> [] \<longrightarrow> (\<exists>data. GraphDriver info = Some (''overlay2'', data) \<and> data ''MergedDir'' = Some (Rootfs c)))))"
  by (auto simp: ContainerGetInfo_def Let_def split: sum.splits option.splits prod.splits if_splits)

text \<open>
  \<open>ListVolumesAt\<close> gives at most one volume: the first one with the mount point, though the comment and the result type speak of
  all of them.
\<close>

theorem ListVolumesAt_first:
  "fst (ListVolumesAt api d m) = (case client_VolumeList api (cli d) of
      Inl e \<Rightarrow> Inl (Plain e)
    | Inr vs \<Rightarrow> Inr (take 1 (filter (\<lambda>v. Mountpoint v = m) vs)))"
proof -
  have "filter_volumes m vs acc = acc @ take 1 (filter (\<lambda>v. Mountpoint v = m) vs)" for vs acc
    by (induction vs) simp_all
  then show ?thesis by (simp add: ListVolumesAt_def split: sum.split)
qed

text \<open>
  Sessions do not leak: \<open>DockerConnect\<close> gives a session exactly when it opened one and did not close it again, and every error of
  it is a connection error, before a session was opened, or an information error, after which it was closed.
\<close>

theorem DockerConnect_sessions:
  "(\<exists>d. fst (DockerConnect api) = Inr d \<and> client_New api = Inr (cli d) \<and> client_Info api (cli d) = Inr (dataRoot d) \<and>
      CallClose \<notin> set (snd (DockerConnect api))) \<or>
   (\<exists>m. fst (DockerConnect api) = Inl (DockerErr DockerConnErr m) \<and> isl (client_New api) \<and>
      CallClose \<notin> set (snd (DockerConnect api))) \<or>
   (\<exists>m. fst (DockerConnect api) = Inl (DockerErr DockerInfoErr m) \<and> last (snd (DockerConnect api)) = CallClose)"
  by (auto simp: DockerConnect_def newDockerErr_def split: sum.split option.split)

section \<open>Witnesses\<close>

definition demo_dirs :: "unit dirs" where
  "demo_dirs = \<lparr>open_err = (\<lambda>_. None), read_err = (\<lambda>_. None), entries = (\<lambda>p. [''etc''])\<rparr>"

definition demo_client :: "(unit, unit) docker_client" where
  "demo_client = \<lparr>client_New = Inr (), client_Info = (\<lambda>_. Inr ''/var/lib/docker''), client_Close = (\<lambda>_. None),
     client_ContainerList = (\<lambda>_ i. Inr [\<lparr>ImageID = ''sha256:1''\<rparr>]),
     client_ContainerInspect = (\<lambda>_ i. Inl ()), client_VolumeList = (\<lambda>_. Inl ())\<rparr>"

lemma demo_dirs_none: "\<not> is_docker_dir demo_dirs p" "readable demo_dirs p"
  by (simp_all add: is_docker_dir_def readable_def demo_dirs_def dockerDirs_def)

theorem isDockerRootfs_exact_witness: "isDockerRootfs False demo_dirs () ''/mnt/a/b'' = (False, None)"
proof -
  have "\<not> str_contains ''/mnt/a/b'' ''/var/lib/docker''" by (simp add: str_contains_def HasPrefix_def)
  then show ?thesis using isDockerRootfs_exact [of demo_dirs "()" "''/mnt/a/b''"]
    by (cases "isDockerRootfs False demo_dirs () ''/mnt/a/b''") (auto simp: demo_dirs_none)
qed

theorem ContainerIsDocker_cases_witness:
  "ContainerIsDocker False demo_dirs () demo_client ''c1'' ''/mnt/a/b'' =
    ((True, None), [CallNew, CallInfo, CallList ''c1'', CallClose])"
proof -
  obtain r cs where run: "ContainerIsDocker False demo_dirs () demo_client ''c1'' ''/mnt/a/b'' = (r, cs)" by fastforce
  obtain d e where rootfs: "isDockerRootfs False demo_dirs () ''/mnt/a/b'' = (d, e)" by fastforce
  have "\<not> str_contains ''/mnt/a/b'' ''/var/lib/docker''" by (simp add: str_contains_def HasPrefix_def)
  then have "\<not> d"
    using search_dirs_cases [of 5 demo_dirs "''/mnt/a/b''" "()"] rootfs by (auto simp: isDockerRootfs_def demo_dirs_none)
  then show ?thesis
    using ContainerIsDocker_cases [OF rootfs run] run by (cases r) (auto simp: demo_client_def)
qed

end
