(* ===== verification/Containerd.thy ===== *)
theory Containerd
  imports Prelude
begin

text \<open>
  \<open>containerdUtils/containerdUtils.go\<close>, the data root of containerd from its configuration files, and the container ids of
  \<open>formatter/containerID.go\<close>. Opening a file, the decoder of \<open>go-toml\<close> and \<open>TruncateID\<close> of \<open>moby\<close> are arguments.
\<close>

section \<open>The data root\<close>

definition configPath :: "string list" where
  "configPath = [''/etc/containerd/containerd.toml'', ''/etc/containerd/config.toml'', ''/usr/local/etc/containerd/config.toml'']"

definition defaultDataRoot :: string where
  "defaultDataRoot = ''/var/lib/containerd''"

record containerdConfig = Root :: string

datatype 'e open_result = Opened string | OpenNotExist | OpenErr 'e

text \<open>The errors of \<open>parseDataRoot\<close>: of \<open>os.Open\<close>, or of the decoder, wrapped, for which \<open>os.IsNotExist\<close> is false.\<close>

datatype 'e root_err = NoSuchFile | CannotOpen 'e | CannotDecode string 'e

definition parseDataRoot ::
  "(string \<Rightarrow> 'e open_result) \<Rightarrow> (string \<Rightarrow> 'e + containerdConfig) \<Rightarrow> string \<Rightarrow> 'e root_err + string" where
  "parseDataRoot open_file decode path = (case open_file path of
      OpenNotExist \<Rightarrow> Inl NoSuchFile
    | OpenErr e \<Rightarrow> Inl (CannotOpen e)
    | Opened text \<Rightarrow>
        (case decode text of
           Inl e \<Rightarrow> Inl (CannotDecode path e)
         | Inr config \<Rightarrow> if Root config = [] then Inr defaultDataRoot else Inr (Root config)))"

fun data_root_loop ::
  "(string \<Rightarrow> 'e open_result) \<Rightarrow> (string \<Rightarrow> 'e + containerdConfig) \<Rightarrow> string list \<Rightarrow> (string \<times> 'e root_err) + string" where
  "data_root_loop open_file decode [] = Inr defaultDataRoot"
| "data_root_loop open_file decode (path # paths) =
     (case parseDataRoot open_file decode path of
        Inl err \<Rightarrow>
          (case err of NoSuchFile \<Rightarrow> data_root_loop open_file decode paths | _ \<Rightarrow> Inl (path, err))
      | Inr root \<Rightarrow> Inr root)"

definition GetDataRoot ::
  "(string \<Rightarrow> 'e open_result) \<Rightarrow> (string \<Rightarrow> 'e + containerdConfig) \<Rightarrow> (string \<times> 'e root_err) + string" where
  "GetDataRoot open_file decode = data_root_loop open_file decode configPath"

text \<open>
  The first configuration file that exists decides, and the later ones are not looked at: it gives the data root it names or, if
  it names none, the default; if it cannot be opened or decoded the answer is an error for that file. The default is the answer when
  none exists.
\<close>

theorem GetDataRoot_first_file:
  "GetDataRoot open_file decode =
    (case dropWhile (\<lambda>p. open_file p = OpenNotExist) configPath of
       [] \<Rightarrow> Inr defaultDataRoot
     | p # ps \<Rightarrow>
         (case open_file p of
            OpenErr e \<Rightarrow> Inl (p, CannotOpen e)
          | Opened text \<Rightarrow>
              (case decode text of
                 Inl e \<Rightarrow> Inl (p, CannotDecode p e)
               | Inr config \<Rightarrow> Inr (if Root config = [] then defaultDataRoot else Root config))))"
proof -
  have "data_root_loop open_file decode paths =
    (case dropWhile (\<lambda>p. open_file p = OpenNotExist) paths of
       [] \<Rightarrow> Inr defaultDataRoot
     | p # ps \<Rightarrow>
         (case open_file p of
            OpenErr e \<Rightarrow> Inl (p, CannotOpen e)
          | Opened text \<Rightarrow>
              (case decode text of
                 Inl e \<Rightarrow> Inl (p, CannotDecode p e)
               | Inr config \<Rightarrow> Inr (if Root config = [] then defaultDataRoot else Root config))))" for paths
    by (induction paths) (auto simp: parseDataRoot_def split: open_result.split sum.split)
  then show ?thesis by (simp add: GetDataRoot_def)
qed

section \<open>Container ids\<close>

record ContainerID = ID :: string

definition ShortID :: "(string \<Rightarrow> string) \<Rightarrow> ContainerID \<Rightarrow> string" where
  "ShortID TruncateID cid = TruncateID (ID cid)"

definition LongID :: "ContainerID \<Rightarrow> string" where
  "LongID cid = ID cid"

definition ContainerID_String :: "(string \<Rightarrow> string) \<Rightarrow> ContainerID \<Rightarrow> string" where
  "ContainerID_String TruncateID cid = ShortID TruncateID cid"

end
