(* ===== verification/PidFd.thy ===== *)
theory PidFd
  imports Prelude
begin

text \<open>
  \<open>pidfd/pidfd.go\<close>: the system calls on process descriptors of a 64-bit Linux. \<open>Syscall\<close> is an argument, from the number and the
  arguments, each a \<open>uintptr\<close>, to the first result and the error number.
\<close>

definition sys_pidfd_send_signal :: nat where "sys_pidfd_send_signal = 424"
definition sys_pidfd_open :: nat where "sys_pidfd_open = 434"
definition sys_pidfd_getfd :: nat where "sys_pidfd_getfd = 438"

type_synonym pidfd = int

type_synonym raw_syscall = "nat \<Rightarrow> 64 word list \<Rightarrow> 64 word \<times> nat"

definition Open :: "raw_syscall \<Rightarrow> int \<Rightarrow> 64 word \<Rightarrow> nat + pidfd" where
  "Open Syscall p flags =
    (let (fd, errno) = Syscall sys_pidfd_open [word_of_int p, flags, 0]
     in if errno \<noteq> 0 then Inl errno else Inr (sint fd))"

definition GetFd :: "raw_syscall \<Rightarrow> pidfd \<Rightarrow> int \<Rightarrow> 64 word \<Rightarrow> nat + int" where
  "GetFd Syscall fd targetfd flags =
    (let (newfd, errno) = Syscall sys_pidfd_getfd [word_of_int fd, word_of_int targetfd, flags]
     in if errno \<noteq> 0 then Inl errno else Inr (sint newfd))"

definition SendSignal :: "raw_syscall \<Rightarrow> pidfd \<Rightarrow> int \<Rightarrow> 64 word \<Rightarrow> nat option" where
  "SendSignal Syscall fd signal flags =
    (let (_, errno) = Syscall sys_pidfd_send_signal [word_of_int fd, word_of_int signal, 0, flags, 0, 0]
     in if errno \<noteq> 0 then Some errno else None)"

text \<open>
  The descriptor that \<open>Open\<close> returns stands for the kernel's: \<open>SendSignal\<close> and \<open>GetFd\<close> on it hand the kernel the word it
  returned, whatever its value, and they report an error exactly when the kernel does.
\<close>

theorem pidfd_handle_roundtrip:
  assumes "Syscall sys_pidfd_open [word_of_int p, flags, 0] = (w, 0)"
  shows "\<exists>fd. Open Syscall p flags = Inr fd \<and>
    (SendSignal Syscall fd sig fl = None \<longleftrightarrow> snd (Syscall sys_pidfd_send_signal [w, word_of_int sig, 0, fl, 0, 0]) = 0) \<and>
    (isl (GetFd Syscall fd t fl) \<longleftrightarrow> snd (Syscall sys_pidfd_getfd [w, word_of_int t, fl]) \<noteq> 0)"
proof -
  have "word_of_int (sint w) = w" by simp
  then show ?thesis using assms by (auto simp: Open_def SendSignal_def GetFd_def split: prod.split)
qed

theorem pidfd_handle_roundtrip_witness:
  "\<exists>fd. Open (\<lambda>n as. if n = sys_pidfd_open then (- 1, 0) else if hd as = - 1 then (5, 0) else (0, 9)) 7 0 = Inr fd \<and>
    SendSignal (\<lambda>n as. if n = sys_pidfd_open then (- 1, 0) else if hd as = - 1 then (5, 0) else (0, 9)) fd 9 0 = None"
proof -
  let ?sc = "(\<lambda>n as. if n = sys_pidfd_open then (- 1, 0) else if hd as = - 1 then (5, 0) else (0, 9)) :: raw_syscall"
  have "?sc sys_pidfd_open [word_of_int 7, 0, 0] = (- 1, 0)" by simp
  from pidfd_handle_roundtrip [where Syscall = ?sc and p = 7 and flags = 0 and w = "- 1" and sig = 9 and fl = 0, OF this] show ?thesis
    by (auto simp: sys_pidfd_send_signal_def sys_pidfd_open_def)
qed

end
