(* ===== verification/Spec2Isabelle.thy ===== *)
theory Spec2Isabelle
  imports CapStatus CapInit CapsFile MonitorLive MountInfo OverlayUtils ForkedChild OtherBuilds IdShiftUndo
    Slices FilepathOrder FsNames PidFile DockerUtils Containerd PidFd
begin

text \<open>
  A model of \<open>sysbox-libs\<close>, the Go packages that the Sysbox container runtime shares between its components:
  Linux capabilities, monitors of processes and files, the mount table and overlayfs options, user namespaces
  and ID-mapped mounts, shiftfs, the shifting of file owners, and small helpers. Source paths below are relative to
  \<open>src/\<close>.

  \<^bold>\<open>Conventions.\<close> A Go struct is a record, an enumeration a datatype, \<open>uint32\<close> and \<open>uint64\<close> are words, \<open>int\<close>
  is an \<open>int\<close> (with its 64 bits written out where they matter), a string is a list of characters, a slice a
  list, a map a partial function. A function that returns an error gives a sum or an option. A panic (an index or a
  slice bound out of range) is the left value of the type \<open>go\<close> in \<open>Prelude\<close>. Names of the code are
  kept; the pieces of a long function have names of their own. Texts of error messages, logging and locking of operating
  system threads are not modelled, except where a message is the result.

  \<^bold>\<open>Foundations.\<close>
  \<^item> \<open>Prelude\<close>: panics, sequencing (\<open>bindE\<close>, \<open>mapE\<close>, \<open>foldE\<close>), arrays of length two, shifts.
  \<^item> \<open>GoStrings\<close>, \<open>GoScan\<close>, \<open>GoFilepath\<close>: what the code uses of \<open>strings\<close>, \<open>strconv\<close>, \<open>fmt.Sscanf\<close>,
    \<open>bufio.Scanner\<close> and \<open>path/filepath\<close>, with round trips of printed and parsed numbers, lines and paths.
  \<^item> \<open>SysTrace\<close>: functions that make system calls, as computations over the trace of the calls made so far. The
    environment decides, from the whole trace, which call fails, so what is proved holds for every behaviour of the kernel.
    \<open>ioDefer\<close> is \<open>defer\<close>, which \<open>os.Exit\<close> skips; \<open>grow_rules\<close> and \<open>quiet_rules\<close> collect the rules for
    traces that only grow and functions that do not exit.

  \<^bold>\<open>Capabilities\<close> (\<open>capability/\<close>).
  \<^item> \<open>CapTypes\<close>: the constants, the selectors and the names of \<open>capability.go\<close>.
  \<^item> \<open>CapInterface\<close>: the interface \<open>Capabilities\<close> as the locale \<open>capabilities\<close>, its abstract specification
    (\<open>spec_call\<close>: one set per selector), and the proof that sequences of calls on an implementation do to the sets what
    the specification says; \<open>mkStringCap\<close> and \<open>mkString\<close>, which work on any implementation. \<open>mkString\<close> is a loop
    with fuel: it doubles its selector, so 65 rounds are enough for every bound below \<open>2 ^ 63\<close> (\<open>mkString_fuel\<close>).
  \<^item> \<open>CapsV3\<close> and \<open>CapsFile\<close>: the operations of \<open>capsV3\<close> and \<open>capsFile\<close> of \<open>capability_linux.go\<close> on
    32-bit words. Both interpret the locale.
  \<^item> \<open>CapProcess\<close>: \<open>Load\<close>, \<open>LoadOriginal\<close>, \<open>Apply\<close> and the initialisation of the globals against a kernel given as a
    record of its system calls. \<open>CapKernel\<close>: the effect of \<open>Apply\<close> on every capability set of a thread, on a kernel that
    does what its manual pages say (\<open>drop_doc\<close>, \<open>capset_doc\<close>, \<open>raise_doc\<close>, \<open>lower_doc\<close>). \<open>CapStatus\<close> reads back with
    \<open>LoadOriginal\<close> what \<open>Apply\<close> wrote, on a kernel that also reports the sets (\<open>capget_doc\<close>, \<open>status_doc\<close>). \<open>CapInit\<close>: the initialisation
    of the globals by several calls at once, one step per access to a variable (\<open>init_move\<close>), with the mutex around the flag.
  \<^item> \<open>CapVfs\<close>: the extended attribute, byte by byte (\<open>syscall_linux.go\<close>).

  \<^bold>\<open>Monitors\<close> (\<open>pidmonitor/\<close>, \<open>fileMonitor/\<close>). \<open>MonitorTable\<close> holds what both share: the outcome of \<open>os.Stat\<close>, the
  locale \<open>watch_table\<close> and the account between registrations and reports. \<open>MonitorSpec\<close> is the abstract monitor (\<open>spec_step\<close>) and the
  locale \<open>monitor_simulation\<close>, which carries its bound on the reports to any step relation that it simulates; both monitors interpret it. \<open>PidMon\<close> and \<open>FileMon\<close> model the tables, the client
  calls and the monitor thread as step relations, one step per critical section or channel operation, so that every
  interleaving is a run; invariants are proved by rule induction over the reachable states. \<open>FairRun\<close> has weak and
  strong fairness of an action on an infinite run, ranks that lead to a goal (\<open>rank_reaches\<close>), and the locale \<open>channel_thread\<close>: a thread that
  sends on a bounded channel is never blocked for ever and all it sends is received, if its steps and the receives are weakly fair.
  \<open>MonitorLive\<close> interprets it for both monitors: what is gone is received, and a \<open>Close\<close> ends the thread, for the file monitor with a
  strongly fair stop branch, since its \<open>select\<close> may take the tick instead. The time between
  polls is not modelled.

  \<^bold>\<open>Mounts.\<close> \<open>MountInfo\<close> (\<open>mount/\<close>): the \<open>mountinfo\<close> parser, which inverts the format the kernel documents, the
  searches and the flags. \<open>OverlayUtils\<close> (\<open>overlayUtils/\<close>) reads the options and layers of overlayfs off such an entry. \<open>IdMapMount\<close>
  (\<open>idMap/\<close>) and \<open>ShiftfsCheck\<close> (\<open>shiftfs/\<close>) are the mounts and the checks on the host, with their deferred clean-up;
  both fork through \<open>CreateUsernsProcess\<close> of \<open>UsernsProcess\<close> (\<open>linuxUtils/linux.go\<close>), whose wait loops have 30 rounds as in the
  code. \<open>ForkedChild\<close> follows both checks, and the one of the shm sysctls in \<open>UsernsProcess\<close>, into the child, where the same code runs with pid 0: rules for one statement at a time
  (\<open>child_rules\<close>) show that it exits inside the fork and leaves the clean-up to the parent. \<open>LinuxUtils\<close> has the other functions of that file: distribution, kernel versions (an instance of \<open>linorder\<close>), headers
  and modules.

  \<^bold>\<open>Files.\<close> \<open>IdShift\<close> (\<open>idShiftUtils/\<close>): the walk that shifts owners and access control lists, over operations on a file system
  whose documented behaviour is the hypothesis \<open>fs_law\<close>; \<open>IdShiftUndo\<close>: a shift and its reverse, and the ids found after a
  shift. \<open>PidFile\<close>, \<open>FsNames\<close>, \<open>FilepathOrder\<close> and \<open>Slices\<close> (\<open>utils/\<close>): pid
  files with the interleaving of several processes, names of file systems, the order of paths with the contract of \<open>sort.Sort\<close> as
  the locale \<open>go_sort\<close>, slices and environment variables.

  \<^bold>\<open>Container engines.\<close> \<open>DockerUtils\<close> (\<open>dockerUtils/\<close>): sessions and queries over the answers of the client, with the calls made,
  and the search of the parents of a root file system, bounded by the five levels of the code. \<open>Containerd\<close> (\<open>containerdUtils/\<close> and
  \<open>formatter/\<close>) and \<open>PidFd\<close> (\<open>pidfd/\<close>).
  \<open>OtherBuilds\<close> has the stubs for other builds (\<open>capability_noop.go\<close>, \<open>idMapMount_unsupported.go\<close>).

  \<^bold>\<open>What the lemmas show.\<close> Refinement: sequences of calls on both kinds of capability objects against abstract sets, both
  monitors against one abstract monitor. Round trips: the capability attribute, \<open>Apply\<close> and \<open>Load\<close> of a file, \<open>Apply\<close> and
  \<open>LoadOriginal\<close> of a process, a shift of owners and lists and its reverse, mount table entries, layers of overlayfs. Invariants of the monitors in
  every interleaving and, under fairness, that every loss is received and that a \<open>Close\<close> ends the thread and is seen by the reader. Safety of the functions with clean-up under every failure of a system call. Functional
  behaviour: what is dropped from the bounding set, how often an owner or a list is shifted, what the decisions say. Several
  theorems state behaviour that differs from what the code means to do; the manifest lists these as findings.

  \<^bold>\<open>Arguments of the model.\<close> Code outside the repository is an argument: the client of \<open>moby\<close>, the sets of \<open>golang-set\<close> (\<open>mapset_law\<close>),
  the lists of \<open>go-acl\<close> and the walk of \<open>godirwalk\<close> (the sequence of paths it visits and of the errors it meets), \<open>go-toml\<close>, the constants of the
  \<open>unix\<close> package, and the kernel.

  \<^bold>\<open>Not modelled.\<close> The sleep between polls as a duration; weak memory, which the
  racing but equal writes of \<open>initialize\<close> could meet (\<open>CapInit\<close> takes a word to be written as a whole).
\<close>

end
